(* ===== verification/Prelude.thy ===== *)
theory Prelude
  imports
    "HOL-Library.Word"
    "HOL-Library.Product_Lexorder"
    "HOL-Library.Char_ord"
    "HOL-Library.List_Lexorder"
    "HOL-Library.Monad_Syntax"
    "HOL-Library.While_Combinator"
    "HOL-Library.Multiset"
begin

text \<open>
  The vocabulary shared by every component: the machine integers of the Rust sources, the
  standard-library operations they use on integers, vectors, ordered sets and ordered maps,
  and the total-correctness predicate used to state that an operation returns.

  \<^item> \<open>u32\<close> and \<open>u64\<close> are fixed-width words, so \<open>+ 1\<close> wraps exactly as the release profile's
    \<open>+= 1\<close> does (the workspace sets no overflow checks); \<open>sat_add\<close> and \<open>sat_sub\<close> are
    \<open>saturating_add\<close> and \<open>saturating_sub\<close>. A \<open>usize\<close> that is an index or a length is a \<open>nat\<close>.
  \<^item> A byte is a \<open>char\<close> (eight bits), so \<open>Bytes\<close>, \<open>[u8]\<close> and \<open>String\<close> are \<open>string\<close>.
  \<^item> A \<open>BTreeSet\<close> is a finite \<open>set\<close> read in order through \<open>first_of\<close>; a \<open>HashMap\<close> or
    \<open>BTreeMap\<close> is a map, a \<open>BTreeMap\<close> being read in order through \<open>first_key_value\<close>.
  \<^item> An operation whose loop may not end, or that may panic on an index, has a result in
    \<open>option\<close>: \<open>None\<close> is "does not return normally". \<open>returns m P\<close> says that \<open>m\<close> does
    return and that its value satisfies \<open>P\<close>.
\<close>

section \<open>Machine integers\<close>

type_synonym u32 = "32 word"
type_synonym u64 = "64 word"

definition sat_add :: "u64 \<Rightarrow> u64 \<Rightarrow> u64" where
  "sat_add a b = (if a \<le> a + b then a + b else - 1)"

definition sat_sub :: "'a::len word \<Rightarrow> 'a word \<Rightarrow> 'a word" where
  "sat_sub a b = (if b \<le> a then a - b else 0)"

definition u64_of_u32 :: "u32 \<Rightarrow> u64" where
  "u64_of_u32 w = ucast w"

lemma sat_add_ge: "a \<le> sat_add a b"
  by (simp add: sat_add_def)

lemma sat_add_zero [simp]: "sat_add a 0 = a"
  by (simp add: sat_add_def)

lemma sat_sub_zero [simp]: "sat_sub a 0 = a"
  by (simp add: sat_sub_def)

lemma zero_sat_sub [simp]: "sat_sub 0 b = 0"
  by (auto simp: sat_sub_def)

lemma sat_sub_le: "sat_sub a b \<le> a"
  by (auto simp: sat_sub_def intro: word_sub_le)

lemma sat_sub_one: "sat_sub w 1 = (if w = 0 then 0 else w - 1)"
  by (auto simp: sat_sub_def not_le word_less_1)

lemma unat_sat_sub: "unat (sat_sub a b) = unat a - unat b"
  by (auto simp: sat_sub_def unat_sub word_le_nat_alt)

text \<open>Counters are the cardinality of a set, read as a word. Incrementing one is always
  right modulo the width; decrementing needs the set to be smaller than the width.\<close>

lemma unat_inc: "w \<noteq> - 1 \<Longrightarrow> unat (w + 1) = Suc (unat w)" for w :: "'a :: len word"
  using unatSuc [of w] by (simp add: add.commute add_eq_0_iff)

lemma of_nat_eq_0_small:
  "n < 2 ^ LENGTH('a::len) \<Longrightarrow> (of_nat n :: 'a word) = 0 \<longleftrightarrow> n = 0"
  by (auto simp: word_of_nat_eq_0_iff dest: dvd_imp_le)

lemma sat_sub_one_Suc:
  "Suc n < 2 ^ LENGTH('a::len) \<Longrightarrow> sat_sub (of_nat (Suc n) :: 'a word) 1 = of_nat n"
  using of_nat_eq_0_small [where 'a = 'a, of "Suc n"] by (simp add: sat_sub_one)

lemma sat_sub_one_1 [simp]: "sat_sub (1 + (w :: 'a::len word)) 1 = (if 1 + w = 0 then 0 else w)"
  by (simp add: sat_sub_one)

section \<open>Vectors\<close>

text \<open>\<open>Vec::swap_remove\<close>: the element at \<open>i\<close> is taken out and the last one takes its place;
  out of range it panics.\<close>

definition swap_remove :: "'a list \<Rightarrow> nat \<Rightarrow> ('a \<times> 'a list) option" where
  "swap_remove xs i =
     (if i < length xs then Some (xs ! i, (butlast xs)[i := last xs]) else None)"

text \<open>\<open>slice::get\<close>.\<close>

definition nth_opt :: "'a list \<Rightarrow> nat \<Rightarrow> 'a option" where
  "nth_opt xs i = (if i < length xs then Some (xs ! i) else None)"

text \<open>\<open>Iterator::position\<close>.\<close>

fun position :: "('a \<Rightarrow> bool) \<Rightarrow> 'a list \<Rightarrow> nat option" where
  "position P [] = None"
| "position P (x # xs) = (if P x then Some 0 else map_option Suc (position P xs))"

lemma position_None_iff: "position P xs = None \<longleftrightarrow> (\<forall>x \<in> set xs. \<not> P x)"
  by (induction xs) auto

lemma position_Some:
  "position P xs = Some i \<Longrightarrow> i < length xs \<and> P (xs ! i) \<and> (\<forall>j < i. \<not> P (xs ! j))"
proof (induction xs arbitrary: i)
  case Nil
  then show ?case by simp
next
  case (Cons x xs)
  show ?case
  proof (cases "P x")
    case True
    with Cons.prems show ?thesis by auto
  next
    case False
    with Cons.prems obtain k where "position P xs = Some k" "i = Suc k"
      by auto
    with Cons.IH [of k] False show ?thesis
      by (auto simp: nth_Cons split: nat.splits)
  qed
qed

lemma mset_swap_remove:
  assumes "swap_remove xs i = Some (x, ys)"
  shows "mset xs = add_mset x (mset ys)"
proof -
  from assms have i: "i < length xs" and x: "x = xs ! i"
    and ys: "ys = (butlast xs)[i := last xs]"
    by (auto simp: swap_remove_def split: if_splits)
  from i have ne: "xs \<noteq> []" by auto
  let ?b = "butlast xs"
  have xs: "xs = ?b @ [last xs]" using ne by simp
  show ?thesis
  proof (cases "i < length ?b")
    case True
    then have "xs ! i = ?b ! i" by (simp add: nth_butlast)
    moreover have "mset (?b[i := last xs]) = add_mset (last xs) (mset ?b - {#?b ! i#})"
      using True by (simp add: mset_update)
    moreover have "?b ! i \<in># mset ?b" using True by simp
    moreover have "mset xs = add_mset (last xs) (mset ?b)"
      by (subst xs) simp
    ultimately show ?thesis using x ys by simp
  next
    case False
    with i have "i = length ?b" by simp
    with x ys xs ne show ?thesis
      by (metis last_conv_nth length_butlast list_update_beyond mset.simps(2) mset_rev
          order_refl rev.simps(2) rev_rev_ident)
  qed
qed

lemma length_swap_remove: "swap_remove xs i = Some (x, ys) \<Longrightarrow> length ys = length xs - 1"
  by (auto simp: swap_remove_def split: if_splits)

lemma distinct_swap_remove:
  assumes "distinct xs" "swap_remove xs i = Some (x, ys)"
  shows "distinct ys" "set ys = set xs - {x}" "x \<in> set xs"
proof -
  have "mset xs = add_mset x (mset ys)" by (rule mset_swap_remove [OF assms(2)])
  then have m: "mset xs = mset (x # ys)" by simp
  then have "distinct (x # ys)" using assms(1) by (metis mset_eq_imp_distinct_iff)
  moreover have "set xs = set (x # ys)" using m by (rule mset_eq_setD)
  ultimately show "distinct ys" "set ys = set xs - {x}" "x \<in> set xs" by auto
qed

lemma swap_remove_nth:
  assumes "swap_remove xs i = Some (x, ys)" "k < length ys"
  shows "ys ! k = (if k = i then last xs else xs ! k)"
  using assms by (auto simp: swap_remove_def nth_list_update nth_butlast split: if_splits)

section \<open>Ordered sets and maps\<close>

text \<open>\<open>BTreeSet::first\<close>, \<open>BTreeMap::first_key_value\<close> and \<open>BTreeMap::values\<close>.\<close>

definition first_of :: "'a::linorder set \<Rightarrow> 'a option" where
  "first_of S = (if S = {} then None else Some (Min S))"

definition first_key_value :: "('k::linorder \<rightharpoonup> 'v) \<Rightarrow> ('k \<times> 'v) option" where
  "first_key_value m =
     (case first_of (dom m) of None \<Rightarrow> None | Some k \<Rightarrow> map_option (\<lambda>v. (k, v)) (m k))"

definition keys_of :: "('k::linorder \<rightharpoonup> 'v) \<Rightarrow> 'k list" where
  "keys_of m = sorted_list_of_set (dom m)"

definition values_of :: "('k::linorder \<rightharpoonup> 'v) \<Rightarrow> 'v list" where
  "values_of m = map (\<lambda>k. the (m k)) (keys_of m)"

lemma first_of_empty [simp]: "first_of {} = None"
  by (simp add: first_of_def)

lemma first_of_None_iff [simp]: "first_of S = None \<longleftrightarrow> S = {}"
  by (simp add: first_of_def)

lemma first_of_SomeD:
  assumes "first_of S = Some x" "finite S"
  shows "x \<in> S" "y \<in> S \<Longrightarrow> x \<le> y"
  using assms by (metis Min_in first_of_def option.distinct(1) option.inject)
    (use assms in \<open>auto simp: first_of_def split: if_splits\<close>)

lemma first_of_eq_Some_iff:
  "finite S \<Longrightarrow> first_of S = Some x \<longleftrightarrow> x \<in> S \<and> (\<forall>y \<in> S. x \<le> y)"
  by (metis Min_eqI Min_in Min_le emptyE first_of_def option.distinct(1) option.inject)

lemma first_key_value_None_iff:
  "finite (dom m) \<Longrightarrow> first_key_value m = None \<longleftrightarrow> dom m = {}"
  using Min_in [of "dom m"]
  by (auto simp: first_key_value_def first_of_def domIff simp del: dom_eq_empty_conv)

section \<open>Total correctness of operations that may not return\<close>

definition returns :: "'a option \<Rightarrow> ('a \<Rightarrow> bool) \<Rightarrow> bool" where
  "returns m P \<longleftrightarrow> (\<exists>x. m = Some x \<and> P x)"

named_theorems returns_intros \<open>rules that decompose a \<open>returns\<close> goal\<close>

lemma returns_Some [simp]: "returns (Some x) P \<longleftrightarrow> P x"
  by (simp add: returns_def)

lemma returns_None [simp]: "\<not> returns None P"
  by (simp add: returns_def)

lemma returns_bind [returns_intros]:
  "returns m P \<Longrightarrow> (\<And>x. P x \<Longrightarrow> returns (f x) Q) \<Longrightarrow> returns (m \<bind> f) Q"
  by (auto simp: returns_def)

lemma returns_mono: "returns m P \<Longrightarrow> (\<And>x. P x \<Longrightarrow> Q x) \<Longrightarrow> returns m Q"
  by (auto simp: returns_def)

lemma returnsE: "returns m P \<Longrightarrow> (\<And>x. m = Some x \<Longrightarrow> P x \<Longrightarrow> thesis) \<Longrightarrow> thesis"
  by (auto simp: returns_def)

text \<open>Every loop of the model whose number of rounds is not bounded by a list is an instance of
  \<open>loop\<close>: while the guard holds, run the body, which may itself not return. An invariant and
  a measure that the body decreases give total correctness.\<close>

partial_function (option) loop :: "('s \<Rightarrow> bool) \<Rightarrow> ('s \<Rightarrow> 's option) \<Rightarrow> 's \<Rightarrow> 's option"
where
  "loop b c s = (if b s then c s \<bind> (\<lambda>s'. loop b c s') else Some s)"

lemma loop_stop: "\<not> b s \<Longrightarrow> loop b c s = Some s"
  by (simp add: loop.simps)

lemma loop_step: "b s \<Longrightarrow> c s = Some s' \<Longrightarrow> loop b c s = loop b c s'"
  by (simp add: loop.simps [of b c s])

lemma returns_loop:
  fixes m :: "'s \<Rightarrow> nat"
  assumes "I s"
    and body: "\<And>s. I s \<Longrightarrow> b s \<Longrightarrow> returns (c s) (\<lambda>s'. I s' \<and> m s' < m s)"
  shows "returns (loop b c s) (\<lambda>s'. I s' \<and> \<not> b s')"
  using assms(1)
proof (induction "m s" arbitrary: s rule: less_induct)
  case less
  show ?case
  proof (cases "b s")
    case False
    with less.prems show ?thesis by (simp add: loop_stop)
  next
    case True
    from body [OF less.prems True] obtain s' where "c s = Some s'" "I s'" "m s' < m s"
      by (auto elim: returnsE)
    with less.hyps [of s'] True show ?thesis by (simp add: loop_step)
  qed
qed

lemma returnsD: "returns m P \<Longrightarrow> m = Some x \<Longrightarrow> P x"
  by (auto simp: returns_def)

end
