(* ===== verification/Ms.thy ===== *)
theory Ms
  imports Prelude
begin

text \<open>
  The array-backed multiset of \<open>crates/engine/src/ms.rs\<close>: append at the end, removal by
  swapping with the last element, and the round-robin \<open>take\<close>. It orders the global tube
  list, every connection's watch list and every tube's queue of waiting connections.

  \<open>bag\<close> is the contract its clients rely on (what each operation does to the contents as
  a multiset), with the drain law proved once from it; \<open>ms\<close> is its interpretation. The
  order of removal is fixed by \<open>ms_clear_in_delete_order_eq\<close> and \<open>ms_take_eq\<close>.
\<close>

section \<open>The data structure\<close>

record 'a ms =
  ms_items :: "'a list"
  ms_last :: nat

definition ms_new :: "'a ms" where
  "ms_new = \<lparr>ms_items = [], ms_last = 0\<rparr>"

definition ms_len :: "'a ms \<Rightarrow> nat" where
  "ms_len m = length (ms_items m)"

definition ms_is_empty :: "'a ms \<Rightarrow> bool" where
  "ms_is_empty m = (ms_items m = [])"

definition ms_append :: "'a \<Rightarrow> 'a ms \<Rightarrow> 'a ms" where
  "ms_append x m = m\<lparr>ms_items := ms_items m @ [x]\<rparr>"

definition ms_contains :: "'a \<Rightarrow> 'a ms \<Rightarrow> bool" where
  "ms_contains x m = list_ex (\<lambda>y. y = x) (ms_items m)"

text \<open>\<open>remove\<close>: linear search for the first occurrence, then swap removal. The flag says
  whether the item was found.\<close>

definition ms_remove :: "'a \<Rightarrow> 'a ms \<Rightarrow> bool \<times> 'a ms" where
  "ms_remove x m =
     (case position (\<lambda>y. y = x) (ms_items m) of
        None \<Rightarrow> (False, m)
      | Some i \<Rightarrow>
          (case swap_remove (ms_items m) i of
             None \<Rightarrow> (False, m)
           | Some (_, ys) \<Rightarrow> (True, m\<lparr>ms_items := ys\<rparr>)))"

text \<open>\<open>remove_at\<close> panics when the index is out of range (\<open>Vec::swap_remove\<close>).\<close>

definition ms_remove_at :: "nat \<Rightarrow> 'a ms \<Rightarrow> ('a \<times> 'a ms) option" where
  "ms_remove_at i m =
     (case swap_remove (ms_items m) i of
        None \<Rightarrow> None
      | Some (x, ys) \<Rightarrow> Some (x, m\<lparr>ms_items := ys\<rparr>))"

definition ms_take :: "'a ms \<Rightarrow> 'a option \<times> 'a ms" where
  "ms_take m =
     (if ms_items m = [] then (None, m)
      else
        let l = ms_last m mod length (ms_items m) in
        case swap_remove (ms_items m) l of
          None \<Rightarrow> (None, m\<lparr>ms_last := l\<rparr>)
        | Some (x, ys) \<Rightarrow> (Some x, m\<lparr>ms_items := ys, ms_last := l + 1\<rparr>))"

text \<open>\<open>clear_in_delete_order\<close>: delete index 0 until nothing is left, collecting the items in
  the order they go.\<close>

function ms_clear_loop :: "'a list \<Rightarrow> 'a list \<Rightarrow> 'a list" where
  "ms_clear_loop items order =
     (case swap_remove items 0 of
        None \<Rightarrow> order
      | Some (x, ys) \<Rightarrow> ms_clear_loop ys (order @ [x]))"
  by pat_completeness auto
termination
  by (relation "measure (\<lambda>(items, order). length items)")
     (auto simp: swap_remove_def split: if_splits)

declare ms_clear_loop.simps [simp del]

definition ms_clear_in_delete_order :: "'a ms \<Rightarrow> 'a list \<times> 'a ms" where
  "ms_clear_in_delete_order m =
     (ms_clear_loop (ms_items m) [], \<lparr>ms_items = [], ms_last = 0\<rparr>)"

section \<open>The contract of the bag\<close>

locale bag =
  fixes contents :: "'b \<Rightarrow> 'a multiset"
    and add_item :: "'a \<Rightarrow> 'b \<Rightarrow> 'b"
    and remove_item :: "'a \<Rightarrow> 'b \<Rightarrow> bool \<times> 'b"
    and take_item :: "'b \<Rightarrow> 'a option \<times> 'b"
  assumes contents_add: "contents (add_item x b) = add_mset x (contents b)"
    and remove_found: "fst (remove_item x b) \<longleftrightarrow> x \<in># contents b"
    and contents_remove: "contents (snd (remove_item x b)) = contents b - {#x#}"
    and take_None: "fst (take_item b) = None \<longleftrightarrow> contents b = {#}"
    and take_Some: "fst (take_item b) = Some x \<Longrightarrow>
      contents b = add_mset x (contents (snd (take_item b)))"
begin

text \<open>Taking \<open>n\<close> times in a row, stopping at the first \<open>None\<close>.\<close>

primrec drain :: "nat \<Rightarrow> 'b \<Rightarrow> 'a list" where
  "drain 0 b = []"
| "drain (Suc n) b =
     (case take_item b of (None, b') \<Rightarrow> [] | (Some x, b') \<Rightarrow> x # drain n b')"

lemma take_empty: "contents b = {#} \<Longrightarrow> \<exists>b'. take_item b = (None, b')"
  using take_None [of b] by (cases "take_item b") auto

lemma take_nonempty:
  "contents b \<noteq> {#} \<Longrightarrow>
   \<exists>x b'. take_item b = (Some x, b') \<and> contents b = add_mset x (contents b')"
  using take_None [of b] take_Some [of b] by (cases "take_item b") fastforce

lemma mset_drain: "size (contents b) \<le> n \<Longrightarrow> mset (drain n b) = contents b"
proof (induction n arbitrary: b)
  case 0
  then show ?case by simp
next
  case (Suc n)
  show ?case
  proof (cases "contents b = {#}")
    case True
    with take_empty [of b] show ?thesis by auto
  next
    case False
    then obtain x b' where "take_item b = (Some x, b')" "contents b = add_mset x (contents b')"
      using take_nonempty [of b] by blast
    with Suc show ?thesis by simp
  qed
qed

lemma remove_add: "contents (snd (remove_item x (add_item x b))) = contents b"
  by (simp add: contents_remove contents_add)

end

definition ms_contents :: "'a ms \<Rightarrow> 'a multiset" where
  "ms_contents m = mset (ms_items m)"

lemma ms_remove_found: "fst (ms_remove x m) \<longleftrightarrow> x \<in> set (ms_items m)"
  by (auto simp: ms_remove_def swap_remove_def position_None_iff
      dest: position_Some split: option.splits)

lemma ms_remove_contents: "ms_contents (snd (ms_remove x m)) = ms_contents m - {#x#}"
proof (cases "position (\<lambda>y. y = x) (ms_items m)")
  case None
  then have "x \<notin> set (ms_items m)" by (auto simp: position_None_iff)
  with None show ?thesis by (simp add: ms_remove_def ms_contents_def diff_single_trivial)
next
  case (Some i)
  from position_Some [OF this] have i: "i < length (ms_items m)" "ms_items m ! i = x" by auto
  then obtain ys where ys: "swap_remove (ms_items m) i = Some (x, ys)"
    by (simp add: swap_remove_def)
  from mset_swap_remove [OF ys] Some ys show ?thesis
    by (simp add: ms_remove_def ms_contents_def)
qed

lemma ms_take_eq:
  assumes "ms_items m \<noteq> []"
  shows "ms_take m =
    (let i = ms_last m mod length (ms_items m) in
     (Some (ms_items m ! i),
      \<lparr>ms_items = (butlast (ms_items m))[i := last (ms_items m)], ms_last = i + 1\<rparr>))"
  using assms by (simp add: ms_take_def swap_remove_def Let_def)

lemma ms_take_contents:
  assumes "fst (ms_take m) = Some x"
  shows "ms_contents m = add_mset x (ms_contents (snd (ms_take m)))"
proof -
  from assms have ne: "ms_items m \<noteq> []" by (auto simp: ms_take_def)
  let ?i = "ms_last m mod length (ms_items m)"
  from ne have "swap_remove (ms_items m) ?i =
      Some (ms_items m ! ?i, (butlast (ms_items m))[?i := last (ms_items m)])"
    by (simp add: swap_remove_def)
  from mset_swap_remove [OF this] assms ne show ?thesis
    by (simp add: ms_take_eq ms_contents_def Let_def)
qed

interpretation ms: bag ms_contents ms_append ms_remove ms_take
proof
  show "ms_contents (ms_append x b) = add_mset x (ms_contents b)" for x b
    by (simp add: ms_contents_def ms_append_def)
  show "fst (ms_remove x b) \<longleftrightarrow> x \<in># ms_contents b" for x b
    by (simp add: ms_remove_found ms_contents_def)
  show "fst (ms_take b) = None \<longleftrightarrow> ms_contents b = {#}" for b
    by (auto simp: ms_take_def ms_contents_def swap_remove_def Let_def split: option.splits)
qed (simp_all add: ms_remove_contents ms_take_contents)

section \<open>Facts for the clients\<close>

lemma ms_items_append [simp]: "ms_items (ms_append x m) = ms_items m @ [x]"
  by (simp add: ms_append_def)

lemma ms_contains_iff [simp]: "ms_contains x m \<longleftrightarrow> x \<in> set (ms_items m)"
  by (auto simp: ms_contains_def list_ex_iff)

lemma ms_remove_distinct:
  assumes "distinct (ms_items m)"
  shows "distinct (ms_items (snd (ms_remove x m)))"
    and "set (ms_items (snd (ms_remove x m))) = set (ms_items m) - {x}"
proof -
  have "mset (ms_items (snd (ms_remove x m))) = mset (ms_items m) - {#x#}"
    using ms_remove_contents [of x m] by (simp add: ms_contents_def)
  also have "\<dots> = mset (remove1 x (ms_items m))" by simp
  finally have *: "mset (ms_items (snd (ms_remove x m))) = mset (remove1 x (ms_items m))" .
  show "distinct (ms_items (snd (ms_remove x m)))"
    using mset_eq_imp_distinct_iff [OF *] assms by simp
  show "set (ms_items (snd (ms_remove x m))) = set (ms_items m) - {x}"
    using mset_eq_setD [OF *] assms by simp
qed

lemma ms_take_distinct:
  assumes "distinct (ms_items m)" "ms_take m = (Some x, m')"
  shows "distinct (ms_items m')" "set (ms_items m') = set (ms_items m) - {x}"
    "x \<in> set (ms_items m)"
proof -
  have "mset (ms_items m) = mset (x # ms_items m')"
    using ms_take_contents [of m x] assms(2) by (simp add: ms_contents_def)
  with assms(1) have "distinct (x # ms_items m')" "set (ms_items m) = set (x # ms_items m')"
    by (metis mset_eq_imp_distinct_iff, metis mset_eq_setD)
  then show "distinct (ms_items m')" "set (ms_items m') = set (ms_items m) - {x}"
    "x \<in> set (ms_items m)" by auto
qed

lemma ms_take_None_iff: "fst (ms_take m) = None \<longleftrightarrow> ms_items m = []"
  using ms.take_None [of m] by (simp add: ms_contents_def)

text \<open>C25: draining the waiting queue hands out every element exactly once: \<open>len\<close> calls of
  \<open>take\<close> in a row, from any cursor position, return a permutation of the stored items.\<close>

theorem ms_drain_permutation:
  "mset (ms.drain (ms_len m) m) = mset (ms_items m)"
  using ms.mset_drain [of m "ms_len m"] by (simp add: ms_len_def ms_contents_def)

lemma ms_clear_loop_snoc:
  "ms_clear_loop (x # xs) acc = acc @ x # rev xs"
proof (induction xs arbitrary: x acc rule: rev_induct)
  case Nil
  then show ?case
    by (simp add: ms_clear_loop.simps [of "[x]"] ms_clear_loop.simps [of "[]"] swap_remove_def)
next
  case (snoc y xs)
  have "swap_remove (x # xs @ [y]) 0 = Some (x, y # xs)"
    by (simp add: swap_remove_def butlast_append)
  with snoc.IH show ?case
    by (simp add: ms_clear_loop.simps [of "x # xs @ [y]"])
qed

text \<open>Clearing deletes the first item, then the others from the last to the second. This
  order decides in which order a closing connection's tubes are released, and so the order of
  the surviving tubes in the global list.\<close>

lemma ms_clear_in_delete_order_eq:
  "ms_clear_in_delete_order m =
    ((case ms_items m of [] \<Rightarrow> [] | x # xs \<Rightarrow> x # rev xs), ms_new)"
  by (cases "ms_items m")
     (simp_all add: ms_clear_in_delete_order_def ms_new_def ms_clear_loop_snoc
       ms_clear_loop.simps [of "[]"] swap_remove_def)

end
