(* ===== verification/Proto.thy ===== *)
theory Proto
  imports Prelude
begin

text \<open>
  The public types of \<open>crates/proto/src/lib.rs\<close>: tube names, commands, replies and frames,
  and the limits of the protocol. A byte string is a \<open>string\<close>. Constructors carry a prefix
  (\<open>C\<close> for commands, \<open>R\<close> for replies, \<open>F\<close> for frames) where the source has one enum per
  namespace.
\<close>

section \<open>Limits\<close>

definition MAX_TUBE_NAME_LEN :: nat where
  "MAX_TUBE_NAME_LEN = 200"

definition LINE_BUF_SIZE :: nat where
  "LINE_BUF_SIZE = 224"

definition DEFAULT_MAX_JOB_SIZE :: u32 where
  "DEFAULT_MAX_JOB_SIZE = push_bit 16 1 - 1"

definition MAX_JOB_SIZE_LIMIT :: u32 where
  "MAX_JOB_SIZE_LIMIT = 1073741824"

definition URGENT_THRESHOLD :: u32 where
  "URGENT_THRESHOLD = 1024"

type_synonym job_id = u64

section \<open>Tube names\<close>

text \<open>\<open>TubeName\<close> is a newtype over \<open>String\<close> whose only constructors are \<open>new\<close> and
  \<open>try_from\<close>, which validate, and \<open>default_tube\<close>.\<close>

type_synonym tube_name = string

definition default_tube :: tube_name where
  "default_tube = ''default''"

text \<open>\<open>is_ascii_digit\<close>, \<open>is_ascii_alphanumeric\<close> and \<open>NAME_CHARS\<close>.\<close>

definition is_ascii_digit :: "char \<Rightarrow> bool" where
  "is_ascii_digit b = (CHR ''0'' \<le> b \<and> b \<le> CHR ''9'')"

definition is_ascii_alphanumeric :: "char \<Rightarrow> bool" where
  "is_ascii_alphanumeric b =
     (is_ascii_digit b \<or> (CHR ''A'' \<le> b \<and> b \<le> CHR ''Z'') \<or> (CHR ''a'' \<le> b \<and> b \<le> CHR ''z''))"

definition is_name_char :: "char \<Rightarrow> bool" where
  "is_name_char b =
     (is_ascii_alphanumeric b \<or>
      b \<in> {CHR ''-'', CHR ''+'', CHR ''/'', CHR '';'', CHR ''.'', CHR ''$'', CHR ''_'',
           CHR ''('', CHR '')''})"

definition validate_tube_name :: "string \<Rightarrow> unit option" where
  "validate_tube_name name =
     (case name of
        [] \<Rightarrow> None
      | b0 # _ \<Rightarrow>
          if length name > MAX_TUBE_NAME_LEN then None
          else if b0 = CHR ''-'' then None
          else if \<not> list_all is_name_char name then None
          else Some ())"

definition TubeName_new :: "string \<Rightarrow> tube_name option" where
  "TubeName_new name = map_option (\<lambda>_. name) (validate_tube_name name)"

section \<open>Commands, replies, frames\<close>

datatype command =
    CPut (put_pri: u32) (put_delay: u32) (put_ttr: u32) (put_body: string)
  | CUse tube_name
  | CReserve
  | CReserveWithTimeout u32
  | CReserveJob job_id
  | CDelete job_id
  | CRelease job_id u32 u32
  | CBury job_id u32
  | CTouch job_id
  | CWatch tube_name
  | CIgnore tube_name
  | CPeek job_id
  | CPeekReady
  | CPeekDelayed
  | CPeekBuried
  | CKick u32
  | CKickJob job_id
  | CStatsJob job_id
  | CStatsTube tube_name
  | CStats
  | CListTubes
  | CListTubeUsed
  | CListTubesWatched
  | CQuit
  | CPauseTube tube_name u32
  | CPauseTubeBadName

datatype response =
    RInserted job_id
  | RBuriedId job_id
  | RBuried
  | RUsing tube_name
  | RReserved job_id string
  | RFound job_id string
  | RWatching u64
  | RKicked u64
  | RKickedJob
  | ROk string
  | RDeadlineSoon
  | RTimedOut
  | RDeleted
  | RReleased
  | RTouched
  | RNotFound
  | RNotIgnored
  | RPaused
  | RExpectedCrlf
  | RJobTooBig
  | RDraining
  | ROutOfMemory
  | RInternalError
  | RBadFormat
  | RUnknownCommand
  | RAuthenticated
  | RUnauthorized

datatype put_rejection = JobTooBig | TrailingGarbage | ExpectedCrlf | OutOfMemory

fun put_rejection_response :: "put_rejection \<Rightarrow> response" where
  "put_rejection_response JobTooBig = RJobTooBig"
| "put_rejection_response TrailingGarbage = RBadFormat"
| "put_rejection_response ExpectedCrlf = RExpectedCrlf"
| "put_rejection_response OutOfMemory = ROutOfMemory"

datatype frame =
    FCommand command
  | FPutRejected put_rejection
  | FPutStarted bool
  | FAuth string
  | FError response

section \<open>Facts about tube names\<close>

definition valid_tube_name :: "string \<Rightarrow> bool" where
  "valid_tube_name n \<longleftrightarrow> validate_tube_name n = Some ()"

lemma valid_tube_name_iff:
  "valid_tube_name n \<longleftrightarrow>
     n \<noteq> [] \<and> length n \<le> MAX_TUBE_NAME_LEN \<and> hd n \<noteq> CHR ''-'' \<and> list_all is_name_char n"
  by (cases n) (auto simp: valid_tube_name_def validate_tube_name_def)

lemma valid_default_tube: "valid_tube_name default_tube"
  by (simp add: valid_tube_name_iff default_tube_def MAX_TUBE_NAME_LEN_def is_name_char_def
      is_ascii_alphanumeric_def less_eq_char_def)

lemma TubeName_new_Some: "TubeName_new s = Some n \<longleftrightarrow> n = s \<and> valid_tube_name s"
  by (auto simp: TubeName_new_def valid_tube_name_def)

lemma TubeName_new_None: "TubeName_new s = None \<longleftrightarrow> \<not> valid_tube_name s"
  by (cases "validate_tube_name s") (auto simp: TubeName_new_def valid_tube_name_def)

text \<open>Every name character is printable ASCII: no space, control or high byte.\<close>

lemma is_name_char_range: "is_name_char b \<Longrightarrow> CHR ''!'' \<le> b \<and> b \<le> CHR ''z''"
  by (auto simp: is_name_char_def is_ascii_alphanumeric_def is_ascii_digit_def
      less_eq_char_def)

end
