(* ===== verification/Proto_Stats.thy ===== *)
theory Proto_Stats
  imports Proto
begin

text \<open>
  The YAML payloads of \<open>crates/proto/src/stats.rs\<close> and the reply encoding of
  \<open>crates/proto/src/response.rs\<close>: the three statistics records with their \<open>to_yaml\<close>,
  \<open>yaml_list\<close>, and \<open>Response::encode\<close>.
\<close>

section \<open>Decimal formatting\<close>

text \<open>\<open>format!\<close> on an unsigned integer: the decimal digits, no leading zero.\<close>

definition digit_char :: "nat \<Rightarrow> char" where
  "digit_char d = char_of (48 + d)"

fun show_nat :: "nat \<Rightarrow> string" where
  "show_nat n =
     (if n < 10 then [digit_char n] else show_nat (n div 10) @ [digit_char (n mod 10)])"

declare show_nat.simps [simp del]

definition show_u64 :: "u64 \<Rightarrow> string" where
  "show_u64 w = show_nat (unat w)"

definition show_u32 :: "u32 \<Rightarrow> string" where
  "show_u32 w = show_nat (unat w)"

text \<open>The width-six format: padded on the left with zeros to at least six characters.\<close>

definition show_u64_06 :: "u64 \<Rightarrow> string" where
  "show_u64_06 w = (let s = show_u64 w in replicate (6 - length s) (CHR ''0'') @ s)"

section \<open>Statistics\<close>

definition NL :: string where
  "NL = [char_of (10::nat)]"

definition quoted :: "string \<Rightarrow> string" where
  "quoted s = [char_of (34::nat)] @ s @ [char_of (34::nat)]"

definition yaml_entry :: "string \<Rightarrow> string \<Rightarrow> string" where
  "yaml_entry k v = k @ '': '' @ v @ NL"

definition yaml_doc :: "string list \<Rightarrow> string" where
  "yaml_doc entries = ''---'' @ NL @ concat entries"

record stats_job =
  sj_id :: job_id
  sj_tube :: tube_name
  sj_state :: string
  sj_pri :: u32
  sj_age :: u64
  sj_delay :: u64
  sj_ttr :: u64
  sj_time_left :: u64
  sj_file :: u64
  sj_reserves :: u64
  sj_timeouts :: u64
  sj_releases :: u64
  sj_buries :: u64
  sj_kicks :: u64

record stats_tube =
  st_name :: tube_name
  st_current_jobs_urgent :: u64
  st_current_jobs_ready :: u64
  st_current_jobs_reserved :: u64
  st_current_jobs_delayed :: u64
  st_current_jobs_buried :: u64
  st_total_jobs :: u64
  st_current_using :: u64
  st_current_watching :: u64
  st_current_waiting :: u64
  st_cmd_delete :: u64
  st_cmd_pause_tube :: u64
  st_pause :: u64
  st_pause_time_left :: u64

record stats_server =
  sv_current_jobs_urgent :: u64
  sv_current_jobs_ready :: u64
  sv_current_jobs_reserved :: u64
  sv_current_jobs_delayed :: u64
  sv_current_jobs_buried :: u64
  sv_cmd_put :: u64
  sv_cmd_peek :: u64
  sv_cmd_peek_ready :: u64
  sv_cmd_peek_delayed :: u64
  sv_cmd_peek_buried :: u64
  sv_cmd_reserve :: u64
  sv_cmd_reserve_with_timeout :: u64
  sv_cmd_delete :: u64
  sv_cmd_release :: u64
  sv_cmd_use :: u64
  sv_cmd_watch :: u64
  sv_cmd_ignore :: u64
  sv_cmd_bury :: u64
  sv_cmd_kick :: u64
  sv_cmd_touch :: u64
  sv_cmd_stats :: u64
  sv_cmd_stats_job :: u64
  sv_cmd_stats_tube :: u64
  sv_cmd_list_tubes :: u64
  sv_cmd_list_tube_used :: u64
  sv_cmd_list_tubes_watched :: u64
  sv_cmd_pause_tube :: u64
  sv_job_timeouts :: u64
  sv_total_jobs :: u64
  sv_max_job_size :: u64
  sv_current_tubes :: u64
  sv_current_connections :: u64
  sv_current_producers :: u64
  sv_current_workers :: u64
  sv_current_waiting :: u64
  sv_total_connections :: u64
  sv_pid :: u64
  sv_version :: string
  sv_rusage_utime :: "u64 \<times> u64"
  sv_rusage_stime :: "u64 \<times> u64"
  sv_uptime :: u64
  sv_binlog_oldest_index :: u64
  sv_binlog_current_index :: u64
  sv_binlog_records_migrated :: u64
  sv_binlog_records_written :: u64
  sv_binlog_max_size :: u64
  sv_draining :: bool
  sv_id :: string
  sv_hostname :: string
  sv_os :: string
  sv_platform :: string

definition stats_job_to_yaml :: "stats_job \<Rightarrow> string" where
  "stats_job_to_yaml s =
     yaml_doc [
      yaml_entry ''id'' (show_u64 (sj_id s)),
      yaml_entry ''tube'' (quoted (sj_tube s)),
      yaml_entry ''state'' (sj_state s),
      yaml_entry ''pri'' (show_u32 (sj_pri s)),
      yaml_entry ''age'' (show_u64 (sj_age s)),
      yaml_entry ''delay'' (show_u64 (sj_delay s)),
      yaml_entry ''ttr'' (show_u64 (sj_ttr s)),
      yaml_entry ''time-left'' (show_u64 (sj_time_left s)),
      yaml_entry ''file'' (show_u64 (sj_file s)),
      yaml_entry ''reserves'' (show_u64 (sj_reserves s)),
      yaml_entry ''timeouts'' (show_u64 (sj_timeouts s)),
      yaml_entry ''releases'' (show_u64 (sj_releases s)),
      yaml_entry ''buries'' (show_u64 (sj_buries s)),
      yaml_entry ''kicks'' (show_u64 (sj_kicks s))]"

definition stats_tube_to_yaml :: "stats_tube \<Rightarrow> string" where
  "stats_tube_to_yaml s =
     yaml_doc [
      yaml_entry ''name'' (quoted (st_name s)),
      yaml_entry ''current-jobs-urgent'' (show_u64 (st_current_jobs_urgent s)),
      yaml_entry ''current-jobs-ready'' (show_u64 (st_current_jobs_ready s)),
      yaml_entry ''current-jobs-reserved'' (show_u64 (st_current_jobs_reserved s)),
      yaml_entry ''current-jobs-delayed'' (show_u64 (st_current_jobs_delayed s)),
      yaml_entry ''current-jobs-buried'' (show_u64 (st_current_jobs_buried s)),
      yaml_entry ''total-jobs'' (show_u64 (st_total_jobs s)),
      yaml_entry ''current-using'' (show_u64 (st_current_using s)),
      yaml_entry ''current-watching'' (show_u64 (st_current_watching s)),
      yaml_entry ''current-waiting'' (show_u64 (st_current_waiting s)),
      yaml_entry ''cmd-delete'' (show_u64 (st_cmd_delete s)),
      yaml_entry ''cmd-pause-tube'' (show_u64 (st_cmd_pause_tube s)),
      yaml_entry ''pause'' (show_u64 (st_pause s)),
      yaml_entry ''pause-time-left'' (show_u64 (st_pause_time_left s))]"

definition stats_server_to_yaml :: "stats_server \<Rightarrow> string" where
  "stats_server_to_yaml s =
     yaml_doc [
      yaml_entry ''current-jobs-urgent'' (show_u64 (sv_current_jobs_urgent s)),
      yaml_entry ''current-jobs-ready'' (show_u64 (sv_current_jobs_ready s)),
      yaml_entry ''current-jobs-reserved'' (show_u64 (sv_current_jobs_reserved s)),
      yaml_entry ''current-jobs-delayed'' (show_u64 (sv_current_jobs_delayed s)),
      yaml_entry ''current-jobs-buried'' (show_u64 (sv_current_jobs_buried s)),
      yaml_entry ''cmd-put'' (show_u64 (sv_cmd_put s)),
      yaml_entry ''cmd-peek'' (show_u64 (sv_cmd_peek s)),
      yaml_entry ''cmd-peek-ready'' (show_u64 (sv_cmd_peek_ready s)),
      yaml_entry ''cmd-peek-delayed'' (show_u64 (sv_cmd_peek_delayed s)),
      yaml_entry ''cmd-peek-buried'' (show_u64 (sv_cmd_peek_buried s)),
      yaml_entry ''cmd-reserve'' (show_u64 (sv_cmd_reserve s)),
      yaml_entry ''cmd-reserve-with-timeout'' (show_u64 (sv_cmd_reserve_with_timeout s)),
      yaml_entry ''cmd-delete'' (show_u64 (sv_cmd_delete s)),
      yaml_entry ''cmd-release'' (show_u64 (sv_cmd_release s)),
      yaml_entry ''cmd-use'' (show_u64 (sv_cmd_use s)),
      yaml_entry ''cmd-watch'' (show_u64 (sv_cmd_watch s)),
      yaml_entry ''cmd-ignore'' (show_u64 (sv_cmd_ignore s)),
      yaml_entry ''cmd-bury'' (show_u64 (sv_cmd_bury s)),
      yaml_entry ''cmd-kick'' (show_u64 (sv_cmd_kick s)),
      yaml_entry ''cmd-touch'' (show_u64 (sv_cmd_touch s)),
      yaml_entry ''cmd-stats'' (show_u64 (sv_cmd_stats s)),
      yaml_entry ''cmd-stats-job'' (show_u64 (sv_cmd_stats_job s)),
      yaml_entry ''cmd-stats-tube'' (show_u64 (sv_cmd_stats_tube s)),
      yaml_entry ''cmd-list-tubes'' (show_u64 (sv_cmd_list_tubes s)),
      yaml_entry ''cmd-list-tube-used'' (show_u64 (sv_cmd_list_tube_used s)),
      yaml_entry ''cmd-list-tubes-watched'' (show_u64 (sv_cmd_list_tubes_watched s)),
      yaml_entry ''cmd-pause-tube'' (show_u64 (sv_cmd_pause_tube s)),
      yaml_entry ''job-timeouts'' (show_u64 (sv_job_timeouts s)),
      yaml_entry ''total-jobs'' (show_u64 (sv_total_jobs s)),
      yaml_entry ''max-job-size'' (show_u64 (sv_max_job_size s)),
      yaml_entry ''current-tubes'' (show_u64 (sv_current_tubes s)),
      yaml_entry ''current-connections'' (show_u64 (sv_current_connections s)),
      yaml_entry ''current-producers'' (show_u64 (sv_current_producers s)),
      yaml_entry ''current-workers'' (show_u64 (sv_current_workers s)),
      yaml_entry ''current-waiting'' (show_u64 (sv_current_waiting s)),
      yaml_entry ''total-connections'' (show_u64 (sv_total_connections s)),
      yaml_entry ''pid'' (show_u64 (sv_pid s)),
      yaml_entry ''version'' (quoted (sv_version s)),
      yaml_entry ''rusage-utime'' (show_u64 (fst (sv_rusage_utime s)) @ ''.'' @ show_u64_06 (snd (sv_rusage_utime s))),
      yaml_entry ''rusage-stime'' (show_u64 (fst (sv_rusage_stime s)) @ ''.'' @ show_u64_06 (snd (sv_rusage_stime s))),
      yaml_entry ''uptime'' (show_u64 (sv_uptime s)),
      yaml_entry ''binlog-oldest-index'' (show_u64 (sv_binlog_oldest_index s)),
      yaml_entry ''binlog-current-index'' (show_u64 (sv_binlog_current_index s)),
      yaml_entry ''binlog-records-migrated'' (show_u64 (sv_binlog_records_migrated s)),
      yaml_entry ''binlog-records-written'' (show_u64 (sv_binlog_records_written s)),
      yaml_entry ''binlog-max-size'' (show_u64 (sv_binlog_max_size s)),
      yaml_entry ''draining'' (if sv_draining s then ''true'' else ''false''),
      yaml_entry ''id'' (sv_id s),
      yaml_entry ''hostname'' (quoted (sv_hostname s)),
      yaml_entry ''os'' (quoted (sv_os s)),
      yaml_entry ''platform'' (quoted (sv_platform s))]"

text \<open>\<open>yaml_list\<close>: the payload of \<open>list-tubes\<close> and \<open>list-tubes-watched\<close>.\<close>

definition yaml_list :: "tube_name list \<Rightarrow> string" where
  "yaml_list names = ''---'' @ NL @ concat (map (\<lambda>n. ''- '' @ n @ NL) names)"


section \<open>Reply encoding\<close>

definition CRLF :: string where
  "CRLF = [char_of (13::nat), char_of (10::nat)]"

definition push_with_body :: "string \<Rightarrow> string \<Rightarrow> string" where
  "push_with_body header body = header @ body @ CRLF"

fun encode :: "response \<Rightarrow> string" where
  "encode (RInserted jid) = ''INSERTED '' @ show_u64 jid @ CRLF"
| "encode (RBuriedId jid) = ''BURIED '' @ show_u64 jid @ CRLF"
| "encode RBuried = ''BURIED'' @ CRLF"
| "encode (RUsing tube) = ''USING '' @ tube @ CRLF"
| "encode (RReserved jid body) =
     push_with_body
       (''RESERVED '' @ show_u64 jid @ '' '' @ show_nat (length body) @ CRLF) body"
| "encode (RFound jid body) =
     push_with_body
       (''FOUND '' @ show_u64 jid @ '' '' @ show_nat (length body) @ CRLF) body"
| "encode (RWatching n) = ''WATCHING '' @ show_u64 n @ CRLF"
| "encode (RKicked n) = ''KICKED '' @ show_u64 n @ CRLF"
| "encode RKickedJob = ''KICKED'' @ CRLF"
| "encode (ROk body) = push_with_body (''OK '' @ show_nat (length body) @ CRLF) body"
| "encode RDeadlineSoon = ''DEADLINE_SOON'' @ CRLF"
| "encode RTimedOut = ''TIMED_OUT'' @ CRLF"
| "encode RDeleted = ''DELETED'' @ CRLF"
| "encode RReleased = ''RELEASED'' @ CRLF"
| "encode RTouched = ''TOUCHED'' @ CRLF"
| "encode RNotFound = ''NOT_FOUND'' @ CRLF"
| "encode RNotIgnored = ''NOT_IGNORED'' @ CRLF"
| "encode RPaused = ''PAUSED'' @ CRLF"
| "encode RExpectedCrlf = ''EXPECTED_CRLF'' @ CRLF"
| "encode RJobTooBig = ''JOB_TOO_BIG'' @ CRLF"
| "encode RDraining = ''DRAINING'' @ CRLF"
| "encode ROutOfMemory = ''OUT_OF_MEMORY'' @ CRLF"
| "encode RInternalError = ''INTERNAL_ERROR'' @ CRLF"
| "encode RBadFormat = ''BAD_FORMAT'' @ CRLF"
| "encode RUnknownCommand = ''UNKNOWN_COMMAND'' @ CRLF"
| "encode RAuthenticated = ''AUTHENTICATED'' @ CRLF"
| "encode RUnauthorized = ''UNAUTHORIZED'' @ CRLF"

end
