(* ===== verification/Engine_Model.thy ===== *)
theory Engine_Model
  imports Ms Proto_Stats
begin

text \<open>
  The data of the queue engine: jobs, tubes and connections (\<open>crates/engine/src/model.rs\<close>),
  the public types of \<open>crates/engine/src/lib.rs\<close> (configuration, journal records, recovery,
  inputs) and the \<open>Engine\<close> struct itself (\<open>crates/engine/src/engine.rs\<close>).

  Field names carry a prefix per struct: \<open>j_\<close> for \<open>JobRec\<close>, \<open>s_\<close> for \<open>TubeStat\<close>, \<open>t_\<close> for
  \<open>TubeState\<close>, \<open>c_\<close> for \<open>ConnState\<close>, \<open>e_\<close> for \<open>Engine\<close>. The 22 \<open>cmd_*\<close> fields of \<open>Engine\<close>
  are grouped in the record \<open>op_counters\<close>. The \<open>SysInfo\<close> handle is represented by the
  snapshot it returns.
\<close>

section \<open>Time and connections\<close>

type_synonym nanos = u64
type_synonym conn_id = u64
type_synonym tube_id = nat

definition NANOS_PER_SEC :: nanos where
  "NANOS_PER_SEC = 1000000000"

definition SAFETY_MARGIN :: nanos where
  "SAFETY_MARGIN = NANOS_PER_SEC"

definition DEFAULT_TUBE :: tube_id where
  "DEFAULT_TUBE = 0"

text \<open>\<open>(x as Nanos) * NANOS_PER_SEC\<close> for a \<open>u32\<close> number of seconds.\<close>

definition secs :: "u32 \<Rightarrow> nanos" where
  "secs x = u64_of_u32 x * NANOS_PER_SEC"

type_synonym outbox = "(conn_id \<times> response) list"

record local_conns =
  lc_node_shift :: u32
  lc_node :: u64

definition owns :: "local_conns \<Rightarrow> conn_id \<Rightarrow> bool" where
  "owns l conn = (drop_bit (unat (lc_node_shift l) mod 64) conn = lc_node l)"

record sys_snapshot =
  ss_pid :: u64
  ss_version :: string
  ss_rusage_utime :: "u64 \<times> u64"
  ss_rusage_stime :: "u64 \<times> u64"
  ss_id :: string
  ss_hostname :: string
  ss_os :: string
  ss_platform :: string

record engine_config =
  cfg_max_job_size :: u32
  cfg_binlog_max_size :: u64
  cfg_journal :: bool

definition DEFAULT_BINLOG_MAX_SIZE :: u64 where
  "DEFAULT_BINLOG_MAX_SIZE = push_bit 20 10"

definition default_engine_config :: engine_config where
  "default_engine_config =
     \<lparr>cfg_max_job_size = DEFAULT_MAX_JOB_SIZE,
      cfg_binlog_max_size = DEFAULT_BINLOG_MAX_SIZE, cfg_journal = False\<rparr>"

section \<open>Journal records and recovery\<close>

datatype record_state = RecReady | RecDelayed | RecBuried

record job_record =
  r_id :: job_id
  r_pri :: u32
  r_delay :: u32
  r_ttr :: u32
  r_created_at :: nanos
  r_deadline_at :: nanos
  r_state :: record_state
  r_reserve_ct :: u32
  r_timeout_ct :: u32
  r_release_ct :: u32
  r_bury_ct :: u32
  r_kick_ct :: u32

datatype journal_entry =
    JPut job_record tube_name string
  | JUpdate job_record
  | JDelete job_id

record recovered_job =
  rj_record :: job_record
  rj_tube :: tube_name
  rj_body :: string

record recovery =
  rec_jobs :: "recovered_job list"
  rec_next_id :: job_id
  rec_tube_order :: "tube_name list"

record binlog_stats =
  bl_oldest_index :: u64
  bl_current_index :: u64
  bl_records_written :: u64
  bl_records_migrated :: u64

definition default_binlog_stats :: binlog_stats where
  "default_binlog_stats =
     \<lparr>bl_oldest_index = 0, bl_current_index = 0, bl_records_written = 0,
      bl_records_migrated = 0\<rparr>"

section \<open>Inputs\<close>

datatype engine_input =
    IConnect conn_id
  | IDisconnect conn_id
  | IHalfClose conn_id
  | IPutStarted conn_id bool
  | IPutRejected conn_id put_rejection
  | ICommand conn_id command
  | ITick
  | ISetDraining bool

fun input_conn :: "engine_input \<Rightarrow> conn_id option" where
  "input_conn (IConnect c) = Some c"
| "input_conn (IDisconnect c) = Some c"
| "input_conn (IHalfClose c) = Some c"
| "input_conn (IPutStarted c _) = Some c"
| "input_conn (IPutRejected c _) = Some c"
| "input_conn (ICommand c _) = Some c"
| "input_conn ITick = None"
| "input_conn (ISetDraining _) = None"

section \<open>Jobs\<close>

datatype job_state = Ready | Reserved | Delayed | Buried

record job_rec =
  j_id :: job_id
  j_tube :: tube_id
  j_pri :: u32
  j_delay :: u32
  j_ttr :: u32
  j_body :: string
  j_created_at :: nanos
  j_deadline_at :: nanos
  j_state :: job_state
  j_reserver :: "conn_id option"
  j_list_seq :: u64
  j_reserve_ct :: u32
  j_timeout_ct :: u32
  j_release_ct :: u32
  j_bury_ct :: u32
  j_kick_ct :: u32
  j_file :: u64

fun state_name :: "job_state \<Rightarrow> string" where
  "state_name Ready = ''ready''"
| "state_name Reserved = ''reserved''"
| "state_name Delayed = ''delayed''"
| "state_name Buried = ''buried''"

section \<open>Tubes\<close>

record tube_stat =
  s_urgent_ct :: u64
  s_buried_ct :: u64
  s_reserved_ct :: u64
  s_waiting_ct :: u64
  s_pause_ct :: u64
  s_total_delete_ct :: u64
  s_total_jobs_ct :: u64

definition default_tube_stat :: tube_stat where
  "default_tube_stat =
     \<lparr>s_urgent_ct = 0, s_buried_ct = 0, s_reserved_ct = 0, s_waiting_ct = 0, s_pause_ct = 0,
      s_total_delete_ct = 0, s_total_jobs_ct = 0\<rparr>"

record tube_state =
  t_name :: tube_name
  t_ready :: "(u32 \<times> job_id) set"
  t_delayed :: "(nanos \<times> job_id) set"
  t_buried :: "u64 \<rightharpoonup> job_id"
  t_waiting_conns :: "conn_id ms"
  t_using_ct :: u32
  t_watching_ct :: u32
  t_job_ref_ct :: u64
  t_stat :: tube_stat
  t_pause :: nanos
  t_unpause_at :: nanos
  t_pos :: nat
  t_delay_head :: "nanos option"
  t_dispatchable :: bool

definition tube_state_new :: "tube_name \<Rightarrow> nat \<Rightarrow> tube_state" where
  "tube_state_new name pos =
     \<lparr>t_name = name, t_ready = {}, t_delayed = {}, t_buried = Map.empty,
      t_waiting_conns = ms_new, t_using_ct = 0, t_watching_ct = 0, t_job_ref_ct = 0,
      t_stat = default_tube_stat, t_pause = 0, t_unpause_at = 0, t_pos = pos,
      t_delay_head = None, t_dispatchable = False\<rparr>"

definition tube_refs :: "tube_state \<Rightarrow> u64" where
  "tube_refs t = u64_of_u32 (t_using_ct t) + u64_of_u32 (t_watching_ct t) + t_job_ref_ct t"

section \<open>Connections\<close>

record pending_put =
  pp_id :: "job_id option"
  pp_created_at :: nanos

record conn_state =
  c_use_tube :: tube_id
  c_watch :: "tube_id ms"
  c_is_producer :: bool
  c_is_worker :: bool
  c_waiting :: bool
  c_wait_deadline :: "nanos option"
  c_reserved :: "u64 \<rightharpoonup> job_id"
  c_reserved_by_deadline :: "(nanos \<times> job_id) set"
  c_pending_put :: "pending_put option"
  c_tick_key :: "nanos option"

definition conn_state_new :: "tube_id \<Rightarrow> conn_state" where
  "conn_state_new dflt =
     \<lparr>c_use_tube = dflt, c_watch = ms_append dflt ms_new,
      c_is_producer = False, c_is_worker = False, c_waiting = False,
      c_wait_deadline = None, c_reserved = Map.empty, c_reserved_by_deadline = {},
      c_pending_put = None, c_tick_key = None\<rparr>"

definition soonest_reserved :: "conn_state \<Rightarrow> (nanos \<times> job_id) option" where
  "soonest_reserved c = first_of (c_reserved_by_deadline c)"

text \<open>\<open>conn_tickat\<close>, computed in \<open>i128\<close>: the time at which the connection next needs
  attention.\<close>

definition conn_tickat :: "conn_state \<Rightarrow> nanos option" where
  "conn_tickat c =
     (let margin = (if c_waiting c then uint SAFETY_MARGIN else 0);
          t = map_option (\<lambda>(deadline, _). uint deadline - margin) (soonest_reserved c);
          t = (case c_wait_deadline c of
                 Some wd \<Rightarrow>
                   if c_waiting c
                   then Some (case t of Some v \<Rightarrow> min v (uint wd) | None \<Rightarrow> uint wd)
                   else t
               | None \<Rightarrow> t)
      in map_option (\<lambda>v. word_of_int (max v 0)) t)"

section \<open>The engine\<close>

record op_counters =
  o_put :: u64
  o_peek :: u64
  o_peek_ready :: u64
  o_peek_delayed :: u64
  o_peek_buried :: u64
  o_reserve :: u64
  o_reserve_with_timeout :: u64
  o_delete :: u64
  o_release :: u64
  o_use :: u64
  o_watch :: u64
  o_ignore :: u64
  o_bury :: u64
  o_kick :: u64
  o_touch :: u64
  o_stats :: u64
  o_stats_job :: u64
  o_stats_tube :: u64
  o_list_tubes :: u64
  o_list_tube_used :: u64
  o_list_tubes_watched :: u64
  o_pause_tube :: u64

definition zero_op_counters :: op_counters where
  "zero_op_counters =
     \<lparr>o_put = 0, o_peek = 0, o_peek_ready = 0, o_peek_delayed = 0, o_peek_buried = 0,
      o_reserve = 0, o_reserve_with_timeout = 0, o_delete = 0, o_release = 0, o_use = 0,
      o_watch = 0, o_ignore = 0, o_bury = 0, o_kick = 0, o_touch = 0, o_stats = 0,
      o_stats_job = 0, o_stats_tube = 0, o_list_tubes = 0, o_list_tube_used = 0,
      o_list_tubes_watched = 0, o_pause_tube = 0\<rparr>"

record engine =
  e_cfg :: engine_config
  e_sys :: sys_snapshot
  e_start :: nanos
  e_draining :: bool
  e_next_job_id :: job_id
  e_jobs :: "job_id \<rightharpoonup> job_rec"
  e_next_list_seq :: u64
  e_tubes :: "tube_state option list"
  e_free_tube_ids :: "tube_id list"
  e_tube_ids :: "tube_name \<rightharpoonup> tube_id"
  e_tube_order :: "tube_id ms"
  e_conns :: "conn_id \<rightharpoonup> conn_state"
  e_conn_ticks :: "(nanos \<times> conn_id) set"
  e_delay_heads :: "(nanos \<times> tube_id) set"
  e_pauses :: "(nanos \<times> tube_id) set"
  e_dispatchable :: "tube_id set"
  e_ready_ct :: u64
  e_urgent_ct :: u64
  e_reserved_ct :: u64
  e_buried_ct :: u64
  e_delayed_ct :: u64
  e_waiting_ct :: u64
  e_total_jobs_ct :: u64
  e_timeout_ct :: u64
  e_cur_conns :: u32
  e_tot_conns :: u32
  e_cur_producers :: u32
  e_cur_workers :: u32
  e_ops :: op_counters
  e_journal :: "journal_entry list"
  e_binlog :: binlog_stats
  e_local_conns :: "local_conns option"

end
