(* ===== verification/Engine_Core.thy ===== *)
theory Engine_Core
  imports Engine_Model
begin

text \<open>
  The private operations of \<open>crates/engine/src/engine.rs\<close> that keep the queues, the indexes
  and the counters: tube slab, journal, ready, delayed and buried sets, reservations, the
  waiting queues, and the two loops that hand out jobs (\<open>process_queue\<close>) and expire
  reservations (\<open>conn_timeout\<close>).

  An operation on \<open>&mut self\<close> takes the engine as its last argument and returns the new
  one. \<open>if let Some(t) = self.tube_mut(id)\<close> is \<open>tube_mut id f\<close>, and likewise \<open>job_mut\<close> and
  \<open>conn_mut\<close>. Operations that write replies work on the pair of engine and outbox.
  The result is an \<open>option\<close> where the source can panic on an index or loop.
\<close>

type_synonym eng_out = "engine \<times> outbox"

section \<open>Access to tubes, jobs and connections\<close>

definition tube :: "engine \<Rightarrow> tube_id \<Rightarrow> tube_state option" where
  "tube e tid = (case nth_opt (e_tubes e) tid of Some t \<Rightarrow> t | None \<Rightarrow> None)"

definition tube_mut :: "tube_id \<Rightarrow> (tube_state \<Rightarrow> tube_state) \<Rightarrow> engine \<Rightarrow> engine" where
  "tube_mut tid f e =
     (case tube e tid of
        Some t \<Rightarrow> e\<lparr>e_tubes := (e_tubes e)[tid := Some (f t)]\<rparr>
      | None \<Rightarrow> e)"

definition job_mut :: "job_id \<Rightarrow> (job_rec \<Rightarrow> job_rec) \<Rightarrow> engine \<Rightarrow> engine" where
  "job_mut jid f e =
     (case e_jobs e jid of
        Some j \<Rightarrow> e\<lparr>e_jobs := (e_jobs e)(jid \<mapsto> f j)\<rparr>
      | None \<Rightarrow> e)"

definition conn_mut :: "conn_id \<Rightarrow> (conn_state \<Rightarrow> conn_state) \<Rightarrow> engine \<Rightarrow> engine" where
  "conn_mut cid f e =
     (case e_conns e cid of
        Some c \<Rightarrow> e\<lparr>e_conns := (e_conns e)(cid \<mapsto> f c)\<rparr>
      | None \<Rightarrow> e)"

abbreviation stat_mut :: "(tube_stat \<Rightarrow> tube_stat) \<Rightarrow> tube_state \<Rightarrow> tube_state" where
  "stat_mut f t \<equiv> t\<lparr>t_stat := f (t_stat t)\<rparr>"

definition tube_name :: "engine \<Rightarrow> tube_id \<Rightarrow> tube_name" where
  "tube_name e tid = (case tube e tid of Some t \<Rightarrow> t_name t | None \<Rightarrow> default_tube)"

section \<open>Replies\<close>

definition wants_reply :: "engine \<Rightarrow> conn_id \<Rightarrow> bool" where
  "wants_reply e cid = (case e_local_conns e of None \<Rightarrow> True | Some l \<Rightarrow> owns l cid)"

text \<open>\<open>reply\<close> and \<open>reply_with\<close>, whose closure builds the same response lazily.\<close>

definition reply :: "conn_id \<Rightarrow> response \<Rightarrow> eng_out \<Rightarrow> eng_out" where
  "reply cid r s = (case s of (e, out) \<Rightarrow>
     if wants_reply e cid then (e, out @ [(cid, r)]) else (e, out))"

definition reply_with :: "conn_id \<Rightarrow> (engine \<Rightarrow> response) \<Rightarrow> eng_out \<Rightarrow> eng_out" where
  "reply_with cid build s = (case s of (e, out) \<Rightarrow>
     if wants_reply e cid then (e, out @ [(cid, build e)]) else (e, out))"

section \<open>Journal\<close>

definition job_record_of :: "job_rec \<Rightarrow> job_record" where
  "job_record_of j =
     (let (st, deadline) =
        (case j_state j of
           Delayed \<Rightarrow> (RecDelayed, j_deadline_at j)
         | Buried \<Rightarrow> (RecBuried, 0)
         | Ready \<Rightarrow> (RecReady, 0)
         | Reserved \<Rightarrow> (RecReady, 0))
      in \<lparr>r_id = j_id j, r_pri = j_pri j, r_delay = j_delay j, r_ttr = j_ttr j,
          r_created_at = j_created_at j, r_deadline_at = deadline, r_state = st,
          r_reserve_ct = j_reserve_ct j, r_timeout_ct = j_timeout_ct j,
          r_release_ct = j_release_ct j, r_bury_ct = j_bury_ct j, r_kick_ct = j_kick_ct j\<rparr>)"

definition journal_put :: "job_id \<Rightarrow> engine \<Rightarrow> engine" where
  "journal_put jid e =
     (if \<not> cfg_journal (e_cfg e) then e
      else case e_jobs e jid of
        None \<Rightarrow> e
      | Some j \<Rightarrow>
          e\<lparr>e_journal := e_journal e @
              [JPut (job_record_of j) (tube_name e (j_tube j)) (j_body j)]\<rparr>)"

definition journal_update :: "job_id \<Rightarrow> engine \<Rightarrow> engine" where
  "journal_update jid e =
     (if \<not> cfg_journal (e_cfg e) then e
      else case e_jobs e jid of
        None \<Rightarrow> e
      | Some j \<Rightarrow> e\<lparr>e_journal := e_journal e @ [JUpdate (job_record_of j)]\<rparr>)"

definition journal_delete :: "job_id \<Rightarrow> engine \<Rightarrow> engine" where
  "journal_delete jid e =
     (if cfg_journal (e_cfg e) then e\<lparr>e_journal := e_journal e @ [JDelete jid]\<rparr> else e)"

section \<open>The tube slab\<close>

text \<open>\<open>find_or_make_tube\<close>: \<open>self.tubes[id] = ...\<close> panics when the free list names a slot that
  does not exist.\<close>

definition find_or_make_tube :: "tube_name \<Rightarrow> engine \<Rightarrow> (tube_id \<times> engine) option" where
  "find_or_make_tube name e =
     (case e_tube_ids e name of
        Some tid \<Rightarrow> Some (tid, e)
      | None \<Rightarrow> do {
          let st = tube_state_new name (ms_len (e_tube_order e));
          (tid, e) \<leftarrow>
            (if e_free_tube_ids e = []
             then Some (length (e_tubes e), e\<lparr>e_tubes := e_tubes e @ [Some st]\<rparr>)
             else let tid = last (e_free_tube_ids e);
                      e = e\<lparr>e_free_tube_ids := butlast (e_free_tube_ids e)\<rparr>
                  in if tid < length (e_tubes e)
                     then Some (tid, e\<lparr>e_tubes := (e_tubes e)[tid := Some st]\<rparr>)
                     else None);
          Some (tid, e\<lparr>e_tube_ids := (e_tube_ids e)(name \<mapsto> tid),
                       e_tube_order := ms_append tid (e_tube_order e)\<rparr>)
        })"

definition gc_tube_if_orphan :: "tube_id \<Rightarrow> engine \<Rightarrow> engine option" where
  "gc_tube_if_orphan tid e =
     (if tid = DEFAULT_TUBE then Some e
      else case tube e tid of
        None \<Rightarrow> Some e
      | Some t \<Rightarrow>
          if tube_refs t \<noteq> 0 then Some e
          else do {
            let e = e\<lparr>e_tubes := (e_tubes e)[tid := None]\<rparr>;
            let e = e\<lparr>e_tube_ids := (e_tube_ids e)(t_name t := None)\<rparr>;
            let e = (if t_pause t > 0
                     then e\<lparr>e_pauses := e_pauses e - {(t_unpause_at t, tid)}\<rparr> else e);
            let e = (case t_delay_head t of
                       Some d \<Rightarrow> e\<lparr>e_delay_heads := e_delay_heads e - {(d, tid)}\<rparr>
                     | None \<Rightarrow> e);
            let e = (if t_dispatchable t
                     then e\<lparr>e_dispatchable := e_dispatchable e - {tid}\<rparr> else e);
            (_, order) \<leftarrow> ms_remove_at (t_pos t) (e_tube_order e);
            let e = e\<lparr>e_tube_order := order\<rparr>;
            let e = (case nth_opt (ms_items order) (t_pos t) of
                       Some moved \<Rightarrow> tube_mut moved (\<lambda>m. m\<lparr>t_pos := t_pos t\<rparr>) e
                     | None \<Rightarrow> e);
            Some (e\<lparr>e_free_tube_ids := e_free_tube_ids e @ [tid]\<rparr>)
          })"

section \<open>Indexes\<close>

definition refresh_dispatchable :: "tube_id \<Rightarrow> engine \<Rightarrow> engine" where
  "refresh_dispatchable tid e =
     (case tube e tid of
        None \<Rightarrow> e
      | Some t \<Rightarrow>
          let want = (\<not> ms_is_empty (t_waiting_conns t) \<and> t_ready t \<noteq> {}) in
          if want \<noteq> t_dispatchable t
          then let e = tube_mut tid (\<lambda>t. t\<lparr>t_dispatchable := want\<rparr>) e in
               if want then e\<lparr>e_dispatchable := insert tid (e_dispatchable e)\<rparr>
               else e\<lparr>e_dispatchable := e_dispatchable e - {tid}\<rparr>
          else e)"

definition refresh_delay_head :: "tube_id \<Rightarrow> engine \<Rightarrow> engine" where
  "refresh_delay_head tid e =
     (case tube e tid of
        None \<Rightarrow> e
      | Some t \<Rightarrow>
          let head = map_option fst (first_of (t_delayed t)) in
          if head \<noteq> t_delay_head t
          then let e = (case t_delay_head t of
                          Some old \<Rightarrow> e\<lparr>e_delay_heads := e_delay_heads e - {(old, tid)}\<rparr>
                        | None \<Rightarrow> e);
                   e = (case head of
                          Some new \<Rightarrow> e\<lparr>e_delay_heads := insert (new, tid) (e_delay_heads e)\<rparr>
                        | None \<Rightarrow> e)
               in tube_mut tid (\<lambda>t. t\<lparr>t_delay_head := head\<rparr>) e
          else e)"

definition refresh_conn_tick :: "conn_id \<Rightarrow> engine \<Rightarrow> engine" where
  "refresh_conn_tick cid e =
     (case e_conns e cid of
        None \<Rightarrow> e
      | Some c \<Rightarrow>
          let new = conn_tickat c in
          if new \<noteq> c_tick_key c
          then let e = (case c_tick_key c of
                          Some old \<Rightarrow> e\<lparr>e_conn_ticks := e_conn_ticks e - {(old, cid)}\<rparr>
                        | None \<Rightarrow> e);
                   e = (case new of
                          Some n \<Rightarrow> e\<lparr>e_conn_ticks := insert (n, cid) (e_conn_ticks e)\<rparr>
                        | None \<Rightarrow> e)
               in conn_mut cid (\<lambda>c. c\<lparr>c_tick_key := new\<rparr>) e
          else e)"

text \<open>\<open>clear_expired_pauses\<close>: pop the pauses in order until one is still in effect.\<close>

definition pause_expired :: "nanos \<Rightarrow> engine \<Rightarrow> bool" where
  "pause_expired now e =
     (case first_of (e_pauses e) of None \<Rightarrow> False | Some (at, _) \<Rightarrow> \<not> at > now)"

definition clear_first_pause :: "engine \<Rightarrow> engine" where
  "clear_first_pause e =
     (case first_of (e_pauses e) of
        None \<Rightarrow> e
      | Some (at, tid) \<Rightarrow>
          tube_mut tid (\<lambda>t. t\<lparr>t_pause := 0\<rparr>) (e\<lparr>e_pauses := e_pauses e - {(at, tid)}\<rparr>))"

definition clear_expired_pauses :: "nanos \<Rightarrow> engine \<Rightarrow> engine option" where
  "clear_expired_pauses now e =
     loop (pause_expired now) (\<lambda>e. Some (clear_first_pause e)) e"

section \<open>Ready, delayed and buried jobs\<close>

definition insert_ready :: "tube_id \<Rightarrow> job_id \<Rightarrow> engine \<Rightarrow> engine" where
  "insert_ready tid jid e =
     (case e_jobs e jid of
        None \<Rightarrow> e
      | Some j \<Rightarrow>
          let pri = j_pri j;
              urgent = (pri < URGENT_THRESHOLD);
              e = job_mut jid (\<lambda>j. j\<lparr>j_state := Ready, j_reserver := None\<rparr>) e;
              e = tube_mut tid (\<lambda>t.
                    let t = t\<lparr>t_ready := insert (pri, jid) (t_ready t)\<rparr> in
                    if urgent
                    then stat_mut (\<lambda>s. s\<lparr>s_urgent_ct := s_urgent_ct s + 1\<rparr>) t else t) e;
              e = e\<lparr>e_ready_ct := e_ready_ct e + 1\<rparr>;
              e = (if urgent then e\<lparr>e_urgent_ct := e_urgent_ct e + 1\<rparr> else e)
          in refresh_dispatchable tid e)"

definition remove_ready :: "tube_id \<Rightarrow> job_id \<Rightarrow> engine \<Rightarrow> engine" where
  "remove_ready tid jid e =
     (let pri = (case e_jobs e jid of Some j \<Rightarrow> j_pri j | None \<Rightarrow> 0);
          urgent = (pri < URGENT_THRESHOLD);
          e = tube_mut tid (\<lambda>t.
                let t = t\<lparr>t_ready := t_ready t - {(pri, jid)}\<rparr> in
                if urgent
                then stat_mut (\<lambda>s. s\<lparr>s_urgent_ct := sat_sub (s_urgent_ct s) 1\<rparr>) t else t) e;
          e = e\<lparr>e_ready_ct := sat_sub (e_ready_ct e) 1\<rparr>;
          e = (if urgent then e\<lparr>e_urgent_ct := sat_sub (e_urgent_ct e) 1\<rparr> else e)
      in refresh_dispatchable tid e)"

definition insert_delayed :: "tube_id \<Rightarrow> job_id \<Rightarrow> nanos \<Rightarrow> engine \<Rightarrow> engine" where
  "insert_delayed tid jid deadline e =
     (let e = job_mut jid
                (\<lambda>j. j\<lparr>j_state := Delayed, j_reserver := None, j_deadline_at := deadline\<rparr>) e;
          e = (case tube e tid of
                 None \<Rightarrow> e
               | Some t \<Rightarrow>
                   let new = ((deadline, jid) \<notin> t_delayed t);
                       e = tube_mut tid
                             (\<lambda>t. t\<lparr>t_delayed := insert (deadline, jid) (t_delayed t)\<rparr>) e
                   in if new then e\<lparr>e_delayed_ct := e_delayed_ct e + 1\<rparr> else e)
      in refresh_delay_head tid e)"

definition remove_delayed :: "tube_id \<Rightarrow> job_id \<Rightarrow> engine \<Rightarrow> engine" where
  "remove_delayed tid jid e =
     (let deadline = (case e_jobs e jid of Some j \<Rightarrow> j_deadline_at j | None \<Rightarrow> 0);
          e = (case tube e tid of
                 None \<Rightarrow> e
               | Some t \<Rightarrow>
                   let found = ((deadline, jid) \<in> t_delayed t);
                       e = tube_mut tid
                             (\<lambda>t. t\<lparr>t_delayed := t_delayed t - {(deadline, jid)}\<rparr>) e
                   in if found then e\<lparr>e_delayed_ct := sat_sub (e_delayed_ct e) 1\<rparr> else e)
      in refresh_delay_head tid e)"

definition insert_buried :: "tube_id \<Rightarrow> job_id \<Rightarrow> engine \<Rightarrow> engine" where
  "insert_buried tid jid e =
     (let seq = e_next_list_seq e;
          e = e\<lparr>e_next_list_seq := e_next_list_seq e + 1\<rparr>;
          e = job_mut jid (\<lambda>j. j\<lparr>j_state := Buried, j_reserver := None,
                                 j_bury_ct := j_bury_ct j + 1, j_list_seq := seq\<rparr>) e;
          e = tube_mut tid (\<lambda>t.
                stat_mut (\<lambda>s. s\<lparr>s_buried_ct := s_buried_ct s + 1\<rparr>)
                  (t\<lparr>t_buried := (t_buried t)(seq \<mapsto> jid)\<rparr>)) e
      in e\<lparr>e_buried_ct := e_buried_ct e + 1\<rparr>)"

definition remove_buried :: "tube_id \<Rightarrow> job_id \<Rightarrow> engine \<Rightarrow> bool \<times> engine" where
  "remove_buried tid jid e =
     (case (map_option j_list_seq (e_jobs e jid), tube e tid) of
        (Some seq, Some t) \<Rightarrow>
          if t_buried t seq = Some jid
          then let e = tube_mut tid (\<lambda>t.
                         stat_mut (\<lambda>s. s\<lparr>s_buried_ct := sat_sub (s_buried_ct s) 1\<rparr>)
                           (t\<lparr>t_buried := (t_buried t)(seq := None)\<rparr>)) e
               in (True, e\<lparr>e_buried_ct := sat_sub (e_buried_ct e) 1\<rparr>)
          else (False, e)
      | _ \<Rightarrow> (False, e))"

definition pop_buried_front :: "tube_id \<Rightarrow> engine \<Rightarrow> job_id option \<times> engine" where
  "pop_buried_front tid e =
     (case tube e tid of
        None \<Rightarrow> (None, e)
      | Some t \<Rightarrow>
          (case first_key_value (t_buried t) of
             None \<Rightarrow> (None, e)
           | Some (seq, jid) \<Rightarrow>
               let e = tube_mut tid (\<lambda>t.
                         stat_mut (\<lambda>s. s\<lparr>s_buried_ct := sat_sub (s_buried_ct s) 1\<rparr>)
                           (t\<lparr>t_buried := (t_buried t)(seq := None)\<rparr>)) e
               in (Some jid, e\<lparr>e_buried_ct := sat_sub (e_buried_ct e) 1\<rparr>)))"

section \<open>Reservations\<close>

definition do_reserve :: "conn_id \<Rightarrow> job_id \<Rightarrow> nanos \<Rightarrow> engine \<Rightarrow> engine" where
  "do_reserve cid jid now e =
     (case e_jobs e jid of
        None \<Rightarrow> e
      | Some j \<Rightarrow>
          let tid = j_tube j;
              deadline = sat_add now (secs (j_ttr j));
              seq = e_next_list_seq e;
              e = e\<lparr>e_next_list_seq := e_next_list_seq e + 1\<rparr>;
              e = job_mut jid (\<lambda>j. j\<lparr>j_state := Reserved, j_reserver := Some cid,
                                     j_deadline_at := deadline,
                                     j_reserve_ct := j_reserve_ct j + 1, j_list_seq := seq\<rparr>) e;
              e = conn_mut cid (\<lambda>c.
                    c\<lparr>c_reserved := (c_reserved c)(seq \<mapsto> jid),
                      c_reserved_by_deadline :=
                        insert (deadline, jid) (c_reserved_by_deadline c)\<rparr>) e;
              e = e\<lparr>e_reserved_ct := e_reserved_ct e + 1\<rparr>;
              e = tube_mut tid
                    (stat_mut (\<lambda>s. s\<lparr>s_reserved_ct := s_reserved_ct s + 1\<rparr>)) e
          in refresh_conn_tick cid e)"

definition do_unreserve :: "conn_id \<Rightarrow> job_id \<Rightarrow> engine \<Rightarrow> engine" where
  "do_unreserve cid jid e =
     (let (deadline, seq, tid) =
            (case e_jobs e jid of
               Some j \<Rightarrow> (j_deadline_at j, Some (j_list_seq j), Some (j_tube j))
             | None \<Rightarrow> (0, None, None));
          e = job_mut jid (\<lambda>j. j\<lparr>j_reserver := None\<rparr>) e;
          e = conn_mut cid (\<lambda>c.
                let c = (case seq of
                           Some sq \<Rightarrow>
                             if c_reserved c sq = Some jid
                             then c\<lparr>c_reserved := (c_reserved c)(sq := None)\<rparr> else c
                         | None \<Rightarrow> c)
                in c\<lparr>c_reserved_by_deadline := c_reserved_by_deadline c - {(deadline, jid)}\<rparr>) e;
          e = e\<lparr>e_reserved_ct := sat_sub (e_reserved_ct e) 1\<rparr>;
          e = (case tid of
                 Some tid \<Rightarrow>
                   tube_mut tid
                     (stat_mut (\<lambda>s. s\<lparr>s_reserved_ct := sat_sub (s_reserved_ct s) 1\<rparr>)) e
               | None \<Rightarrow> e)
      in refresh_conn_tick cid e)"

section \<open>Waiting connections\<close>

definition wait_in_tube :: "conn_id \<Rightarrow> tube_id \<Rightarrow> engine \<Rightarrow> engine" where
  "wait_in_tube cid tid e =
     refresh_dispatchable tid
       (tube_mut tid (\<lambda>t.
          (stat_mut (\<lambda>s. s\<lparr>s_waiting_ct := s_waiting_ct s + 1\<rparr>) t)
            \<lparr>t_waiting_conns := ms_append cid (t_waiting_conns t)\<rparr>) e)"

definition enqueue_waiting_conn :: "conn_id \<Rightarrow> nanos option \<Rightarrow> engine \<Rightarrow> engine" where
  "enqueue_waiting_conn cid wait_deadline e =
     (case e_conns e cid of
        None \<Rightarrow> e
      | Some c \<Rightarrow>
          let watched = c_watch c;
              e = conn_mut cid (\<lambda>c. c\<lparr>c_waiting := True, c_wait_deadline := wait_deadline,
                                      c_watch := ms_new\<rparr>) e;
              e = e\<lparr>e_waiting_ct := e_waiting_ct e + 1\<rparr>;
              e = fold (wait_in_tube cid) (ms_items watched) e;
              e = conn_mut cid (\<lambda>c. c\<lparr>c_watch := watched\<rparr>) e
          in refresh_conn_tick cid e)"

definition unwait_in_tube :: "conn_id \<Rightarrow> tube_id \<Rightarrow> engine \<Rightarrow> engine" where
  "unwait_in_tube cid tid e =
     refresh_dispatchable tid
       (tube_mut tid (\<lambda>t.
          (stat_mut (\<lambda>s. s\<lparr>s_waiting_ct := sat_sub (s_waiting_ct s) 1\<rparr>) t)
            \<lparr>t_waiting_conns := snd (ms_remove cid (t_waiting_conns t))\<rparr>) e)"

definition do_remove_waiting_conn :: "conn_id \<Rightarrow> engine \<Rightarrow> engine" where
  "do_remove_waiting_conn cid e =
     (case e_conns e cid of
        None \<Rightarrow> e
      | Some c \<Rightarrow>
          if \<not> c_waiting c then e
          else
            let watched = c_watch c;
                e = conn_mut cid (\<lambda>c. c\<lparr>c_waiting := False, c_wait_deadline := None,
                                        c_watch := ms_new\<rparr>) e;
                e = e\<lparr>e_waiting_ct := sat_sub (e_waiting_ct e) 1\<rparr>;
                e = fold (unwait_in_tube cid) (ms_items watched) e;
                e = conn_mut cid (\<lambda>c. c\<lparr>c_watch := watched\<rparr>) e
            in refresh_conn_tick cid e)"

section \<open>Dispatch\<close>

definition reserved_reply :: "job_id \<Rightarrow> engine \<Rightarrow> response" where
  "reserved_reply jid e =
     RReserved jid (case e_jobs e jid of Some j \<Rightarrow> j_body j | None \<Rightarrow> [])"

text \<open>One round of the search in \<open>process_queue\<close>: the smallest \<open>(pri, id)\<close> over the
  dispatchable tubes that are not paused.\<close>

definition better :: "engine \<Rightarrow> tube_id \<Rightarrow> (u32 \<times> job_id \<times> tube_id) option \<Rightarrow>
    (u32 \<times> job_id \<times> tube_id) option" where
  "better e tid best =
     (case tube e tid of
        None \<Rightarrow> best
      | Some t \<Rightarrow>
          if t_pause t > 0 then best
          else case first_of (t_ready t) of
            None \<Rightarrow> best
          | Some (pri, jid) \<Rightarrow>
              (case best of
                 None \<Rightarrow> Some (pri, jid, tid)
               | Some (bp, bid, _) \<Rightarrow>
                   if (pri, jid) < (bp, bid) then Some (pri, jid, tid) else best))"

definition best_job :: "engine \<Rightarrow> (u32 \<times> job_id \<times> tube_id) option" where
  "best_job e = fold (better e) (sorted_list_of_set (e_dispatchable e)) None"

definition take_waiter :: "tube_id \<Rightarrow> engine \<Rightarrow> conn_id option \<times> engine" where
  "take_waiter tid e =
     (case tube e tid of
        None \<Rightarrow> (None, e)
      | Some t \<Rightarrow>
          (case ms_take (t_waiting_conns t) of
             (taken, w) \<Rightarrow> (taken, tube_mut tid (\<lambda>t. t\<lparr>t_waiting_conns := w\<rparr>) e)))"

definition process_queue_step :: "nanos \<Rightarrow> eng_out \<Rightarrow> eng_out" where
  "process_queue_step now s =
     (case s of (e, out) \<Rightarrow>
        (case best_job e of
           None \<Rightarrow> (e, out)
         | Some (_, jid, tid) \<Rightarrow>
             let e = remove_ready tid jid e;
                 (taken, e) = take_waiter tid e;
                 e = refresh_dispatchable tid e
             in case taken of
                  None \<Rightarrow> (e, out)
                | Some cid \<Rightarrow>
                    let e = do_remove_waiting_conn cid e;
                        e = do_reserve cid jid now e
                    in reply_with cid (reserved_reply jid) (e, out)))"

definition process_queue :: "nanos \<Rightarrow> eng_out \<Rightarrow> eng_out option" where
  "process_queue now s =
     (case s of (e, out) \<Rightarrow> do {
        e \<leftarrow> clear_expired_pauses now e;
        loop (\<lambda>(e, out). best_job e \<noteq> None) (\<lambda>s. Some (process_queue_step now s)) (e, out)
      })"

section \<open>Deadlines\<close>

definition soonest_delayed_job :: "engine \<Rightarrow> (nanos \<times> tube_id \<times> job_id) option" where
  "soonest_delayed_job e =
     (case first_of (e_delay_heads e) of
        None \<Rightarrow> None
      | Some (deadline, _) \<Rightarrow>
          let heads = sorted_list_of_set {p \<in> e_delay_heads e. fst p = deadline};
              best = fold (\<lambda>(_, tid) best.
                       (case tube e tid of
                          None \<Rightarrow> best
                        | Some t \<Rightarrow>
                            (case best of
                               None \<Rightarrow> Some (t_pos t, tid)
                             | Some (pos, _) \<Rightarrow>
                                 if t_pos t < pos then Some (t_pos t, tid) else best)))
                     heads None
          in case best of
               None \<Rightarrow> None
             | Some (_, tid) \<Rightarrow>
                 (case tube e tid of
                    None \<Rightarrow> None
                  | Some t \<Rightarrow>
                      (case first_of (t_delayed t) of
                         None \<Rightarrow> None
                       | Some (d, jid) \<Rightarrow> Some (d, tid, jid))))"

definition conn_deadline_soon :: "conn_id \<Rightarrow> nanos \<Rightarrow> engine \<Rightarrow> bool" where
  "conn_deadline_soon cid now e =
     (case e_conns e cid of
        None \<Rightarrow> False
      | Some c \<Rightarrow>
          (case soonest_reserved c of
             Some (deadline, _) \<Rightarrow> now \<ge> sat_sub deadline SAFETY_MARGIN
           | None \<Rightarrow> False))"

definition conn_ready :: "conn_id \<Rightarrow> engine \<Rightarrow> bool" where
  "conn_ready cid e =
     (case e_conns e cid of
        None \<Rightarrow> False
      | Some c \<Rightarrow>
          list_ex (\<lambda>t. case tube e t of Some ts \<Rightarrow> t_ready ts \<noteq> {} | None \<Rightarrow> False)
            (ms_items (c_watch c)))"

definition conn_is_waiting :: "conn_id \<Rightarrow> engine \<Rightarrow> bool" where
  "conn_is_waiting cid e = (case e_conns e cid of Some c \<Rightarrow> c_waiting c | None \<Rightarrow> False)"

text \<open>\<open>conn_timeout\<close>: first give back every expired reservation, then answer a connection
  that is still waiting.\<close>

definition reservation_expired :: "conn_id \<Rightarrow> nanos \<Rightarrow> engine \<Rightarrow> bool" where
  "reservation_expired cid now e =
     (case e_conns e cid of
        None \<Rightarrow> False
      | Some c \<Rightarrow>
          (case soonest_reserved c of None \<Rightarrow> False | Some (deadline, _) \<Rightarrow> \<not> deadline \<ge> now))"

definition expire_reservation :: "conn_id \<Rightarrow> nanos \<Rightarrow> eng_out \<Rightarrow> eng_out option" where
  "expire_reservation cid now s =
     (case s of (e, out) \<Rightarrow>
        (case e_conns e cid \<bind> soonest_reserved of
           None \<Rightarrow> Some s
         | Some (_, jid) \<Rightarrow>
             let tid = map_option j_tube (e_jobs e jid);
                 e = do_unreserve cid jid e;
                 e = e\<lparr>e_timeout_ct := e_timeout_ct e + 1\<rparr>;
                 e = job_mut jid (\<lambda>j. j\<lparr>j_timeout_ct := j_timeout_ct j + 1\<rparr>) e;
                 e = (case tid of Some tid \<Rightarrow> insert_ready tid jid e | None \<Rightarrow> e)
             in process_queue now (e, out)))"

definition conn_timeout :: "conn_id \<Rightarrow> nanos \<Rightarrow> eng_out \<Rightarrow> eng_out option" where
  "conn_timeout cid now s = do {
     (e, out) \<leftarrow> loop (\<lambda>(e, out). reservation_expired cid now e) (expire_reservation cid now) s;
     let waiting = conn_is_waiting cid e;
     Some (if waiting \<and> conn_deadline_soon cid now e
           then reply cid RDeadlineSoon (do_remove_waiting_conn cid e, out)
           else if waiting then
             let expired = (case e_conns e cid \<bind> c_wait_deadline of
                              Some wd \<Rightarrow> wd \<le> now | None \<Rightarrow> False)
             in if expired
                then reply cid RTimedOut (do_remove_waiting_conn cid e, out)
                else (e, out)
           else (e, out))
   }"

section \<open>Producers, workers, kicks\<close>

definition connsetproducer :: "conn_id \<Rightarrow> engine \<Rightarrow> engine" where
  "connsetproducer cid e =
     (case e_conns e cid of
        Some c \<Rightarrow>
          if \<not> c_is_producer c
          then (conn_mut cid (\<lambda>c. c\<lparr>c_is_producer := True\<rparr>) e)
                 \<lparr>e_cur_producers := e_cur_producers e + 1\<rparr>
          else e
      | None \<Rightarrow> e)"

definition connsetworker :: "conn_id \<Rightarrow> engine \<Rightarrow> engine" where
  "connsetworker cid e =
     (case e_conns e cid of
        Some c \<Rightarrow>
          if \<not> c_is_worker c
          then (conn_mut cid (\<lambda>c. c\<lparr>c_is_worker := True\<rparr>) e)
                 \<lparr>e_cur_workers := e_cur_workers e + 1\<rparr>
          else e
      | None \<Rightarrow> e)"

definition kick_to_ready :: "tube_id \<Rightarrow> job_id \<Rightarrow> nanos \<Rightarrow> eng_out \<Rightarrow> eng_out option" where
  "kick_to_ready tid jid now s =
     (case s of (e, out) \<Rightarrow>
        let e = job_mut jid (\<lambda>j. j\<lparr>j_kick_ct := j_kick_ct j + 1\<rparr>) e;
            e = insert_ready tid jid e;
            e = journal_update jid e
        in process_queue now (e, out))"

definition use_tube_of :: "conn_id \<Rightarrow> engine \<Rightarrow> tube_id" where
  "use_tube_of cid e = (case e_conns e cid of Some c \<Rightarrow> c_use_tube c | None \<Rightarrow> DEFAULT_TUBE)"

definition peek_used_tube :: "conn_id \<Rightarrow> (tube_state \<Rightarrow> job_id option) \<Rightarrow> engine \<Rightarrow> response" where
  "peek_used_tube cid pick e =
     (case tube e (use_tube_of cid e) \<bind> pick of
        Some jid \<Rightarrow> RFound jid (case e_jobs e jid of Some j \<Rightarrow> j_body j | None \<Rightarrow> [])
      | None \<Rightarrow> RNotFound)"

end
