(* ===== verification/Engine_Cmds.thy ===== *)
theory Engine_Cmds
  imports Engine_Core
begin

text \<open>
  The command handlers of \<open>crates/engine/src/engine.rs\<close> (\<open>cmd_*\<close>), with the statistics they
  report (\<open>build_stats_*\<close>). Each handler counts its command, performs it and appends its
  reply; the early returns of the source are the branches here.
\<close>

section \<open>Statistics\<close>

definition tube_names :: "engine \<Rightarrow> tube_name list" where
  "tube_names e = map (tube_name e) (ms_items (e_tube_order e))"

definition watched_tube_names :: "conn_id \<Rightarrow> engine \<Rightarrow> tube_name list" where
  "watched_tube_names cid e =
     (case e_conns e cid of
        Some c \<Rightarrow> map (tube_name e) (ms_items (c_watch c))
      | None \<Rightarrow> [])"

text \<open>Rust's \<open>i128\<close> division truncates towards zero.\<close>

definition trunc_div :: "int \<Rightarrow> int \<Rightarrow> int" where
  "trunc_div a b = sgn a * sgn b * (\<bar>a\<bar> div \<bar>b\<bar>)"

definition build_stats_job :: "job_id \<Rightarrow> nanos \<Rightarrow> engine \<Rightarrow> stats_job option" where
  "build_stats_job jid now e =
     (case e_jobs e jid of
        None \<Rightarrow> None
      | Some j \<Rightarrow>
          let per_sec = uint NANOS_PER_SEC;
              time_left =
                (if j_state j = Reserved \<or> j_state j = Delayed
                 then word_of_int
                        (max (trunc_div (uint (j_deadline_at j) - uint now) per_sec) 0)
                 else 0);
              age = word_of_int (max (trunc_div (uint now - uint (j_created_at j)) per_sec) 0)
          in Some \<lparr>sj_id = j_id j, sj_tube = tube_name e (j_tube j),
                   sj_state = state_name (j_state j), sj_pri = j_pri j, sj_age = age,
                   sj_delay = u64_of_u32 (j_delay j), sj_ttr = u64_of_u32 (j_ttr j),
                   sj_time_left = time_left, sj_file = j_file j,
                   sj_reserves = u64_of_u32 (j_reserve_ct j),
                   sj_timeouts = u64_of_u32 (j_timeout_ct j),
                   sj_releases = u64_of_u32 (j_release_ct j),
                   sj_buries = u64_of_u32 (j_bury_ct j),
                   sj_kicks = u64_of_u32 (j_kick_ct j)\<rparr>)"

definition stats_tube_of :: "tube_state \<Rightarrow> nanos \<Rightarrow> stats_tube" where
  "stats_tube_of t now =
     \<lparr>st_name = t_name t,
      st_current_jobs_urgent = s_urgent_ct (t_stat t),
      st_current_jobs_ready = of_nat (card (t_ready t)),
      st_current_jobs_reserved = s_reserved_ct (t_stat t),
      st_current_jobs_delayed = of_nat (card (t_delayed t)),
      st_current_jobs_buried = s_buried_ct (t_stat t),
      st_total_jobs = s_total_jobs_ct (t_stat t),
      st_current_using = u64_of_u32 (t_using_ct t),
      st_current_watching = u64_of_u32 (t_watching_ct t),
      st_current_waiting = s_waiting_ct (t_stat t),
      st_cmd_delete = s_total_delete_ct (t_stat t),
      st_cmd_pause_tube = s_pause_ct (t_stat t),
      st_pause = t_pause t div NANOS_PER_SEC,
      st_pause_time_left =
        (if t_pause t > 0 then sat_sub (t_unpause_at t) now div NANOS_PER_SEC else 0)\<rparr>"

definition build_stats_tube :: "tube_name \<Rightarrow> nanos \<Rightarrow> engine \<Rightarrow> stats_tube option" where
  "build_stats_tube name now e =
     (case e_tube_ids e name \<bind> tube e of
        None \<Rightarrow> None
      | Some t \<Rightarrow> Some (stats_tube_of t now))"

definition build_stats_server :: "nanos \<Rightarrow> engine \<Rightarrow> stats_server" where
  "build_stats_server now e =
     (let snap = e_sys e; ops = e_ops e in
      \<lparr>sv_current_jobs_urgent = e_urgent_ct e,
       sv_current_jobs_ready = e_ready_ct e,
       sv_current_jobs_reserved = e_reserved_ct e,
       sv_current_jobs_delayed = e_delayed_ct e,
       sv_current_jobs_buried = e_buried_ct e,
       sv_cmd_put = o_put ops,
       sv_cmd_peek = o_peek ops,
       sv_cmd_peek_ready = o_peek_ready ops,
       sv_cmd_peek_delayed = o_peek_delayed ops,
       sv_cmd_peek_buried = o_peek_buried ops,
       sv_cmd_reserve = o_reserve ops,
       sv_cmd_reserve_with_timeout = o_reserve_with_timeout ops,
       sv_cmd_delete = o_delete ops,
       sv_cmd_release = o_release ops,
       sv_cmd_use = o_use ops,
       sv_cmd_watch = o_watch ops,
       sv_cmd_ignore = o_ignore ops,
       sv_cmd_bury = o_bury ops,
       sv_cmd_kick = o_kick ops,
       sv_cmd_touch = o_touch ops,
       sv_cmd_stats = o_stats ops,
       sv_cmd_stats_job = o_stats_job ops,
       sv_cmd_stats_tube = o_stats_tube ops,
       sv_cmd_list_tubes = o_list_tubes ops,
       sv_cmd_list_tube_used = o_list_tube_used ops,
       sv_cmd_list_tubes_watched = o_list_tubes_watched ops,
       sv_cmd_pause_tube = o_pause_tube ops,
       sv_job_timeouts = e_timeout_ct e,
       sv_total_jobs = e_total_jobs_ct e,
       sv_max_job_size = u64_of_u32 (cfg_max_job_size (e_cfg e)),
       sv_current_tubes = of_nat (ms_len (e_tube_order e)),
       sv_current_connections = u64_of_u32 (e_cur_conns e),
       sv_current_producers = u64_of_u32 (e_cur_producers e),
       sv_current_workers = u64_of_u32 (e_cur_workers e),
       sv_current_waiting = e_waiting_ct e,
       sv_total_connections = u64_of_u32 (e_tot_conns e),
       sv_pid = ss_pid snap,
       sv_version = ss_version snap,
       sv_rusage_utime = ss_rusage_utime snap,
       sv_rusage_stime = ss_rusage_stime snap,
       sv_uptime = sat_sub now (e_start e) div NANOS_PER_SEC,
       sv_binlog_oldest_index = bl_oldest_index (e_binlog e),
       sv_binlog_current_index = bl_current_index (e_binlog e),
       sv_binlog_records_migrated = bl_records_migrated (e_binlog e),
       sv_binlog_records_written = bl_records_written (e_binlog e),
       sv_binlog_max_size = cfg_binlog_max_size (e_cfg e),
       sv_draining = e_draining e,
       sv_id = ss_id snap,
       sv_hostname = ss_hostname snap,
       sv_os = ss_os snap,
       sv_platform = ss_platform snap\<rparr>)"

section \<open>Put\<close>

abbreviation count_op :: "(op_counters \<Rightarrow> op_counters) \<Rightarrow> engine \<Rightarrow> engine" where
  "count_op f e \<equiv> e\<lparr>e_ops := f (e_ops e)\<rparr>"

text \<open>The id of the job being put: the one \<open>put_started\<close> allocated, or a new one with the
  header-time side effects.\<close>

definition take_pending_put :: "nanos \<Rightarrow> conn_id \<Rightarrow> engine \<Rightarrow> (job_id \<times> nanos) \<times> engine" where
  "take_pending_put now cid e =
     (let pending = e_conns e cid \<bind> c_pending_put;
          e = conn_mut cid (\<lambda>c. c\<lparr>c_pending_put := None\<rparr>) e;
          fresh = (let e = count_op (\<lambda>c. c\<lparr>o_put := o_put c + 1\<rparr>) e;
                       e = connsetproducer cid e;
                       jid = e_next_job_id e;
                       e = e\<lparr>e_next_job_id := e_next_job_id e + 1\<rparr>
                   in ((jid, now), e))
      in case pending of
           Some p \<Rightarrow> (case pp_id p of Some jid \<Rightarrow> ((jid, pp_created_at p), e) | None \<Rightarrow> fresh)
         | None \<Rightarrow> fresh)"

definition cmd_put ::
  "nanos \<Rightarrow> conn_id \<Rightarrow> u32 \<Rightarrow> u32 \<Rightarrow> u32 \<Rightarrow> string \<Rightarrow> eng_out \<Rightarrow> eng_out option" where
  "cmd_put now cid pri delay ttr body s =
     (case s of (e, out) \<Rightarrow>
        let ttr = max ttr 1;
            ((jid, created_at), e) = take_pending_put now cid e
        in if e_draining e then Some (reply cid RDraining (e, out))
           else do {
             let tid = use_tube_of cid e;
             let job = \<lparr>j_id = jid, j_tube = tid, j_pri = pri, j_delay = delay, j_ttr = ttr,
                        j_body = body, j_created_at = created_at, j_deadline_at = 0,
                        j_state = Ready, j_reserver = None, j_list_seq = 0,
                        j_reserve_ct = 0, j_timeout_ct = 0, j_release_ct = 0, j_bury_ct = 0,
                        j_kick_ct = 0,
                        j_file = (if cfg_journal (e_cfg e)
                                  then bl_current_index (e_binlog e) else 0)\<rparr>;
             let e = e\<lparr>e_jobs := (e_jobs e)(jid \<mapsto> job)\<rparr>;
             let e = tube_mut tid (\<lambda>t. t\<lparr>t_job_ref_ct := t_job_ref_ct t + 1\<rparr>) e;
             let e = (if delay > 0
                      then insert_delayed tid jid (sat_add now (secs delay)) e
                      else insert_ready tid jid e);
             let e = journal_put jid e;
             (e, out) \<leftarrow> process_queue now (e, out);
             let e = e\<lparr>e_total_jobs_ct := e_total_jobs_ct e + 1\<rparr>;
             let e = tube_mut tid
                       (stat_mut (\<lambda>s. s\<lparr>s_total_jobs_ct := s_total_jobs_ct s + 1\<rparr>)) e;
             Some (reply cid (RInserted jid) (e, out))
           })"

section \<open>Use, watch, ignore\<close>

definition cmd_use :: "conn_id \<Rightarrow> tube_name \<Rightarrow> eng_out \<Rightarrow> eng_out option" where
  "cmd_use cid name s =
     (case s of (e, out) \<Rightarrow> do {
        let e = count_op (\<lambda>c. c\<lparr>o_use := o_use c + 1\<rparr>) e;
        (new, e) \<leftarrow> find_or_make_tube name e;
        let old = use_tube_of cid e;
        e \<leftarrow> (if old \<noteq> new then do {
                let e = tube_mut old (\<lambda>t. t\<lparr>t_using_ct := sat_sub (t_using_ct t) 1\<rparr>) e;
                e \<leftarrow> gc_tube_if_orphan old e;
                let e = tube_mut new (\<lambda>t. t\<lparr>t_using_ct := t_using_ct t + 1\<rparr>) e;
                Some (conn_mut cid (\<lambda>c. c\<lparr>c_use_tube := new\<rparr>) e)
              } else Some e);
        Some (reply cid (RUsing name) (e, out))
      })"

definition watch_count :: "conn_id \<Rightarrow> engine \<Rightarrow> nat" where
  "watch_count cid e = (case e_conns e cid of Some c \<Rightarrow> ms_len (c_watch c) | None \<Rightarrow> 0)"

definition cmd_watch :: "conn_id \<Rightarrow> tube_name \<Rightarrow> eng_out \<Rightarrow> eng_out option" where
  "cmd_watch cid name s =
     (case s of (e, out) \<Rightarrow> do {
        let e = count_op (\<lambda>c. c\<lparr>o_watch := o_watch c + 1\<rparr>) e;
        (tid, e) \<leftarrow> find_or_make_tube name e;
        let already = (case e_conns e cid of
                         Some c \<Rightarrow> ms_contains tid (c_watch c) | None \<Rightarrow> True);
        let e = (if \<not> already
                 then tube_mut tid (\<lambda>t. t\<lparr>t_watching_ct := t_watching_ct t + 1\<rparr>)
                        (conn_mut cid (\<lambda>c. c\<lparr>c_watch := ms_append tid (c_watch c)\<rparr>) e)
                 else e);
        Some (reply cid (RWatching (of_nat (watch_count cid e))) (e, out))
      })"

definition cmd_ignore :: "conn_id \<Rightarrow> tube_name \<Rightarrow> eng_out \<Rightarrow> eng_out option" where
  "cmd_ignore cid name s =
     (case s of (e, out) \<Rightarrow> do {
        let e = count_op (\<lambda>c. c\<lparr>o_ignore := o_ignore c + 1\<rparr>) e;
        let tid = e_tube_ids e name;
        let watching_it = (case (tid, e_conns e cid) of
                             (Some tid, Some c) \<Rightarrow> ms_contains tid (c_watch c) | _ \<Rightarrow> False);
        if watching_it \<and> watch_count cid e < 2
        then Some (reply cid RNotIgnored (e, out))
        else do {
          e \<leftarrow> (case (watching_it, tid) of
                  (True, Some tid) \<Rightarrow>
                    let e = conn_mut cid (\<lambda>c. c\<lparr>c_watch := snd (ms_remove tid (c_watch c))\<rparr>) e;
                        e = tube_mut tid
                              (\<lambda>t. t\<lparr>t_watching_ct := sat_sub (t_watching_ct t) 1\<rparr>) e
                    in gc_tube_if_orphan tid e
                | _ \<Rightarrow> Some e);
          Some (reply cid (RWatching (of_nat (watch_count cid e))) (e, out))
        }
      })"

section \<open>Reserve\<close>

definition cmd_reserve :: "nanos \<Rightarrow> conn_id \<Rightarrow> u32 option \<Rightarrow> eng_out \<Rightarrow> eng_out option" where
  "cmd_reserve now cid timeout s =
     (case s of (e, out) \<Rightarrow>
        let e = (case timeout of
                   None \<Rightarrow> count_op (\<lambda>c. c\<lparr>o_reserve := o_reserve c + 1\<rparr>) e
                 | Some _ \<Rightarrow>
                     count_op (\<lambda>c. c\<lparr>o_reserve_with_timeout := o_reserve_with_timeout c + 1\<rparr>) e);
            e = connsetworker cid e
        in if conn_deadline_soon cid now e \<and> \<not> conn_ready cid e
           then Some (reply cid RDeadlineSoon (e, out))
           else do {
             let wait_deadline = map_option (\<lambda>t. sat_add now (secs t)) timeout;
             let timeout_is_zero = (timeout = Some 0);
             let e = enqueue_waiting_conn cid wait_deadline e;
             (e, out) \<leftarrow> process_queue now (e, out);
             let still_waiting = conn_is_waiting cid e;
             Some (if timeout_is_zero \<and> still_waiting
                   then let soon = conn_deadline_soon cid now e;
                            e = do_remove_waiting_conn cid e
                        in reply cid (if soon then RDeadlineSoon else RTimedOut) (e, out)
                   else (e, out))
           })"

definition remove_from_queue :: "job_state \<Rightarrow> tube_id \<Rightarrow> job_id \<Rightarrow> engine \<Rightarrow> engine" where
  "remove_from_queue st tid jid e =
     (if st = Ready then remove_ready tid jid e
      else if st = Buried then snd (remove_buried tid jid e)
      else remove_delayed tid jid e)"

definition cmd_reserve_job :: "nanos \<Rightarrow> conn_id \<Rightarrow> job_id \<Rightarrow> eng_out \<Rightarrow> eng_out" where
  "cmd_reserve_job now cid jid s =
     (case s of (e, out) \<Rightarrow>
        (case e_jobs e jid of
           None \<Rightarrow> reply cid RNotFound (e, out)
         | Some j \<Rightarrow>
             if j_state j = Reserved then reply cid RNotFound (e, out)
             else let e = remove_from_queue (j_state j) (j_tube j) jid e;
                      e = connsetworker cid e;
                      e = do_reserve cid jid now e
                  in reply_with cid (reserved_reply jid) (e, out)))"

section \<open>Delete, release, bury, touch\<close>

definition cmd_delete :: "conn_id \<Rightarrow> job_id \<Rightarrow> eng_out \<Rightarrow> eng_out option" where
  "cmd_delete cid jid s =
     (case s of (e, out) \<Rightarrow>
        let e = count_op (\<lambda>c. c\<lparr>o_delete := o_delete c + 1\<rparr>) e in
        (case e_jobs e jid of
           None \<Rightarrow> Some (reply cid RNotFound (e, out))
         | Some j \<Rightarrow>
             let tid = j_tube j;
                 (ok, e) =
                   (case j_state j of
                      Reserved \<Rightarrow>
                        if j_reserver j = Some cid then (True, do_unreserve cid jid e)
                        else (False, e)
                    | Ready \<Rightarrow> (True, remove_ready tid jid e)
                    | Buried \<Rightarrow> (True, snd (remove_buried tid jid e))
                    | Delayed \<Rightarrow> (True, remove_delayed tid jid e))
             in if \<not> ok then Some (reply cid RNotFound (e, out))
                else do {
                  let e = tube_mut tid (\<lambda>t.
                            (stat_mut (\<lambda>s. s\<lparr>s_total_delete_ct := s_total_delete_ct s + 1\<rparr>) t)
                              \<lparr>t_job_ref_ct := sat_sub (t_job_ref_ct t) 1\<rparr>) e;
                  let e = e\<lparr>e_jobs := (e_jobs e)(jid := None)\<rparr>;
                  let e = journal_delete jid e;
                  e \<leftarrow> gc_tube_if_orphan tid e;
                  Some (reply cid RDeleted (e, out))
                }))"

definition reserved_by :: "conn_id \<Rightarrow> job_id \<Rightarrow> engine \<Rightarrow> tube_id option" where
  "reserved_by cid jid e =
     (case e_jobs e jid of
        None \<Rightarrow> None
      | Some j \<Rightarrow>
          if j_reserver j = Some cid \<and> j_state j = Reserved then Some (j_tube j) else None)"

definition cmd_release ::
  "nanos \<Rightarrow> conn_id \<Rightarrow> job_id \<Rightarrow> u32 \<Rightarrow> u32 \<Rightarrow> eng_out \<Rightarrow> eng_out option" where
  "cmd_release now cid jid pri delay s =
     (case s of (e, out) \<Rightarrow>
        let e = count_op (\<lambda>c. c\<lparr>o_release := o_release c + 1\<rparr>) e in
        (case reserved_by cid jid e of
           None \<Rightarrow> Some (reply cid RNotFound (e, out))
         | Some tid \<Rightarrow> do {
             let e = do_unreserve cid jid e;
             let e = job_mut jid (\<lambda>j. j\<lparr>j_pri := pri, j_delay := delay,
                                        j_release_ct := j_release_ct j + 1\<rparr>) e;
             let e = (if delay > 0
                      then journal_update jid
                             (insert_delayed tid jid (sat_add now (secs delay)) e)
                      else insert_ready tid jid e);
             (e, out) \<leftarrow> process_queue now (e, out);
             Some (reply cid RReleased (e, out))
           }))"

definition cmd_bury :: "conn_id \<Rightarrow> job_id \<Rightarrow> u32 \<Rightarrow> eng_out \<Rightarrow> eng_out" where
  "cmd_bury cid jid pri s =
     (case s of (e, out) \<Rightarrow>
        let e = count_op (\<lambda>c. c\<lparr>o_bury := o_bury c + 1\<rparr>) e in
        (case reserved_by cid jid e of
           None \<Rightarrow> reply cid RNotFound (e, out)
         | Some tid \<Rightarrow>
             let e = do_unreserve cid jid e;
                 e = job_mut jid (\<lambda>j. j\<lparr>j_pri := pri\<rparr>) e;
                 e = insert_buried tid jid e;
                 e = journal_update jid e
             in reply cid RBuried (e, out)))"

definition cmd_touch :: "nanos \<Rightarrow> conn_id \<Rightarrow> job_id \<Rightarrow> eng_out \<Rightarrow> eng_out" where
  "cmd_touch now cid jid s =
     (case s of (e, out) \<Rightarrow>
        let e = count_op (\<lambda>c. c\<lparr>o_touch := o_touch c + 1\<rparr>) e in
        if reserved_by cid jid e = None then reply cid RNotFound (e, out)
        else
          let ttr = (case e_jobs e jid of Some j \<Rightarrow> j_ttr j | None \<Rightarrow> 1);
              old_deadline = (case e_jobs e jid of Some j \<Rightarrow> j_deadline_at j | None \<Rightarrow> 0);
              new_deadline = sat_add now (secs ttr);
              e = job_mut jid (\<lambda>j. j\<lparr>j_deadline_at := new_deadline\<rparr>) e;
              e = conn_mut cid (\<lambda>c.
                    c\<lparr>c_reserved_by_deadline :=
                        insert (new_deadline, jid)
                          (c_reserved_by_deadline c - {(old_deadline, jid)})\<rparr>) e;
              e = refresh_conn_tick cid e
          in reply cid RTouched (e, out))"

section \<open>Peek\<close>

definition cmd_peek :: "conn_id \<Rightarrow> job_id \<Rightarrow> eng_out \<Rightarrow> eng_out" where
  "cmd_peek cid jid s =
     (case s of (e, out) \<Rightarrow>
        reply_with cid
          (\<lambda>e. case e_jobs e jid of Some j \<Rightarrow> RFound jid (j_body j) | None \<Rightarrow> RNotFound)
          (count_op (\<lambda>c. c\<lparr>o_peek := o_peek c + 1\<rparr>) e, out))"

definition cmd_peek_ready :: "conn_id \<Rightarrow> eng_out \<Rightarrow> eng_out" where
  "cmd_peek_ready cid s =
     (case s of (e, out) \<Rightarrow>
        reply_with cid (peek_used_tube cid (\<lambda>t. map_option snd (first_of (t_ready t))))
          (count_op (\<lambda>c. c\<lparr>o_peek_ready := o_peek_ready c + 1\<rparr>) e, out))"

definition cmd_peek_delayed :: "conn_id \<Rightarrow> eng_out \<Rightarrow> eng_out" where
  "cmd_peek_delayed cid s =
     (case s of (e, out) \<Rightarrow>
        reply_with cid (peek_used_tube cid (\<lambda>t. map_option snd (first_of (t_delayed t))))
          (count_op (\<lambda>c. c\<lparr>o_peek_delayed := o_peek_delayed c + 1\<rparr>) e, out))"

definition cmd_peek_buried :: "conn_id \<Rightarrow> eng_out \<Rightarrow> eng_out" where
  "cmd_peek_buried cid s =
     (case s of (e, out) \<Rightarrow>
        reply_with cid (peek_used_tube cid (\<lambda>t. map_option snd (first_key_value (t_buried t))))
          (count_op (\<lambda>c. c\<lparr>o_peek_buried := o_peek_buried c + 1\<rparr>) e, out))"

section \<open>Kick\<close>

text \<open>The two \<open>for _ in 0..n\<close> loops, with their \<open>break\<close>; the counter is the reply's \<open>u64\<close>.\<close>

fun kick_buried_loop ::
  "nat \<Rightarrow> tube_id \<Rightarrow> nanos \<Rightarrow> u64 \<Rightarrow> eng_out \<Rightarrow> (u64 \<times> eng_out) option" where
  "kick_buried_loop 0 tid now kicked s = Some (kicked, s)"
| "kick_buried_loop (Suc n) tid now kicked (e, out) =
     (case pop_buried_front tid e of
        (None, e) \<Rightarrow> Some (kicked, (e, out))
      | (Some jid, e) \<Rightarrow>
          kick_to_ready tid jid now (e, out) \<bind> kick_buried_loop n tid now (kicked + 1))"

fun kick_delayed_loop ::
  "nat \<Rightarrow> tube_id \<Rightarrow> nanos \<Rightarrow> u64 \<Rightarrow> eng_out \<Rightarrow> (u64 \<times> eng_out) option" where
  "kick_delayed_loop 0 tid now kicked s = Some (kicked, s)"
| "kick_delayed_loop (Suc n) tid now kicked (e, out) =
     (case tube e tid \<bind> (\<lambda>t. first_of (t_delayed t)) of
        None \<Rightarrow> Some (kicked, (e, out))
      | Some (_, jid) \<Rightarrow>
          kick_to_ready tid jid now (remove_delayed tid jid e, out)
            \<bind> kick_delayed_loop n tid now (kicked + 1))"

definition cmd_kick :: "nanos \<Rightarrow> conn_id \<Rightarrow> u32 \<Rightarrow> eng_out \<Rightarrow> eng_out option" where
  "cmd_kick now cid n s =
     (case s of (e, out) \<Rightarrow> do {
        let e = count_op (\<lambda>c. c\<lparr>o_kick := o_kick c + 1\<rparr>) e;
        let tid = use_tube_of cid e;
        let has_buried = (case tube e tid of
                            Some t \<Rightarrow> dom (t_buried t) \<noteq> {} | None \<Rightarrow> False);
        (kicked, s) \<leftarrow> (if has_buried then kick_buried_loop (unat n) tid now 0 (e, out)
                        else kick_delayed_loop (unat n) tid now 0 (e, out));
        Some (reply cid (RKicked kicked) s)
      })"

definition cmd_kick_job :: "nanos \<Rightarrow> conn_id \<Rightarrow> job_id \<Rightarrow> eng_out \<Rightarrow> eng_out option" where
  "cmd_kick_job now cid jid s =
     (case s of (e, out) \<Rightarrow>
        (case e_jobs e jid of
           None \<Rightarrow> Some (reply cid RNotFound (e, out))
         | Some j \<Rightarrow>
             (case j_state j of
                Buried \<Rightarrow> do {
                  s \<leftarrow> kick_to_ready (j_tube j) jid now
                        (snd (remove_buried (j_tube j) jid e), out);
                  Some (reply cid RKickedJob s)
                }
              | Delayed \<Rightarrow> do {
                  s \<leftarrow> kick_to_ready (j_tube j) jid now
                        (remove_delayed (j_tube j) jid e, out);
                  Some (reply cid RKickedJob s)
                }
              | _ \<Rightarrow> Some (reply cid RNotFound (e, out)))))"

section \<open>Stats and lists\<close>

definition cmd_stats_job :: "nanos \<Rightarrow> conn_id \<Rightarrow> job_id \<Rightarrow> eng_out \<Rightarrow> eng_out" where
  "cmd_stats_job now cid jid s =
     (case s of (e, out) \<Rightarrow>
        reply_with cid
          (\<lambda>e. case build_stats_job jid now e of
                 Some st \<Rightarrow> ROk (stats_job_to_yaml st) | None \<Rightarrow> RNotFound)
          (count_op (\<lambda>c. c\<lparr>o_stats_job := o_stats_job c + 1\<rparr>) e, out))"

definition cmd_stats_tube :: "nanos \<Rightarrow> conn_id \<Rightarrow> tube_name \<Rightarrow> eng_out \<Rightarrow> eng_out" where
  "cmd_stats_tube now cid name s =
     (case s of (e, out) \<Rightarrow>
        reply_with cid
          (\<lambda>e. case build_stats_tube name now e of
                 Some st \<Rightarrow> ROk (stats_tube_to_yaml st) | None \<Rightarrow> RNotFound)
          (count_op (\<lambda>c. c\<lparr>o_stats_tube := o_stats_tube c + 1\<rparr>) e, out))"

definition cmd_stats :: "nanos \<Rightarrow> conn_id \<Rightarrow> eng_out \<Rightarrow> eng_out" where
  "cmd_stats now cid s =
     (case s of (e, out) \<Rightarrow>
        reply_with cid (\<lambda>e. ROk (stats_server_to_yaml (build_stats_server now e)))
          (count_op (\<lambda>c. c\<lparr>o_stats := o_stats c + 1\<rparr>) e, out))"

definition cmd_list_tubes :: "conn_id \<Rightarrow> eng_out \<Rightarrow> eng_out" where
  "cmd_list_tubes cid s =
     (case s of (e, out) \<Rightarrow>
        reply_with cid (\<lambda>e. ROk (yaml_list (tube_names e)))
          (count_op (\<lambda>c. c\<lparr>o_list_tubes := o_list_tubes c + 1\<rparr>) e, out))"

definition cmd_list_tube_used :: "conn_id \<Rightarrow> eng_out \<Rightarrow> eng_out" where
  "cmd_list_tube_used cid s =
     (case s of (e, out) \<Rightarrow>
        reply_with cid (\<lambda>e. RUsing (tube_name e (use_tube_of cid e)))
          (count_op (\<lambda>c. c\<lparr>o_list_tube_used := o_list_tube_used c + 1\<rparr>) e, out))"

definition cmd_list_tubes_watched :: "conn_id \<Rightarrow> eng_out \<Rightarrow> eng_out" where
  "cmd_list_tubes_watched cid s =
     (case s of (e, out) \<Rightarrow>
        reply_with cid (\<lambda>e. ROk (yaml_list (watched_tube_names cid e)))
          (count_op (\<lambda>c. c\<lparr>o_list_tubes_watched := o_list_tubes_watched c + 1\<rparr>) e, out))"

section \<open>Pause\<close>

definition cmd_pause_tube :: "nanos \<Rightarrow> conn_id \<Rightarrow> tube_name \<Rightarrow> u32 \<Rightarrow> eng_out \<Rightarrow> eng_out" where
  "cmd_pause_tube now cid name delay s =
     (case s of (e, out) \<Rightarrow>
        let e = count_op (\<lambda>c. c\<lparr>o_pause_tube := o_pause_tube c + 1\<rparr>) e in
        (case e_tube_ids e name of
           None \<Rightarrow> reply cid RNotFound (e, out)
         | Some tid \<Rightarrow>
             let delay_nanos = (if delay = 0 then 1 else secs delay) in
             (case tube e tid of
                None \<Rightarrow> (e, out)
              | Some t \<Rightarrow>
                  let e = (if t_pause t > 0
                           then e\<lparr>e_pauses := e_pauses e - {(t_unpause_at t, tid)}\<rparr> else e);
                      unpause_at = sat_add now delay_nanos;
                      e = tube_mut tid (\<lambda>t.
                            (stat_mut (\<lambda>s. s\<lparr>s_pause_ct := s_pause_ct s + 1\<rparr>) t)
                              \<lparr>t_pause := delay_nanos, t_unpause_at := unpause_at\<rparr>) e;
                      e = e\<lparr>e_pauses := insert (unpause_at, tid) (e_pauses e)\<rparr>
                  in reply cid RPaused (e, out))))"

definition cmd_pause_tube_bad_name :: "conn_id \<Rightarrow> eng_out \<Rightarrow> eng_out" where
  "cmd_pause_tube_bad_name cid s =
     (case s of (e, out) \<Rightarrow>
        reply cid RBadFormat
          (count_op (\<lambda>c. c\<lparr>o_pause_tube := o_pause_tube c + 1\<rparr>) e, out))"

end
