(* ===== verification/Engine.thy ===== *)
theory Engine
  imports Engine_Cmds
begin

text \<open>
  The public operations of the engine (\<open>crates/engine/src/engine.rs\<close>): construction,
  connections, the put protocol, command dispatch, time (\<open>tick\<close>, \<open>next_deadline\<close>),
  \<open>apply_input\<close> (the step of the replicated state machine), recovery from the binlog and
  the monitoring view.
\<close>

section \<open>Construction\<close>

definition engine_empty :: "nanos \<Rightarrow> engine_config \<Rightarrow> sys_snapshot \<Rightarrow> engine" where
  "engine_empty now cfg sys =
     \<lparr>e_cfg = cfg, e_sys = sys, e_start = now, e_draining = False, e_next_job_id = 1,
      e_jobs = Map.empty, e_next_list_seq = 0, e_tubes = [], e_free_tube_ids = [],
      e_tube_ids = Map.empty, e_tube_order = ms_new, e_conns = Map.empty, e_conn_ticks = {},
      e_delay_heads = {}, e_pauses = {}, e_dispatchable = {}, e_ready_ct = 0,
      e_urgent_ct = 0, e_reserved_ct = 0, e_buried_ct = 0, e_delayed_ct = 0,
      e_waiting_ct = 0, e_total_jobs_ct = 0, e_timeout_ct = 0, e_cur_conns = 0,
      e_tot_conns = 0, e_cur_producers = 0, e_cur_workers = 0, e_ops = zero_op_counters,
      e_journal = [], e_binlog = default_binlog_stats, e_local_conns = None\<rparr>"

definition engine_new :: "nanos \<Rightarrow> engine_config \<Rightarrow> sys_snapshot \<Rightarrow> engine option" where
  "engine_new now cfg sys =
     map_option snd (find_or_make_tube default_tube (engine_empty now cfg sys))"

section \<open>Connections\<close>

definition connect :: "nanos \<Rightarrow> conn_id \<Rightarrow> engine \<Rightarrow> engine" where
  "connect now cid e =
     (let e = tube_mut DEFAULT_TUBE
                (\<lambda>t. t\<lparr>t_using_ct := t_using_ct t + 1, t_watching_ct := t_watching_ct t + 1\<rparr>) e;
          old = e_conns e cid;
          e = e\<lparr>e_conns := (e_conns e)(cid \<mapsto> conn_state_new DEFAULT_TUBE)\<rparr>;
          e = (case old \<bind> c_tick_key of
                 Some k \<Rightarrow> e\<lparr>e_conn_ticks := e_conn_ticks e - {(k, cid)}\<rparr>
               | None \<Rightarrow> e)
      in e\<lparr>e_cur_conns := e_cur_conns e + 1, e_tot_conns := e_tot_conns e + 1\<rparr>)"

text \<open>\<open>disconnect\<close>: give the reserved jobs back one by one, then drop the references to the
  watched tubes in \<open>ms_clear\<close> order and to the used tube, then the connection itself.\<close>

fun release_reserved :: "nanos \<Rightarrow> conn_id \<Rightarrow> job_id list \<Rightarrow> eng_out \<Rightarrow> eng_out option" where
  "release_reserved now cid [] s = Some s"
| "release_reserved now cid (jid # jids) (e, out) = do {
     let e = do_unreserve cid jid e;
     let e = (case e_jobs e jid of
                Some j \<Rightarrow> insert_ready (j_tube j) jid e | None \<Rightarrow> e);
     s \<leftarrow> process_queue now (e, out);
     release_reserved now cid jids s
   }"

fun unwatch_all :: "tube_id list \<Rightarrow> engine \<Rightarrow> engine option" where
  "unwatch_all [] e = Some e"
| "unwatch_all (t # ts) e = do {
     let e = tube_mut t (\<lambda>t. t\<lparr>t_watching_ct := sat_sub (t_watching_ct t) 1\<rparr>) e;
     e \<leftarrow> gc_tube_if_orphan t e;
     unwatch_all ts e
   }"

definition drop_watches :: "conn_id \<Rightarrow> engine \<Rightarrow> engine option" where
  "drop_watches cid e =
     (case e_conns e cid of
        None \<Rightarrow> Some e
      | Some c \<Rightarrow>
          (case ms_clear_in_delete_order (c_watch c) of
             (watched, w) \<Rightarrow> unwatch_all watched (conn_mut cid (\<lambda>c. c\<lparr>c_watch := w\<rparr>) e)))"

definition drop_use :: "conn_id \<Rightarrow> engine \<Rightarrow> engine option" where
  "drop_use cid e =
     (case e_conns e cid of
        None \<Rightarrow> Some e
      | Some c \<Rightarrow>
          gc_tube_if_orphan (c_use_tube c)
            (tube_mut (c_use_tube c)
               (\<lambda>t. t\<lparr>t_using_ct := sat_sub (t_using_ct t) 1\<rparr>) e))"

definition drop_conn :: "conn_id \<Rightarrow> engine \<Rightarrow> engine" where
  "drop_conn cid e =
     (let e' = (case e_conns e cid of
                  None \<Rightarrow> e
                | Some c \<Rightarrow>
                    let e = e\<lparr>e_conns := (e_conns e)(cid := None)\<rparr>;
                        e = (case c_tick_key c of
                               Some k \<Rightarrow> e\<lparr>e_conn_ticks := e_conn_ticks e - {(k, cid)}\<rparr>
                             | None \<Rightarrow> e);
                        e = (if c_is_producer c
                             then e\<lparr>e_cur_producers := sat_sub (e_cur_producers e) 1\<rparr> else e)
                    in if c_is_worker c
                       then e\<lparr>e_cur_workers := sat_sub (e_cur_workers e) 1\<rparr> else e)
      in e'\<lparr>e_cur_conns := sat_sub (e_cur_conns e') 1\<rparr>)"

definition disconnect :: "nanos \<Rightarrow> conn_id \<Rightarrow> eng_out \<Rightarrow> eng_out option" where
  "disconnect now cid s =
     (case s of (e, out) \<Rightarrow>
        if e_conns e cid = None then Some (e, out)
        else do {
          let e = do_remove_waiting_conn cid e;
          let reserved = (case e_conns e cid of Some c \<Rightarrow> values_of (c_reserved c) | None \<Rightarrow> []);
          (e, out) \<leftarrow> release_reserved now cid reserved (e, out);
          e \<leftarrow> drop_watches cid e;
          e \<leftarrow> drop_use cid e;
          Some (drop_conn cid e, out)
        })"

definition half_close :: "nanos \<Rightarrow> conn_id \<Rightarrow> eng_out \<Rightarrow> eng_out" where
  "half_close now cid s =
     (case s of (e, out) \<Rightarrow>
        if conn_is_waiting cid e
        then reply cid RTimedOut (do_remove_waiting_conn cid e, out)
        else (e, out))"

section \<open>The put protocol\<close>

definition put_started :: "nanos \<Rightarrow> conn_id \<Rightarrow> bool \<Rightarrow> engine \<Rightarrow> engine" where
  "put_started now cid too_big e =
     (if e_conns e cid = None then e
      else
        let e = count_op (\<lambda>c. c\<lparr>o_put := o_put c + 1\<rparr>) e;
            (jid, e) =
              (if too_big then (None, e)
               else let e = connsetproducer cid e;
                        jid = e_next_job_id e
                    in (Some jid, e\<lparr>e_next_job_id := e_next_job_id e + 1\<rparr>))
        in conn_mut cid
             (\<lambda>c. c\<lparr>c_pending_put := Some \<lparr>pp_id = jid, pp_created_at = now\<rparr>\<rparr>) e)"

definition put_rejected :: "nanos \<Rightarrow> conn_id \<Rightarrow> put_rejection \<Rightarrow> eng_out \<Rightarrow> eng_out" where
  "put_rejected now cid why s =
     (case s of (e, out) \<Rightarrow>
        (case e_conns e cid of
           None \<Rightarrow> (e, out)
         | Some c \<Rightarrow>
             let started = (c_pending_put c \<noteq> None);
                 e = conn_mut cid (\<lambda>c. c\<lparr>c_pending_put := None\<rparr>) e;
                 e = (if \<not> started
                      then let e = count_op (\<lambda>c. c\<lparr>o_put := o_put c + 1\<rparr>) e in
                           if why = ExpectedCrlf \<or> why = OutOfMemory
                           then (connsetproducer cid e)
                                  \<lparr>e_next_job_id := e_next_job_id (connsetproducer cid e) + 1\<rparr>
                           else e
                      else e)
             in reply cid (put_rejection_response why) (e, out)))"

section \<open>Command dispatch\<close>

fun dispatch :: "nanos \<Rightarrow> conn_id \<Rightarrow> command \<Rightarrow> eng_out \<Rightarrow> eng_out option" where
  "dispatch now cid (CPut pri delay ttr body) s = cmd_put now cid pri delay ttr body s"
| "dispatch now cid (CUse name) s = cmd_use cid name s"
| "dispatch now cid CReserve s = cmd_reserve now cid None s"
| "dispatch now cid (CReserveWithTimeout t) s = cmd_reserve now cid (Some t) s"
| "dispatch now cid (CReserveJob jid) s = Some (cmd_reserve_job now cid jid s)"
| "dispatch now cid (CDelete jid) s = cmd_delete cid jid s"
| "dispatch now cid (CRelease jid pri delay) s = cmd_release now cid jid pri delay s"
| "dispatch now cid (CBury jid pri) s = Some (cmd_bury cid jid pri s)"
| "dispatch now cid (CTouch jid) s = Some (cmd_touch now cid jid s)"
| "dispatch now cid (CWatch name) s = cmd_watch cid name s"
| "dispatch now cid (CIgnore name) s = cmd_ignore cid name s"
| "dispatch now cid (CPeek jid) s = Some (cmd_peek cid jid s)"
| "dispatch now cid CPeekReady s = Some (cmd_peek_ready cid s)"
| "dispatch now cid CPeekDelayed s = Some (cmd_peek_delayed cid s)"
| "dispatch now cid CPeekBuried s = Some (cmd_peek_buried cid s)"
| "dispatch now cid (CKick n) s = cmd_kick now cid n s"
| "dispatch now cid (CKickJob jid) s = cmd_kick_job now cid jid s"
| "dispatch now cid (CStatsJob jid) s = Some (cmd_stats_job now cid jid s)"
| "dispatch now cid (CStatsTube name) s = Some (cmd_stats_tube now cid name s)"
| "dispatch now cid CStats s = Some (cmd_stats now cid s)"
| "dispatch now cid CListTubes s = Some (cmd_list_tubes cid s)"
| "dispatch now cid CListTubeUsed s = Some (cmd_list_tube_used cid s)"
| "dispatch now cid CListTubesWatched s = Some (cmd_list_tubes_watched cid s)"
| "dispatch now cid CQuit s = Some s"
| "dispatch now cid (CPauseTube name delay) s = Some (cmd_pause_tube now cid name delay s)"
| "dispatch now cid CPauseTubeBadName s = Some (cmd_pause_tube_bad_name cid s)"

definition handle :: "nanos \<Rightarrow> conn_id \<Rightarrow> command \<Rightarrow> eng_out \<Rightarrow> eng_out option" where
  "handle now cid cmd s =
     (if e_conns (fst s) cid = None then Some s else dispatch now cid cmd s)"

section \<open>Time\<close>

definition next_deadline :: "engine \<Rightarrow> nanos option" where
  "next_deadline e =
     first_of (\<Union>d \<in> {map_option fst (first_of (e_delay_heads e)),
                       map_option fst (first_of (e_pauses e)),
                       map_option fst (first_of (e_conn_ticks e))}. set_option d)"

definition delay_due :: "nanos \<Rightarrow> engine \<Rightarrow> bool" where
  "delay_due now e =
     (case soonest_delayed_job e of None \<Rightarrow> False | Some (deadline, _) \<Rightarrow> \<not> deadline > now)"

definition ready_delayed :: "nanos \<Rightarrow> eng_out \<Rightarrow> eng_out option" where
  "ready_delayed now s =
     (case s of (e, out) \<Rightarrow>
        (case soonest_delayed_job e of
           None \<Rightarrow> Some s
         | Some (_, tid, jid) \<Rightarrow>
             process_queue now (insert_ready tid jid (remove_delayed tid jid e), out)))"

text \<open>The next connection to time out: the first due entry of \<open>conn_ticks\<close> not yet
  processed in this tick.\<close>

definition due_conn :: "nanos \<Rightarrow> conn_id set \<Rightarrow> engine \<Rightarrow> conn_id option" where
  "due_conn now processed e =
     map_option snd (first_of {k \<in> e_conn_ticks e. fst k \<le> now \<and> snd k \<notin> processed})"

definition timeout_due_conn ::
  "nanos \<Rightarrow> eng_out \<times> conn_id set \<Rightarrow> (eng_out \<times> conn_id set) option" where
  "timeout_due_conn now s =
     (case s of (eo, processed) \<Rightarrow>
        (case due_conn now processed (fst eo) of
           None \<Rightarrow> Some s
         | Some cid \<Rightarrow>
             map_option (\<lambda>eo'. (eo', insert cid processed)) (conn_timeout cid now eo)))"

definition tick :: "nanos \<Rightarrow> eng_out \<Rightarrow> eng_out option" where
  "tick now s =
     (case next_deadline (fst s) of
        None \<Rightarrow> Some s
      | Some d \<Rightarrow>
          if \<not> d \<le> now then Some s
          else do {
            s \<leftarrow> loop (\<lambda>(e, out). delay_due now e) (ready_delayed now) s;
            s \<leftarrow> (if pause_expired now (fst s) then process_queue now s else Some s);
            (s, _) \<leftarrow> loop (\<lambda>(s, processed). due_conn now processed (fst s) \<noteq> None)
                       (timeout_due_conn now) (s, {});
            Some s
          })"

section \<open>The replicated step\<close>

definition set_draining :: "bool \<Rightarrow> engine \<Rightarrow> engine" where
  "set_draining on e = e\<lparr>e_draining := on\<rparr>"

fun run_input :: "nanos \<Rightarrow> engine_input \<Rightarrow> eng_out \<Rightarrow> eng_out option" where
  "run_input now (IConnect c) (e, out) = Some (connect now c e, out)"
| "run_input now (IDisconnect c) s = disconnect now c s"
| "run_input now (IHalfClose c) s = Some (half_close now c s)"
| "run_input now (IPutStarted c too_big) (e, out) = Some (put_started now c too_big e, out)"
| "run_input now (IPutRejected c why) s = Some (put_rejected now c why s)"
| "run_input now (ICommand c cmd) s = handle now c cmd s"
| "run_input now ITick s = Some s"
| "run_input now (ISetDraining on) (e, out) = Some (set_draining on e, out)"

definition apply_input :: "nanos \<Rightarrow> engine_input \<Rightarrow> eng_out \<Rightarrow> eng_out option" where
  "apply_input now input s = run_input now input s \<bind> tick now"

definition conn_ids :: "engine \<Rightarrow> conn_id list" where
  "conn_ids e = sorted_list_of_set (dom (e_conns e))"

section \<open>Recovery\<close>

fun make_tubes :: "tube_name set \<Rightarrow> tube_name list \<Rightarrow> engine \<Rightarrow> engine option" where
  "make_tubes live [] e = Some e"
| "make_tubes live (n # ns) e =
     (if n \<in> live then find_or_make_tube n e \<bind> (\<lambda>(_, e). make_tubes live ns e)
      else make_tubes live ns e)"

definition recover_job :: "nanos \<Rightarrow> recovered_job \<Rightarrow> engine \<Rightarrow> engine option" where
  "recover_job now rj e = do {
     let r = rj_record rj;
     (tid, e) \<leftarrow> find_or_make_tube (rj_tube rj) e;
     let e = e\<lparr>e_jobs := (e_jobs e)(r_id r \<mapsto>
               \<lparr>j_id = r_id r, j_tube = tid, j_pri = r_pri r, j_delay = r_delay r,
                j_ttr = max (r_ttr r) 1, j_body = rj_body rj,
                j_created_at = r_created_at r, j_deadline_at = 0, j_state = Ready,
                j_reserver = None, j_list_seq = 0, j_reserve_ct = r_reserve_ct r,
                j_timeout_ct = r_timeout_ct r, j_release_ct = r_release_ct r,
                j_bury_ct = r_bury_ct r, j_kick_ct = r_kick_ct r, j_file = 0\<rparr>)\<rparr>;
     let e = tube_mut tid (\<lambda>t. t\<lparr>t_job_ref_ct := t_job_ref_ct t + 1\<rparr>) e;
     Some (case r_state r of
             RecBuried \<Rightarrow> insert_buried tid (r_id r) e
           | RecDelayed \<Rightarrow>
               if r_deadline_at r > now
               then insert_delayed tid (r_id r) (r_deadline_at r) e
               else insert_ready tid (r_id r) e
           | RecReady \<Rightarrow> insert_ready tid (r_id r) e)
   }"

fun recover_jobs :: "nanos \<Rightarrow> recovered_job list \<Rightarrow> job_id \<Rightarrow> engine \<Rightarrow> (job_id \<times> engine) option"
where
  "recover_jobs now [] max_id e = Some (max_id, e)"
| "recover_jobs now (rj # rjs) max_id e =
     (if e_jobs e (r_id (rj_record rj)) \<noteq> None then recover_jobs now rjs max_id e
      else recover_job now rj e \<bind>
             recover_jobs now rjs (max max_id (r_id (rj_record rj))))"

definition recover :: "nanos \<Rightarrow> engine_config \<Rightarrow> sys_snapshot \<Rightarrow> recovery \<Rightarrow> engine option" where
  "recover now cfg sys rc = do {
     e \<leftarrow> engine_new now cfg sys;
     let live_tubes = rj_tube ` set (rec_jobs rc);
     e \<leftarrow> make_tubes live_tubes (rec_tube_order rc) e;
     (max_id, e) \<leftarrow> recover_jobs now (rec_jobs rc) 0 e;
     Some (e\<lparr>e_next_job_id := max (max (rec_next_id rc) (max_id + 1)) 1\<rparr>)
   }"

section \<open>Journal, settings, monitoring\<close>

definition take_journal :: "journal_entry list \<Rightarrow> engine \<Rightarrow> journal_entry list \<times> engine" where
  "take_journal buf e = (buf @ e_journal e, e\<lparr>e_journal := []\<rparr>)"

definition set_binlog_stats :: "binlog_stats \<Rightarrow> engine \<Rightarrow> engine" where
  "set_binlog_stats st e = e\<lparr>e_binlog := st\<rparr>"

definition set_local_conns :: "local_conns option \<Rightarrow> engine \<Rightarrow> engine" where
  "set_local_conns l e = e\<lparr>e_local_conns := l\<rparr>"

record snapshot =
  sn_server :: stats_server
  sn_tubes :: "stats_tube list"

definition snapshot_limited :: "nanos \<Rightarrow> nat \<Rightarrow> engine \<Rightarrow> snapshot" where
  "snapshot_limited now max_tubes e =
     \<lparr>sn_server = build_stats_server now e,
      sn_tubes = map (\<lambda>t. stats_tube_of t now)
                   (List.map_filter (tube e) (take max_tubes (ms_items (e_tube_order e))))\<rparr>"

end
