(* ===== verification/Engine_Frame.thy ===== *)
theory Engine_Frame
  imports Engine
begin

text \<open>
  What each private operation of the engine reads back as: which fields it leaves alone (the
  \<open>_frame\<close> bundles) and, for the fields it changes, its effect on the three maps every
  invariant is stated over: tubes (\<open>tube e\<close>), jobs (\<open>e_jobs e\<close>) and connections
  (\<open>e_conns e\<close>). All are simplification rules.
\<close>

section \<open>The maps under record updates\<close>

lemma tube_update [simp]:
  "tube (e_cfg_update g0 e) = tube e"
  "tube (e_sys_update g1 e) = tube e"
  "tube (e_start_update g2 e) = tube e"
  "tube (e_draining_update g3 e) = tube e"
  "tube (e_next_job_id_update g4 e) = tube e"
  "tube (e_jobs_update g5 e) = tube e"
  "tube (e_next_list_seq_update g6 e) = tube e"
  "tube (e_free_tube_ids_update g8 e) = tube e"
  "tube (e_tube_ids_update g9 e) = tube e"
  "tube (e_tube_order_update g10 e) = tube e"
  "tube (e_conns_update g11 e) = tube e"
  "tube (e_conn_ticks_update g12 e) = tube e"
  "tube (e_delay_heads_update g13 e) = tube e"
  "tube (e_pauses_update g14 e) = tube e"
  "tube (e_dispatchable_update g15 e) = tube e"
  "tube (e_ready_ct_update g16 e) = tube e"
  "tube (e_urgent_ct_update g17 e) = tube e"
  "tube (e_reserved_ct_update g18 e) = tube e"
  "tube (e_buried_ct_update g19 e) = tube e"
  "tube (e_delayed_ct_update g20 e) = tube e"
  "tube (e_waiting_ct_update g21 e) = tube e"
  "tube (e_total_jobs_ct_update g22 e) = tube e"
  "tube (e_timeout_ct_update g23 e) = tube e"
  "tube (e_cur_conns_update g24 e) = tube e"
  "tube (e_tot_conns_update g25 e) = tube e"
  "tube (e_cur_producers_update g26 e) = tube e"
  "tube (e_cur_workers_update g27 e) = tube e"
  "tube (e_ops_update g28 e) = tube e"
  "tube (e_journal_update g29 e) = tube e"
  "tube (e_binlog_update g30 e) = tube e"
  "tube (e_local_conns_update g31 e) = tube e"
  by (simp_all add: fun_eq_iff tube_def)

lemma tube_Some_length: "tube e tid = Some t \<Longrightarrow> tid < length (e_tubes e)"
  by (auto simp: tube_def nth_opt_def split: if_splits)

lemma tube_tubes_update: "tid < length (e_tubes e) \<Longrightarrow>
    tube (e\<lparr>e_tubes := (e_tubes e)[tid := x]\<rparr>) = (tube e)(tid := x)"
  by (auto simp: tube_def nth_opt_def nth_list_update)

lemma tube_tube_mut [simp]:
  "tube (tube_mut tid f e) = (tube e)(tid := map_option f (tube e tid))"
  by (cases "tube e tid") (simp_all add: tube_mut_def tube_tubes_update tube_Some_length fun_upd_idem)

lemma length_tube_mut [simp]: "length (e_tubes (tube_mut tid f e)) = length (e_tubes e)"
  by (simp add: tube_mut_def split: option.split)

lemma e_jobs_job_mut [simp]:
  "e_jobs (job_mut jid f e) = (e_jobs e)(jid := map_option f (e_jobs e jid))"
  by (cases "e_jobs e jid") (simp_all add: job_mut_def fun_upd_idem)

lemma e_conns_conn_mut [simp]:
  "e_conns (conn_mut cid f e) = (e_conns e)(cid := map_option f (e_conns e cid))"
  by (cases "e_conns e cid") (simp_all add: conn_mut_def fun_upd_idem)

section \<open>Frames\<close>

lemma tube_mut_frame [simp]:
  "e_cfg (tube_mut tid f e) = e_cfg e"
  "e_sys (tube_mut tid f e) = e_sys e"
  "e_start (tube_mut tid f e) = e_start e"
  "e_draining (tube_mut tid f e) = e_draining e"
  "e_next_job_id (tube_mut tid f e) = e_next_job_id e"
  "e_jobs (tube_mut tid f e) = e_jobs e"
  "e_next_list_seq (tube_mut tid f e) = e_next_list_seq e"
  "e_free_tube_ids (tube_mut tid f e) = e_free_tube_ids e"
  "e_tube_ids (tube_mut tid f e) = e_tube_ids e"
  "e_tube_order (tube_mut tid f e) = e_tube_order e"
  "e_conns (tube_mut tid f e) = e_conns e"
  "e_conn_ticks (tube_mut tid f e) = e_conn_ticks e"
  "e_delay_heads (tube_mut tid f e) = e_delay_heads e"
  "e_pauses (tube_mut tid f e) = e_pauses e"
  "e_dispatchable (tube_mut tid f e) = e_dispatchable e"
  "e_ready_ct (tube_mut tid f e) = e_ready_ct e"
  "e_urgent_ct (tube_mut tid f e) = e_urgent_ct e"
  "e_reserved_ct (tube_mut tid f e) = e_reserved_ct e"
  "e_buried_ct (tube_mut tid f e) = e_buried_ct e"
  "e_delayed_ct (tube_mut tid f e) = e_delayed_ct e"
  "e_waiting_ct (tube_mut tid f e) = e_waiting_ct e"
  "e_total_jobs_ct (tube_mut tid f e) = e_total_jobs_ct e"
  "e_timeout_ct (tube_mut tid f e) = e_timeout_ct e"
  "e_cur_conns (tube_mut tid f e) = e_cur_conns e"
  "e_tot_conns (tube_mut tid f e) = e_tot_conns e"
  "e_cur_producers (tube_mut tid f e) = e_cur_producers e"
  "e_cur_workers (tube_mut tid f e) = e_cur_workers e"
  "e_ops (tube_mut tid f e) = e_ops e"
  "e_journal (tube_mut tid f e) = e_journal e"
  "e_binlog (tube_mut tid f e) = e_binlog e"
  "e_local_conns (tube_mut tid f e) = e_local_conns e"
  "length (e_tubes (tube_mut tid f e)) = length (e_tubes e)"
  by (simp_all add: tube_mut_def Let_def split: option.split)

lemma job_mut_frame [simp]:
  "e_cfg (job_mut jid f e) = e_cfg e"
  "e_sys (job_mut jid f e) = e_sys e"
  "e_start (job_mut jid f e) = e_start e"
  "e_draining (job_mut jid f e) = e_draining e"
  "e_next_job_id (job_mut jid f e) = e_next_job_id e"
  "e_next_list_seq (job_mut jid f e) = e_next_list_seq e"
  "e_tubes (job_mut jid f e) = e_tubes e"
  "e_free_tube_ids (job_mut jid f e) = e_free_tube_ids e"
  "e_tube_ids (job_mut jid f e) = e_tube_ids e"
  "e_tube_order (job_mut jid f e) = e_tube_order e"
  "e_conns (job_mut jid f e) = e_conns e"
  "e_conn_ticks (job_mut jid f e) = e_conn_ticks e"
  "e_delay_heads (job_mut jid f e) = e_delay_heads e"
  "e_pauses (job_mut jid f e) = e_pauses e"
  "e_dispatchable (job_mut jid f e) = e_dispatchable e"
  "e_ready_ct (job_mut jid f e) = e_ready_ct e"
  "e_urgent_ct (job_mut jid f e) = e_urgent_ct e"
  "e_reserved_ct (job_mut jid f e) = e_reserved_ct e"
  "e_buried_ct (job_mut jid f e) = e_buried_ct e"
  "e_delayed_ct (job_mut jid f e) = e_delayed_ct e"
  "e_waiting_ct (job_mut jid f e) = e_waiting_ct e"
  "e_total_jobs_ct (job_mut jid f e) = e_total_jobs_ct e"
  "e_timeout_ct (job_mut jid f e) = e_timeout_ct e"
  "e_cur_conns (job_mut jid f e) = e_cur_conns e"
  "e_tot_conns (job_mut jid f e) = e_tot_conns e"
  "e_cur_producers (job_mut jid f e) = e_cur_producers e"
  "e_cur_workers (job_mut jid f e) = e_cur_workers e"
  "e_ops (job_mut jid f e) = e_ops e"
  "e_journal (job_mut jid f e) = e_journal e"
  "e_binlog (job_mut jid f e) = e_binlog e"
  "e_local_conns (job_mut jid f e) = e_local_conns e"
  "tube (job_mut jid f e) = tube e"
  by (simp_all add: job_mut_def Let_def split: option.split)

lemma conn_mut_frame [simp]:
  "e_cfg (conn_mut cid f e) = e_cfg e"
  "e_sys (conn_mut cid f e) = e_sys e"
  "e_start (conn_mut cid f e) = e_start e"
  "e_draining (conn_mut cid f e) = e_draining e"
  "e_next_job_id (conn_mut cid f e) = e_next_job_id e"
  "e_jobs (conn_mut cid f e) = e_jobs e"
  "e_next_list_seq (conn_mut cid f e) = e_next_list_seq e"
  "e_tubes (conn_mut cid f e) = e_tubes e"
  "e_free_tube_ids (conn_mut cid f e) = e_free_tube_ids e"
  "e_tube_ids (conn_mut cid f e) = e_tube_ids e"
  "e_tube_order (conn_mut cid f e) = e_tube_order e"
  "e_conn_ticks (conn_mut cid f e) = e_conn_ticks e"
  "e_delay_heads (conn_mut cid f e) = e_delay_heads e"
  "e_pauses (conn_mut cid f e) = e_pauses e"
  "e_dispatchable (conn_mut cid f e) = e_dispatchable e"
  "e_ready_ct (conn_mut cid f e) = e_ready_ct e"
  "e_urgent_ct (conn_mut cid f e) = e_urgent_ct e"
  "e_reserved_ct (conn_mut cid f e) = e_reserved_ct e"
  "e_buried_ct (conn_mut cid f e) = e_buried_ct e"
  "e_delayed_ct (conn_mut cid f e) = e_delayed_ct e"
  "e_waiting_ct (conn_mut cid f e) = e_waiting_ct e"
  "e_total_jobs_ct (conn_mut cid f e) = e_total_jobs_ct e"
  "e_timeout_ct (conn_mut cid f e) = e_timeout_ct e"
  "e_cur_conns (conn_mut cid f e) = e_cur_conns e"
  "e_tot_conns (conn_mut cid f e) = e_tot_conns e"
  "e_cur_producers (conn_mut cid f e) = e_cur_producers e"
  "e_cur_workers (conn_mut cid f e) = e_cur_workers e"
  "e_ops (conn_mut cid f e) = e_ops e"
  "e_journal (conn_mut cid f e) = e_journal e"
  "e_binlog (conn_mut cid f e) = e_binlog e"
  "e_local_conns (conn_mut cid f e) = e_local_conns e"
  "tube (conn_mut cid f e) = tube e"
  by (simp_all add: conn_mut_def Let_def split: option.split)

lemma refresh_dispatchable_frame [simp]:
  "e_cfg (refresh_dispatchable tid e) = e_cfg e"
  "e_sys (refresh_dispatchable tid e) = e_sys e"
  "e_start (refresh_dispatchable tid e) = e_start e"
  "e_draining (refresh_dispatchable tid e) = e_draining e"
  "e_next_job_id (refresh_dispatchable tid e) = e_next_job_id e"
  "e_jobs (refresh_dispatchable tid e) = e_jobs e"
  "e_next_list_seq (refresh_dispatchable tid e) = e_next_list_seq e"
  "e_free_tube_ids (refresh_dispatchable tid e) = e_free_tube_ids e"
  "e_tube_ids (refresh_dispatchable tid e) = e_tube_ids e"
  "e_tube_order (refresh_dispatchable tid e) = e_tube_order e"
  "e_conns (refresh_dispatchable tid e) = e_conns e"
  "e_conn_ticks (refresh_dispatchable tid e) = e_conn_ticks e"
  "e_delay_heads (refresh_dispatchable tid e) = e_delay_heads e"
  "e_pauses (refresh_dispatchable tid e) = e_pauses e"
  "e_ready_ct (refresh_dispatchable tid e) = e_ready_ct e"
  "e_urgent_ct (refresh_dispatchable tid e) = e_urgent_ct e"
  "e_reserved_ct (refresh_dispatchable tid e) = e_reserved_ct e"
  "e_buried_ct (refresh_dispatchable tid e) = e_buried_ct e"
  "e_delayed_ct (refresh_dispatchable tid e) = e_delayed_ct e"
  "e_waiting_ct (refresh_dispatchable tid e) = e_waiting_ct e"
  "e_total_jobs_ct (refresh_dispatchable tid e) = e_total_jobs_ct e"
  "e_timeout_ct (refresh_dispatchable tid e) = e_timeout_ct e"
  "e_cur_conns (refresh_dispatchable tid e) = e_cur_conns e"
  "e_tot_conns (refresh_dispatchable tid e) = e_tot_conns e"
  "e_cur_producers (refresh_dispatchable tid e) = e_cur_producers e"
  "e_cur_workers (refresh_dispatchable tid e) = e_cur_workers e"
  "e_ops (refresh_dispatchable tid e) = e_ops e"
  "e_journal (refresh_dispatchable tid e) = e_journal e"
  "e_binlog (refresh_dispatchable tid e) = e_binlog e"
  "e_local_conns (refresh_dispatchable tid e) = e_local_conns e"
  "length (e_tubes (refresh_dispatchable tid e)) = length (e_tubes e)"
  by (simp_all add: refresh_dispatchable_def Let_def split: option.split)

lemma refresh_delay_head_frame [simp]:
  "e_cfg (refresh_delay_head tid e) = e_cfg e"
  "e_sys (refresh_delay_head tid e) = e_sys e"
  "e_start (refresh_delay_head tid e) = e_start e"
  "e_draining (refresh_delay_head tid e) = e_draining e"
  "e_next_job_id (refresh_delay_head tid e) = e_next_job_id e"
  "e_jobs (refresh_delay_head tid e) = e_jobs e"
  "e_next_list_seq (refresh_delay_head tid e) = e_next_list_seq e"
  "e_free_tube_ids (refresh_delay_head tid e) = e_free_tube_ids e"
  "e_tube_ids (refresh_delay_head tid e) = e_tube_ids e"
  "e_tube_order (refresh_delay_head tid e) = e_tube_order e"
  "e_conns (refresh_delay_head tid e) = e_conns e"
  "e_conn_ticks (refresh_delay_head tid e) = e_conn_ticks e"
  "e_pauses (refresh_delay_head tid e) = e_pauses e"
  "e_dispatchable (refresh_delay_head tid e) = e_dispatchable e"
  "e_ready_ct (refresh_delay_head tid e) = e_ready_ct e"
  "e_urgent_ct (refresh_delay_head tid e) = e_urgent_ct e"
  "e_reserved_ct (refresh_delay_head tid e) = e_reserved_ct e"
  "e_buried_ct (refresh_delay_head tid e) = e_buried_ct e"
  "e_delayed_ct (refresh_delay_head tid e) = e_delayed_ct e"
  "e_waiting_ct (refresh_delay_head tid e) = e_waiting_ct e"
  "e_total_jobs_ct (refresh_delay_head tid e) = e_total_jobs_ct e"
  "e_timeout_ct (refresh_delay_head tid e) = e_timeout_ct e"
  "e_cur_conns (refresh_delay_head tid e) = e_cur_conns e"
  "e_tot_conns (refresh_delay_head tid e) = e_tot_conns e"
  "e_cur_producers (refresh_delay_head tid e) = e_cur_producers e"
  "e_cur_workers (refresh_delay_head tid e) = e_cur_workers e"
  "e_ops (refresh_delay_head tid e) = e_ops e"
  "e_journal (refresh_delay_head tid e) = e_journal e"
  "e_binlog (refresh_delay_head tid e) = e_binlog e"
  "e_local_conns (refresh_delay_head tid e) = e_local_conns e"
  "length (e_tubes (refresh_delay_head tid e)) = length (e_tubes e)"
  by (simp_all add: refresh_delay_head_def Let_def split: option.split)

lemma refresh_conn_tick_frame [simp]:
  "e_cfg (refresh_conn_tick cid e) = e_cfg e"
  "e_sys (refresh_conn_tick cid e) = e_sys e"
  "e_start (refresh_conn_tick cid e) = e_start e"
  "e_draining (refresh_conn_tick cid e) = e_draining e"
  "e_next_job_id (refresh_conn_tick cid e) = e_next_job_id e"
  "e_jobs (refresh_conn_tick cid e) = e_jobs e"
  "e_next_list_seq (refresh_conn_tick cid e) = e_next_list_seq e"
  "e_tubes (refresh_conn_tick cid e) = e_tubes e"
  "e_free_tube_ids (refresh_conn_tick cid e) = e_free_tube_ids e"
  "e_tube_ids (refresh_conn_tick cid e) = e_tube_ids e"
  "e_tube_order (refresh_conn_tick cid e) = e_tube_order e"
  "e_delay_heads (refresh_conn_tick cid e) = e_delay_heads e"
  "e_pauses (refresh_conn_tick cid e) = e_pauses e"
  "e_dispatchable (refresh_conn_tick cid e) = e_dispatchable e"
  "e_ready_ct (refresh_conn_tick cid e) = e_ready_ct e"
  "e_urgent_ct (refresh_conn_tick cid e) = e_urgent_ct e"
  "e_reserved_ct (refresh_conn_tick cid e) = e_reserved_ct e"
  "e_buried_ct (refresh_conn_tick cid e) = e_buried_ct e"
  "e_delayed_ct (refresh_conn_tick cid e) = e_delayed_ct e"
  "e_waiting_ct (refresh_conn_tick cid e) = e_waiting_ct e"
  "e_total_jobs_ct (refresh_conn_tick cid e) = e_total_jobs_ct e"
  "e_timeout_ct (refresh_conn_tick cid e) = e_timeout_ct e"
  "e_cur_conns (refresh_conn_tick cid e) = e_cur_conns e"
  "e_tot_conns (refresh_conn_tick cid e) = e_tot_conns e"
  "e_cur_producers (refresh_conn_tick cid e) = e_cur_producers e"
  "e_cur_workers (refresh_conn_tick cid e) = e_cur_workers e"
  "e_ops (refresh_conn_tick cid e) = e_ops e"
  "e_journal (refresh_conn_tick cid e) = e_journal e"
  "e_binlog (refresh_conn_tick cid e) = e_binlog e"
  "e_local_conns (refresh_conn_tick cid e) = e_local_conns e"
  "tube (refresh_conn_tick cid e) = tube e"
  by (simp_all add: refresh_conn_tick_def Let_def split: option.split)

lemma journal_put_frame [simp]:
  "e_cfg (journal_put jid e) = e_cfg e"
  "e_sys (journal_put jid e) = e_sys e"
  "e_start (journal_put jid e) = e_start e"
  "e_draining (journal_put jid e) = e_draining e"
  "e_next_job_id (journal_put jid e) = e_next_job_id e"
  "e_jobs (journal_put jid e) = e_jobs e"
  "e_next_list_seq (journal_put jid e) = e_next_list_seq e"
  "e_tubes (journal_put jid e) = e_tubes e"
  "e_free_tube_ids (journal_put jid e) = e_free_tube_ids e"
  "e_tube_ids (journal_put jid e) = e_tube_ids e"
  "e_tube_order (journal_put jid e) = e_tube_order e"
  "e_conns (journal_put jid e) = e_conns e"
  "e_conn_ticks (journal_put jid e) = e_conn_ticks e"
  "e_delay_heads (journal_put jid e) = e_delay_heads e"
  "e_pauses (journal_put jid e) = e_pauses e"
  "e_dispatchable (journal_put jid e) = e_dispatchable e"
  "e_ready_ct (journal_put jid e) = e_ready_ct e"
  "e_urgent_ct (journal_put jid e) = e_urgent_ct e"
  "e_reserved_ct (journal_put jid e) = e_reserved_ct e"
  "e_buried_ct (journal_put jid e) = e_buried_ct e"
  "e_delayed_ct (journal_put jid e) = e_delayed_ct e"
  "e_waiting_ct (journal_put jid e) = e_waiting_ct e"
  "e_total_jobs_ct (journal_put jid e) = e_total_jobs_ct e"
  "e_timeout_ct (journal_put jid e) = e_timeout_ct e"
  "e_cur_conns (journal_put jid e) = e_cur_conns e"
  "e_tot_conns (journal_put jid e) = e_tot_conns e"
  "e_cur_producers (journal_put jid e) = e_cur_producers e"
  "e_cur_workers (journal_put jid e) = e_cur_workers e"
  "e_ops (journal_put jid e) = e_ops e"
  "e_binlog (journal_put jid e) = e_binlog e"
  "e_local_conns (journal_put jid e) = e_local_conns e"
  "tube (journal_put jid e) = tube e"
  by (simp_all add: journal_put_def Let_def split: option.split)

lemma journal_update_frame [simp]:
  "e_cfg (journal_update jid e) = e_cfg e"
  "e_sys (journal_update jid e) = e_sys e"
  "e_start (journal_update jid e) = e_start e"
  "e_draining (journal_update jid e) = e_draining e"
  "e_next_job_id (journal_update jid e) = e_next_job_id e"
  "e_jobs (journal_update jid e) = e_jobs e"
  "e_next_list_seq (journal_update jid e) = e_next_list_seq e"
  "e_tubes (journal_update jid e) = e_tubes e"
  "e_free_tube_ids (journal_update jid e) = e_free_tube_ids e"
  "e_tube_ids (journal_update jid e) = e_tube_ids e"
  "e_tube_order (journal_update jid e) = e_tube_order e"
  "e_conns (journal_update jid e) = e_conns e"
  "e_conn_ticks (journal_update jid e) = e_conn_ticks e"
  "e_delay_heads (journal_update jid e) = e_delay_heads e"
  "e_pauses (journal_update jid e) = e_pauses e"
  "e_dispatchable (journal_update jid e) = e_dispatchable e"
  "e_ready_ct (journal_update jid e) = e_ready_ct e"
  "e_urgent_ct (journal_update jid e) = e_urgent_ct e"
  "e_reserved_ct (journal_update jid e) = e_reserved_ct e"
  "e_buried_ct (journal_update jid e) = e_buried_ct e"
  "e_delayed_ct (journal_update jid e) = e_delayed_ct e"
  "e_waiting_ct (journal_update jid e) = e_waiting_ct e"
  "e_total_jobs_ct (journal_update jid e) = e_total_jobs_ct e"
  "e_timeout_ct (journal_update jid e) = e_timeout_ct e"
  "e_cur_conns (journal_update jid e) = e_cur_conns e"
  "e_tot_conns (journal_update jid e) = e_tot_conns e"
  "e_cur_producers (journal_update jid e) = e_cur_producers e"
  "e_cur_workers (journal_update jid e) = e_cur_workers e"
  "e_ops (journal_update jid e) = e_ops e"
  "e_binlog (journal_update jid e) = e_binlog e"
  "e_local_conns (journal_update jid e) = e_local_conns e"
  "tube (journal_update jid e) = tube e"
  by (simp_all add: journal_update_def Let_def split: option.split)

lemma journal_delete_frame [simp]:
  "e_cfg (journal_delete jid e) = e_cfg e"
  "e_sys (journal_delete jid e) = e_sys e"
  "e_start (journal_delete jid e) = e_start e"
  "e_draining (journal_delete jid e) = e_draining e"
  "e_next_job_id (journal_delete jid e) = e_next_job_id e"
  "e_jobs (journal_delete jid e) = e_jobs e"
  "e_next_list_seq (journal_delete jid e) = e_next_list_seq e"
  "e_tubes (journal_delete jid e) = e_tubes e"
  "e_free_tube_ids (journal_delete jid e) = e_free_tube_ids e"
  "e_tube_ids (journal_delete jid e) = e_tube_ids e"
  "e_tube_order (journal_delete jid e) = e_tube_order e"
  "e_conns (journal_delete jid e) = e_conns e"
  "e_conn_ticks (journal_delete jid e) = e_conn_ticks e"
  "e_delay_heads (journal_delete jid e) = e_delay_heads e"
  "e_pauses (journal_delete jid e) = e_pauses e"
  "e_dispatchable (journal_delete jid e) = e_dispatchable e"
  "e_ready_ct (journal_delete jid e) = e_ready_ct e"
  "e_urgent_ct (journal_delete jid e) = e_urgent_ct e"
  "e_reserved_ct (journal_delete jid e) = e_reserved_ct e"
  "e_buried_ct (journal_delete jid e) = e_buried_ct e"
  "e_delayed_ct (journal_delete jid e) = e_delayed_ct e"
  "e_waiting_ct (journal_delete jid e) = e_waiting_ct e"
  "e_total_jobs_ct (journal_delete jid e) = e_total_jobs_ct e"
  "e_timeout_ct (journal_delete jid e) = e_timeout_ct e"
  "e_cur_conns (journal_delete jid e) = e_cur_conns e"
  "e_tot_conns (journal_delete jid e) = e_tot_conns e"
  "e_cur_producers (journal_delete jid e) = e_cur_producers e"
  "e_cur_workers (journal_delete jid e) = e_cur_workers e"
  "e_ops (journal_delete jid e) = e_ops e"
  "e_binlog (journal_delete jid e) = e_binlog e"
  "e_local_conns (journal_delete jid e) = e_local_conns e"
  "tube (journal_delete jid e) = tube e"
  by (simp_all add: journal_delete_def Let_def split: option.split)

lemma insert_ready_frame [simp]:
  "e_cfg (insert_ready tid jid e) = e_cfg e"
  "e_sys (insert_ready tid jid e) = e_sys e"
  "e_start (insert_ready tid jid e) = e_start e"
  "e_draining (insert_ready tid jid e) = e_draining e"
  "e_next_job_id (insert_ready tid jid e) = e_next_job_id e"
  "e_next_list_seq (insert_ready tid jid e) = e_next_list_seq e"
  "e_free_tube_ids (insert_ready tid jid e) = e_free_tube_ids e"
  "e_tube_ids (insert_ready tid jid e) = e_tube_ids e"
  "e_tube_order (insert_ready tid jid e) = e_tube_order e"
  "e_conns (insert_ready tid jid e) = e_conns e"
  "e_conn_ticks (insert_ready tid jid e) = e_conn_ticks e"
  "e_delay_heads (insert_ready tid jid e) = e_delay_heads e"
  "e_pauses (insert_ready tid jid e) = e_pauses e"
  "e_reserved_ct (insert_ready tid jid e) = e_reserved_ct e"
  "e_buried_ct (insert_ready tid jid e) = e_buried_ct e"
  "e_delayed_ct (insert_ready tid jid e) = e_delayed_ct e"
  "e_waiting_ct (insert_ready tid jid e) = e_waiting_ct e"
  "e_total_jobs_ct (insert_ready tid jid e) = e_total_jobs_ct e"
  "e_timeout_ct (insert_ready tid jid e) = e_timeout_ct e"
  "e_cur_conns (insert_ready tid jid e) = e_cur_conns e"
  "e_tot_conns (insert_ready tid jid e) = e_tot_conns e"
  "e_cur_producers (insert_ready tid jid e) = e_cur_producers e"
  "e_cur_workers (insert_ready tid jid e) = e_cur_workers e"
  "e_ops (insert_ready tid jid e) = e_ops e"
  "e_journal (insert_ready tid jid e) = e_journal e"
  "e_binlog (insert_ready tid jid e) = e_binlog e"
  "e_local_conns (insert_ready tid jid e) = e_local_conns e"
  "length (e_tubes (insert_ready tid jid e)) = length (e_tubes e)"
  by (simp_all add: insert_ready_def Let_def split: option.split)

lemma remove_ready_frame [simp]:
  "e_cfg (remove_ready tid jid e) = e_cfg e"
  "e_sys (remove_ready tid jid e) = e_sys e"
  "e_start (remove_ready tid jid e) = e_start e"
  "e_draining (remove_ready tid jid e) = e_draining e"
  "e_next_job_id (remove_ready tid jid e) = e_next_job_id e"
  "e_jobs (remove_ready tid jid e) = e_jobs e"
  "e_next_list_seq (remove_ready tid jid e) = e_next_list_seq e"
  "e_free_tube_ids (remove_ready tid jid e) = e_free_tube_ids e"
  "e_tube_ids (remove_ready tid jid e) = e_tube_ids e"
  "e_tube_order (remove_ready tid jid e) = e_tube_order e"
  "e_conns (remove_ready tid jid e) = e_conns e"
  "e_conn_ticks (remove_ready tid jid e) = e_conn_ticks e"
  "e_delay_heads (remove_ready tid jid e) = e_delay_heads e"
  "e_pauses (remove_ready tid jid e) = e_pauses e"
  "e_reserved_ct (remove_ready tid jid e) = e_reserved_ct e"
  "e_buried_ct (remove_ready tid jid e) = e_buried_ct e"
  "e_delayed_ct (remove_ready tid jid e) = e_delayed_ct e"
  "e_waiting_ct (remove_ready tid jid e) = e_waiting_ct e"
  "e_total_jobs_ct (remove_ready tid jid e) = e_total_jobs_ct e"
  "e_timeout_ct (remove_ready tid jid e) = e_timeout_ct e"
  "e_cur_conns (remove_ready tid jid e) = e_cur_conns e"
  "e_tot_conns (remove_ready tid jid e) = e_tot_conns e"
  "e_cur_producers (remove_ready tid jid e) = e_cur_producers e"
  "e_cur_workers (remove_ready tid jid e) = e_cur_workers e"
  "e_ops (remove_ready tid jid e) = e_ops e"
  "e_journal (remove_ready tid jid e) = e_journal e"
  "e_binlog (remove_ready tid jid e) = e_binlog e"
  "e_local_conns (remove_ready tid jid e) = e_local_conns e"
  "length (e_tubes (remove_ready tid jid e)) = length (e_tubes e)"
  by (simp_all add: remove_ready_def Let_def split: option.split)

lemma insert_delayed_frame [simp]:
  "e_cfg (insert_delayed tid jid d e) = e_cfg e"
  "e_sys (insert_delayed tid jid d e) = e_sys e"
  "e_start (insert_delayed tid jid d e) = e_start e"
  "e_draining (insert_delayed tid jid d e) = e_draining e"
  "e_next_job_id (insert_delayed tid jid d e) = e_next_job_id e"
  "e_next_list_seq (insert_delayed tid jid d e) = e_next_list_seq e"
  "e_free_tube_ids (insert_delayed tid jid d e) = e_free_tube_ids e"
  "e_tube_ids (insert_delayed tid jid d e) = e_tube_ids e"
  "e_tube_order (insert_delayed tid jid d e) = e_tube_order e"
  "e_conns (insert_delayed tid jid d e) = e_conns e"
  "e_conn_ticks (insert_delayed tid jid d e) = e_conn_ticks e"
  "e_pauses (insert_delayed tid jid d e) = e_pauses e"
  "e_dispatchable (insert_delayed tid jid d e) = e_dispatchable e"
  "e_ready_ct (insert_delayed tid jid d e) = e_ready_ct e"
  "e_urgent_ct (insert_delayed tid jid d e) = e_urgent_ct e"
  "e_reserved_ct (insert_delayed tid jid d e) = e_reserved_ct e"
  "e_buried_ct (insert_delayed tid jid d e) = e_buried_ct e"
  "e_waiting_ct (insert_delayed tid jid d e) = e_waiting_ct e"
  "e_total_jobs_ct (insert_delayed tid jid d e) = e_total_jobs_ct e"
  "e_timeout_ct (insert_delayed tid jid d e) = e_timeout_ct e"
  "e_cur_conns (insert_delayed tid jid d e) = e_cur_conns e"
  "e_tot_conns (insert_delayed tid jid d e) = e_tot_conns e"
  "e_cur_producers (insert_delayed tid jid d e) = e_cur_producers e"
  "e_cur_workers (insert_delayed tid jid d e) = e_cur_workers e"
  "e_ops (insert_delayed tid jid d e) = e_ops e"
  "e_journal (insert_delayed tid jid d e) = e_journal e"
  "e_binlog (insert_delayed tid jid d e) = e_binlog e"
  "e_local_conns (insert_delayed tid jid d e) = e_local_conns e"
  "length (e_tubes (insert_delayed tid jid d e)) = length (e_tubes e)"
  by (simp_all add: insert_delayed_def Let_def split: option.split)

lemma remove_delayed_frame [simp]:
  "e_cfg (remove_delayed tid jid e) = e_cfg e"
  "e_sys (remove_delayed tid jid e) = e_sys e"
  "e_start (remove_delayed tid jid e) = e_start e"
  "e_draining (remove_delayed tid jid e) = e_draining e"
  "e_next_job_id (remove_delayed tid jid e) = e_next_job_id e"
  "e_jobs (remove_delayed tid jid e) = e_jobs e"
  "e_next_list_seq (remove_delayed tid jid e) = e_next_list_seq e"
  "e_free_tube_ids (remove_delayed tid jid e) = e_free_tube_ids e"
  "e_tube_ids (remove_delayed tid jid e) = e_tube_ids e"
  "e_tube_order (remove_delayed tid jid e) = e_tube_order e"
  "e_conns (remove_delayed tid jid e) = e_conns e"
  "e_conn_ticks (remove_delayed tid jid e) = e_conn_ticks e"
  "e_pauses (remove_delayed tid jid e) = e_pauses e"
  "e_dispatchable (remove_delayed tid jid e) = e_dispatchable e"
  "e_ready_ct (remove_delayed tid jid e) = e_ready_ct e"
  "e_urgent_ct (remove_delayed tid jid e) = e_urgent_ct e"
  "e_reserved_ct (remove_delayed tid jid e) = e_reserved_ct e"
  "e_buried_ct (remove_delayed tid jid e) = e_buried_ct e"
  "e_waiting_ct (remove_delayed tid jid e) = e_waiting_ct e"
  "e_total_jobs_ct (remove_delayed tid jid e) = e_total_jobs_ct e"
  "e_timeout_ct (remove_delayed tid jid e) = e_timeout_ct e"
  "e_cur_conns (remove_delayed tid jid e) = e_cur_conns e"
  "e_tot_conns (remove_delayed tid jid e) = e_tot_conns e"
  "e_cur_producers (remove_delayed tid jid e) = e_cur_producers e"
  "e_cur_workers (remove_delayed tid jid e) = e_cur_workers e"
  "e_ops (remove_delayed tid jid e) = e_ops e"
  "e_journal (remove_delayed tid jid e) = e_journal e"
  "e_binlog (remove_delayed tid jid e) = e_binlog e"
  "e_local_conns (remove_delayed tid jid e) = e_local_conns e"
  "length (e_tubes (remove_delayed tid jid e)) = length (e_tubes e)"
  by (simp_all add: remove_delayed_def Let_def split: option.split)

lemma insert_buried_frame [simp]:
  "e_cfg (insert_buried tid jid e) = e_cfg e"
  "e_sys (insert_buried tid jid e) = e_sys e"
  "e_start (insert_buried tid jid e) = e_start e"
  "e_draining (insert_buried tid jid e) = e_draining e"
  "e_next_job_id (insert_buried tid jid e) = e_next_job_id e"
  "e_free_tube_ids (insert_buried tid jid e) = e_free_tube_ids e"
  "e_tube_ids (insert_buried tid jid e) = e_tube_ids e"
  "e_tube_order (insert_buried tid jid e) = e_tube_order e"
  "e_conns (insert_buried tid jid e) = e_conns e"
  "e_conn_ticks (insert_buried tid jid e) = e_conn_ticks e"
  "e_delay_heads (insert_buried tid jid e) = e_delay_heads e"
  "e_pauses (insert_buried tid jid e) = e_pauses e"
  "e_dispatchable (insert_buried tid jid e) = e_dispatchable e"
  "e_ready_ct (insert_buried tid jid e) = e_ready_ct e"
  "e_urgent_ct (insert_buried tid jid e) = e_urgent_ct e"
  "e_reserved_ct (insert_buried tid jid e) = e_reserved_ct e"
  "e_delayed_ct (insert_buried tid jid e) = e_delayed_ct e"
  "e_waiting_ct (insert_buried tid jid e) = e_waiting_ct e"
  "e_total_jobs_ct (insert_buried tid jid e) = e_total_jobs_ct e"
  "e_timeout_ct (insert_buried tid jid e) = e_timeout_ct e"
  "e_cur_conns (insert_buried tid jid e) = e_cur_conns e"
  "e_tot_conns (insert_buried tid jid e) = e_tot_conns e"
  "e_cur_producers (insert_buried tid jid e) = e_cur_producers e"
  "e_cur_workers (insert_buried tid jid e) = e_cur_workers e"
  "e_ops (insert_buried tid jid e) = e_ops e"
  "e_journal (insert_buried tid jid e) = e_journal e"
  "e_binlog (insert_buried tid jid e) = e_binlog e"
  "e_local_conns (insert_buried tid jid e) = e_local_conns e"
  "length (e_tubes (insert_buried tid jid e)) = length (e_tubes e)"
  by (simp_all add: insert_buried_def Let_def split: option.split)

lemma remove_buried_frame [simp]:
  "e_cfg (snd (remove_buried tid jid e)) = e_cfg e"
  "e_sys (snd (remove_buried tid jid e)) = e_sys e"
  "e_start (snd (remove_buried tid jid e)) = e_start e"
  "e_draining (snd (remove_buried tid jid e)) = e_draining e"
  "e_next_job_id (snd (remove_buried tid jid e)) = e_next_job_id e"
  "e_jobs (snd (remove_buried tid jid e)) = e_jobs e"
  "e_next_list_seq (snd (remove_buried tid jid e)) = e_next_list_seq e"
  "e_free_tube_ids (snd (remove_buried tid jid e)) = e_free_tube_ids e"
  "e_tube_ids (snd (remove_buried tid jid e)) = e_tube_ids e"
  "e_tube_order (snd (remove_buried tid jid e)) = e_tube_order e"
  "e_conns (snd (remove_buried tid jid e)) = e_conns e"
  "e_conn_ticks (snd (remove_buried tid jid e)) = e_conn_ticks e"
  "e_delay_heads (snd (remove_buried tid jid e)) = e_delay_heads e"
  "e_pauses (snd (remove_buried tid jid e)) = e_pauses e"
  "e_dispatchable (snd (remove_buried tid jid e)) = e_dispatchable e"
  "e_ready_ct (snd (remove_buried tid jid e)) = e_ready_ct e"
  "e_urgent_ct (snd (remove_buried tid jid e)) = e_urgent_ct e"
  "e_reserved_ct (snd (remove_buried tid jid e)) = e_reserved_ct e"
  "e_delayed_ct (snd (remove_buried tid jid e)) = e_delayed_ct e"
  "e_waiting_ct (snd (remove_buried tid jid e)) = e_waiting_ct e"
  "e_total_jobs_ct (snd (remove_buried tid jid e)) = e_total_jobs_ct e"
  "e_timeout_ct (snd (remove_buried tid jid e)) = e_timeout_ct e"
  "e_cur_conns (snd (remove_buried tid jid e)) = e_cur_conns e"
  "e_tot_conns (snd (remove_buried tid jid e)) = e_tot_conns e"
  "e_cur_producers (snd (remove_buried tid jid e)) = e_cur_producers e"
  "e_cur_workers (snd (remove_buried tid jid e)) = e_cur_workers e"
  "e_ops (snd (remove_buried tid jid e)) = e_ops e"
  "e_journal (snd (remove_buried tid jid e)) = e_journal e"
  "e_binlog (snd (remove_buried tid jid e)) = e_binlog e"
  "e_local_conns (snd (remove_buried tid jid e)) = e_local_conns e"
  "length (e_tubes (snd (remove_buried tid jid e))) = length (e_tubes e)"
  by (simp_all add: remove_buried_def Let_def split: option.split)

lemma pop_buried_front_frame [simp]:
  "e_cfg (snd (pop_buried_front tid e)) = e_cfg e"
  "e_sys (snd (pop_buried_front tid e)) = e_sys e"
  "e_start (snd (pop_buried_front tid e)) = e_start e"
  "e_draining (snd (pop_buried_front tid e)) = e_draining e"
  "e_next_job_id (snd (pop_buried_front tid e)) = e_next_job_id e"
  "e_jobs (snd (pop_buried_front tid e)) = e_jobs e"
  "e_next_list_seq (snd (pop_buried_front tid e)) = e_next_list_seq e"
  "e_free_tube_ids (snd (pop_buried_front tid e)) = e_free_tube_ids e"
  "e_tube_ids (snd (pop_buried_front tid e)) = e_tube_ids e"
  "e_tube_order (snd (pop_buried_front tid e)) = e_tube_order e"
  "e_conns (snd (pop_buried_front tid e)) = e_conns e"
  "e_conn_ticks (snd (pop_buried_front tid e)) = e_conn_ticks e"
  "e_delay_heads (snd (pop_buried_front tid e)) = e_delay_heads e"
  "e_pauses (snd (pop_buried_front tid e)) = e_pauses e"
  "e_dispatchable (snd (pop_buried_front tid e)) = e_dispatchable e"
  "e_ready_ct (snd (pop_buried_front tid e)) = e_ready_ct e"
  "e_urgent_ct (snd (pop_buried_front tid e)) = e_urgent_ct e"
  "e_reserved_ct (snd (pop_buried_front tid e)) = e_reserved_ct e"
  "e_delayed_ct (snd (pop_buried_front tid e)) = e_delayed_ct e"
  "e_waiting_ct (snd (pop_buried_front tid e)) = e_waiting_ct e"
  "e_total_jobs_ct (snd (pop_buried_front tid e)) = e_total_jobs_ct e"
  "e_timeout_ct (snd (pop_buried_front tid e)) = e_timeout_ct e"
  "e_cur_conns (snd (pop_buried_front tid e)) = e_cur_conns e"
  "e_tot_conns (snd (pop_buried_front tid e)) = e_tot_conns e"
  "e_cur_producers (snd (pop_buried_front tid e)) = e_cur_producers e"
  "e_cur_workers (snd (pop_buried_front tid e)) = e_cur_workers e"
  "e_ops (snd (pop_buried_front tid e)) = e_ops e"
  "e_journal (snd (pop_buried_front tid e)) = e_journal e"
  "e_binlog (snd (pop_buried_front tid e)) = e_binlog e"
  "e_local_conns (snd (pop_buried_front tid e)) = e_local_conns e"
  "length (e_tubes (snd (pop_buried_front tid e))) = length (e_tubes e)"
  by (simp_all add: pop_buried_front_def Let_def split: option.split prod.split)

lemma do_reserve_frame [simp]:
  "e_cfg (do_reserve cid jid now e) = e_cfg e"
  "e_sys (do_reserve cid jid now e) = e_sys e"
  "e_start (do_reserve cid jid now e) = e_start e"
  "e_draining (do_reserve cid jid now e) = e_draining e"
  "e_next_job_id (do_reserve cid jid now e) = e_next_job_id e"
  "e_free_tube_ids (do_reserve cid jid now e) = e_free_tube_ids e"
  "e_tube_ids (do_reserve cid jid now e) = e_tube_ids e"
  "e_tube_order (do_reserve cid jid now e) = e_tube_order e"
  "e_delay_heads (do_reserve cid jid now e) = e_delay_heads e"
  "e_pauses (do_reserve cid jid now e) = e_pauses e"
  "e_dispatchable (do_reserve cid jid now e) = e_dispatchable e"
  "e_ready_ct (do_reserve cid jid now e) = e_ready_ct e"
  "e_urgent_ct (do_reserve cid jid now e) = e_urgent_ct e"
  "e_buried_ct (do_reserve cid jid now e) = e_buried_ct e"
  "e_delayed_ct (do_reserve cid jid now e) = e_delayed_ct e"
  "e_waiting_ct (do_reserve cid jid now e) = e_waiting_ct e"
  "e_total_jobs_ct (do_reserve cid jid now e) = e_total_jobs_ct e"
  "e_timeout_ct (do_reserve cid jid now e) = e_timeout_ct e"
  "e_cur_conns (do_reserve cid jid now e) = e_cur_conns e"
  "e_tot_conns (do_reserve cid jid now e) = e_tot_conns e"
  "e_cur_producers (do_reserve cid jid now e) = e_cur_producers e"
  "e_cur_workers (do_reserve cid jid now e) = e_cur_workers e"
  "e_ops (do_reserve cid jid now e) = e_ops e"
  "e_journal (do_reserve cid jid now e) = e_journal e"
  "e_binlog (do_reserve cid jid now e) = e_binlog e"
  "e_local_conns (do_reserve cid jid now e) = e_local_conns e"
  "length (e_tubes (do_reserve cid jid now e)) = length (e_tubes e)"
  by (simp_all add: do_reserve_def Let_def split: option.split)

lemma do_unreserve_frame [simp]:
  "e_cfg (do_unreserve cid jid e) = e_cfg e"
  "e_sys (do_unreserve cid jid e) = e_sys e"
  "e_start (do_unreserve cid jid e) = e_start e"
  "e_draining (do_unreserve cid jid e) = e_draining e"
  "e_next_job_id (do_unreserve cid jid e) = e_next_job_id e"
  "e_next_list_seq (do_unreserve cid jid e) = e_next_list_seq e"
  "e_free_tube_ids (do_unreserve cid jid e) = e_free_tube_ids e"
  "e_tube_ids (do_unreserve cid jid e) = e_tube_ids e"
  "e_tube_order (do_unreserve cid jid e) = e_tube_order e"
  "e_delay_heads (do_unreserve cid jid e) = e_delay_heads e"
  "e_pauses (do_unreserve cid jid e) = e_pauses e"
  "e_dispatchable (do_unreserve cid jid e) = e_dispatchable e"
  "e_ready_ct (do_unreserve cid jid e) = e_ready_ct e"
  "e_urgent_ct (do_unreserve cid jid e) = e_urgent_ct e"
  "e_buried_ct (do_unreserve cid jid e) = e_buried_ct e"
  "e_delayed_ct (do_unreserve cid jid e) = e_delayed_ct e"
  "e_waiting_ct (do_unreserve cid jid e) = e_waiting_ct e"
  "e_total_jobs_ct (do_unreserve cid jid e) = e_total_jobs_ct e"
  "e_timeout_ct (do_unreserve cid jid e) = e_timeout_ct e"
  "e_cur_conns (do_unreserve cid jid e) = e_cur_conns e"
  "e_tot_conns (do_unreserve cid jid e) = e_tot_conns e"
  "e_cur_producers (do_unreserve cid jid e) = e_cur_producers e"
  "e_cur_workers (do_unreserve cid jid e) = e_cur_workers e"
  "e_ops (do_unreserve cid jid e) = e_ops e"
  "e_journal (do_unreserve cid jid e) = e_journal e"
  "e_binlog (do_unreserve cid jid e) = e_binlog e"
  "e_local_conns (do_unreserve cid jid e) = e_local_conns e"
  "length (e_tubes (do_unreserve cid jid e)) = length (e_tubes e)"
  by (simp_all add: do_unreserve_def Let_def split: option.split)

lemma wait_in_tube_frame [simp]:
  "e_cfg (wait_in_tube cid tid e) = e_cfg e"
  "e_sys (wait_in_tube cid tid e) = e_sys e"
  "e_start (wait_in_tube cid tid e) = e_start e"
  "e_draining (wait_in_tube cid tid e) = e_draining e"
  "e_next_job_id (wait_in_tube cid tid e) = e_next_job_id e"
  "e_jobs (wait_in_tube cid tid e) = e_jobs e"
  "e_next_list_seq (wait_in_tube cid tid e) = e_next_list_seq e"
  "e_free_tube_ids (wait_in_tube cid tid e) = e_free_tube_ids e"
  "e_tube_ids (wait_in_tube cid tid e) = e_tube_ids e"
  "e_tube_order (wait_in_tube cid tid e) = e_tube_order e"
  "e_conns (wait_in_tube cid tid e) = e_conns e"
  "e_conn_ticks (wait_in_tube cid tid e) = e_conn_ticks e"
  "e_delay_heads (wait_in_tube cid tid e) = e_delay_heads e"
  "e_pauses (wait_in_tube cid tid e) = e_pauses e"
  "e_ready_ct (wait_in_tube cid tid e) = e_ready_ct e"
  "e_urgent_ct (wait_in_tube cid tid e) = e_urgent_ct e"
  "e_reserved_ct (wait_in_tube cid tid e) = e_reserved_ct e"
  "e_buried_ct (wait_in_tube cid tid e) = e_buried_ct e"
  "e_delayed_ct (wait_in_tube cid tid e) = e_delayed_ct e"
  "e_waiting_ct (wait_in_tube cid tid e) = e_waiting_ct e"
  "e_total_jobs_ct (wait_in_tube cid tid e) = e_total_jobs_ct e"
  "e_timeout_ct (wait_in_tube cid tid e) = e_timeout_ct e"
  "e_cur_conns (wait_in_tube cid tid e) = e_cur_conns e"
  "e_tot_conns (wait_in_tube cid tid e) = e_tot_conns e"
  "e_cur_producers (wait_in_tube cid tid e) = e_cur_producers e"
  "e_cur_workers (wait_in_tube cid tid e) = e_cur_workers e"
  "e_ops (wait_in_tube cid tid e) = e_ops e"
  "e_journal (wait_in_tube cid tid e) = e_journal e"
  "e_binlog (wait_in_tube cid tid e) = e_binlog e"
  "e_local_conns (wait_in_tube cid tid e) = e_local_conns e"
  "length (e_tubes (wait_in_tube cid tid e)) = length (e_tubes e)"
  by (simp_all add: wait_in_tube_def Let_def split: option.split)

lemma unwait_in_tube_frame [simp]:
  "e_cfg (unwait_in_tube cid tid e) = e_cfg e"
  "e_sys (unwait_in_tube cid tid e) = e_sys e"
  "e_start (unwait_in_tube cid tid e) = e_start e"
  "e_draining (unwait_in_tube cid tid e) = e_draining e"
  "e_next_job_id (unwait_in_tube cid tid e) = e_next_job_id e"
  "e_jobs (unwait_in_tube cid tid e) = e_jobs e"
  "e_next_list_seq (unwait_in_tube cid tid e) = e_next_list_seq e"
  "e_free_tube_ids (unwait_in_tube cid tid e) = e_free_tube_ids e"
  "e_tube_ids (unwait_in_tube cid tid e) = e_tube_ids e"
  "e_tube_order (unwait_in_tube cid tid e) = e_tube_order e"
  "e_conns (unwait_in_tube cid tid e) = e_conns e"
  "e_conn_ticks (unwait_in_tube cid tid e) = e_conn_ticks e"
  "e_delay_heads (unwait_in_tube cid tid e) = e_delay_heads e"
  "e_pauses (unwait_in_tube cid tid e) = e_pauses e"
  "e_ready_ct (unwait_in_tube cid tid e) = e_ready_ct e"
  "e_urgent_ct (unwait_in_tube cid tid e) = e_urgent_ct e"
  "e_reserved_ct (unwait_in_tube cid tid e) = e_reserved_ct e"
  "e_buried_ct (unwait_in_tube cid tid e) = e_buried_ct e"
  "e_delayed_ct (unwait_in_tube cid tid e) = e_delayed_ct e"
  "e_waiting_ct (unwait_in_tube cid tid e) = e_waiting_ct e"
  "e_total_jobs_ct (unwait_in_tube cid tid e) = e_total_jobs_ct e"
  "e_timeout_ct (unwait_in_tube cid tid e) = e_timeout_ct e"
  "e_cur_conns (unwait_in_tube cid tid e) = e_cur_conns e"
  "e_tot_conns (unwait_in_tube cid tid e) = e_tot_conns e"
  "e_cur_producers (unwait_in_tube cid tid e) = e_cur_producers e"
  "e_cur_workers (unwait_in_tube cid tid e) = e_cur_workers e"
  "e_ops (unwait_in_tube cid tid e) = e_ops e"
  "e_journal (unwait_in_tube cid tid e) = e_journal e"
  "e_binlog (unwait_in_tube cid tid e) = e_binlog e"
  "e_local_conns (unwait_in_tube cid tid e) = e_local_conns e"
  "length (e_tubes (unwait_in_tube cid tid e)) = length (e_tubes e)"
  by (simp_all add: unwait_in_tube_def Let_def split: option.split)

lemma connsetproducer_frame [simp]:
  "e_cfg (connsetproducer cid e) = e_cfg e"
  "e_sys (connsetproducer cid e) = e_sys e"
  "e_start (connsetproducer cid e) = e_start e"
  "e_draining (connsetproducer cid e) = e_draining e"
  "e_next_job_id (connsetproducer cid e) = e_next_job_id e"
  "e_jobs (connsetproducer cid e) = e_jobs e"
  "e_next_list_seq (connsetproducer cid e) = e_next_list_seq e"
  "e_tubes (connsetproducer cid e) = e_tubes e"
  "e_free_tube_ids (connsetproducer cid e) = e_free_tube_ids e"
  "e_tube_ids (connsetproducer cid e) = e_tube_ids e"
  "e_tube_order (connsetproducer cid e) = e_tube_order e"
  "e_conn_ticks (connsetproducer cid e) = e_conn_ticks e"
  "e_delay_heads (connsetproducer cid e) = e_delay_heads e"
  "e_pauses (connsetproducer cid e) = e_pauses e"
  "e_dispatchable (connsetproducer cid e) = e_dispatchable e"
  "e_ready_ct (connsetproducer cid e) = e_ready_ct e"
  "e_urgent_ct (connsetproducer cid e) = e_urgent_ct e"
  "e_reserved_ct (connsetproducer cid e) = e_reserved_ct e"
  "e_buried_ct (connsetproducer cid e) = e_buried_ct e"
  "e_delayed_ct (connsetproducer cid e) = e_delayed_ct e"
  "e_waiting_ct (connsetproducer cid e) = e_waiting_ct e"
  "e_total_jobs_ct (connsetproducer cid e) = e_total_jobs_ct e"
  "e_timeout_ct (connsetproducer cid e) = e_timeout_ct e"
  "e_cur_conns (connsetproducer cid e) = e_cur_conns e"
  "e_tot_conns (connsetproducer cid e) = e_tot_conns e"
  "e_cur_workers (connsetproducer cid e) = e_cur_workers e"
  "e_ops (connsetproducer cid e) = e_ops e"
  "e_journal (connsetproducer cid e) = e_journal e"
  "e_binlog (connsetproducer cid e) = e_binlog e"
  "e_local_conns (connsetproducer cid e) = e_local_conns e"
  "tube (connsetproducer cid e) = tube e"
  by (simp_all add: connsetproducer_def Let_def split: option.split)

lemma connsetworker_frame [simp]:
  "e_cfg (connsetworker cid e) = e_cfg e"
  "e_sys (connsetworker cid e) = e_sys e"
  "e_start (connsetworker cid e) = e_start e"
  "e_draining (connsetworker cid e) = e_draining e"
  "e_next_job_id (connsetworker cid e) = e_next_job_id e"
  "e_jobs (connsetworker cid e) = e_jobs e"
  "e_next_list_seq (connsetworker cid e) = e_next_list_seq e"
  "e_tubes (connsetworker cid e) = e_tubes e"
  "e_free_tube_ids (connsetworker cid e) = e_free_tube_ids e"
  "e_tube_ids (connsetworker cid e) = e_tube_ids e"
  "e_tube_order (connsetworker cid e) = e_tube_order e"
  "e_conn_ticks (connsetworker cid e) = e_conn_ticks e"
  "e_delay_heads (connsetworker cid e) = e_delay_heads e"
  "e_pauses (connsetworker cid e) = e_pauses e"
  "e_dispatchable (connsetworker cid e) = e_dispatchable e"
  "e_ready_ct (connsetworker cid e) = e_ready_ct e"
  "e_urgent_ct (connsetworker cid e) = e_urgent_ct e"
  "e_reserved_ct (connsetworker cid e) = e_reserved_ct e"
  "e_buried_ct (connsetworker cid e) = e_buried_ct e"
  "e_delayed_ct (connsetworker cid e) = e_delayed_ct e"
  "e_waiting_ct (connsetworker cid e) = e_waiting_ct e"
  "e_total_jobs_ct (connsetworker cid e) = e_total_jobs_ct e"
  "e_timeout_ct (connsetworker cid e) = e_timeout_ct e"
  "e_cur_conns (connsetworker cid e) = e_cur_conns e"
  "e_tot_conns (connsetworker cid e) = e_tot_conns e"
  "e_cur_producers (connsetworker cid e) = e_cur_producers e"
  "e_ops (connsetworker cid e) = e_ops e"
  "e_journal (connsetworker cid e) = e_journal e"
  "e_binlog (connsetworker cid e) = e_binlog e"
  "e_local_conns (connsetworker cid e) = e_local_conns e"
  "tube (connsetworker cid e) = tube e"
  by (simp_all add: connsetworker_def Let_def split: option.split)

lemma take_waiter_frame [simp]:
  "e_cfg (snd (take_waiter tid e)) = e_cfg e"
  "e_sys (snd (take_waiter tid e)) = e_sys e"
  "e_start (snd (take_waiter tid e)) = e_start e"
  "e_draining (snd (take_waiter tid e)) = e_draining e"
  "e_next_job_id (snd (take_waiter tid e)) = e_next_job_id e"
  "e_jobs (snd (take_waiter tid e)) = e_jobs e"
  "e_next_list_seq (snd (take_waiter tid e)) = e_next_list_seq e"
  "e_free_tube_ids (snd (take_waiter tid e)) = e_free_tube_ids e"
  "e_tube_ids (snd (take_waiter tid e)) = e_tube_ids e"
  "e_tube_order (snd (take_waiter tid e)) = e_tube_order e"
  "e_conns (snd (take_waiter tid e)) = e_conns e"
  "e_conn_ticks (snd (take_waiter tid e)) = e_conn_ticks e"
  "e_delay_heads (snd (take_waiter tid e)) = e_delay_heads e"
  "e_pauses (snd (take_waiter tid e)) = e_pauses e"
  "e_dispatchable (snd (take_waiter tid e)) = e_dispatchable e"
  "e_ready_ct (snd (take_waiter tid e)) = e_ready_ct e"
  "e_urgent_ct (snd (take_waiter tid e)) = e_urgent_ct e"
  "e_reserved_ct (snd (take_waiter tid e)) = e_reserved_ct e"
  "e_buried_ct (snd (take_waiter tid e)) = e_buried_ct e"
  "e_delayed_ct (snd (take_waiter tid e)) = e_delayed_ct e"
  "e_waiting_ct (snd (take_waiter tid e)) = e_waiting_ct e"
  "e_total_jobs_ct (snd (take_waiter tid e)) = e_total_jobs_ct e"
  "e_timeout_ct (snd (take_waiter tid e)) = e_timeout_ct e"
  "e_cur_conns (snd (take_waiter tid e)) = e_cur_conns e"
  "e_tot_conns (snd (take_waiter tid e)) = e_tot_conns e"
  "e_cur_producers (snd (take_waiter tid e)) = e_cur_producers e"
  "e_cur_workers (snd (take_waiter tid e)) = e_cur_workers e"
  "e_ops (snd (take_waiter tid e)) = e_ops e"
  "e_journal (snd (take_waiter tid e)) = e_journal e"
  "e_binlog (snd (take_waiter tid e)) = e_binlog e"
  "e_local_conns (snd (take_waiter tid e)) = e_local_conns e"
  "length (e_tubes (snd (take_waiter tid e))) = length (e_tubes e)"
  by (simp_all add: take_waiter_def Let_def split: option.split prod.split)

lemma clear_first_pause_frame [simp]:
  "e_cfg (clear_first_pause e) = e_cfg e"
  "e_sys (clear_first_pause e) = e_sys e"
  "e_start (clear_first_pause e) = e_start e"
  "e_draining (clear_first_pause e) = e_draining e"
  "e_next_job_id (clear_first_pause e) = e_next_job_id e"
  "e_jobs (clear_first_pause e) = e_jobs e"
  "e_next_list_seq (clear_first_pause e) = e_next_list_seq e"
  "e_free_tube_ids (clear_first_pause e) = e_free_tube_ids e"
  "e_tube_ids (clear_first_pause e) = e_tube_ids e"
  "e_tube_order (clear_first_pause e) = e_tube_order e"
  "e_conns (clear_first_pause e) = e_conns e"
  "e_conn_ticks (clear_first_pause e) = e_conn_ticks e"
  "e_delay_heads (clear_first_pause e) = e_delay_heads e"
  "e_dispatchable (clear_first_pause e) = e_dispatchable e"
  "e_ready_ct (clear_first_pause e) = e_ready_ct e"
  "e_urgent_ct (clear_first_pause e) = e_urgent_ct e"
  "e_reserved_ct (clear_first_pause e) = e_reserved_ct e"
  "e_buried_ct (clear_first_pause e) = e_buried_ct e"
  "e_delayed_ct (clear_first_pause e) = e_delayed_ct e"
  "e_waiting_ct (clear_first_pause e) = e_waiting_ct e"
  "e_total_jobs_ct (clear_first_pause e) = e_total_jobs_ct e"
  "e_timeout_ct (clear_first_pause e) = e_timeout_ct e"
  "e_cur_conns (clear_first_pause e) = e_cur_conns e"
  "e_tot_conns (clear_first_pause e) = e_tot_conns e"
  "e_cur_producers (clear_first_pause e) = e_cur_producers e"
  "e_cur_workers (clear_first_pause e) = e_cur_workers e"
  "e_ops (clear_first_pause e) = e_ops e"
  "e_journal (clear_first_pause e) = e_journal e"
  "e_binlog (clear_first_pause e) = e_binlog e"
  "e_local_conns (clear_first_pause e) = e_local_conns e"
  "length (e_tubes (clear_first_pause e)) = length (e_tubes e)"
  by (simp_all add: clear_first_pause_def Let_def split: option.split prod.split)

lemma fold_wait_in_tube_frame [simp]:
  "e_cfg (fold (wait_in_tube cid) ts e) = e_cfg e"
  "e_sys (fold (wait_in_tube cid) ts e) = e_sys e"
  "e_start (fold (wait_in_tube cid) ts e) = e_start e"
  "e_draining (fold (wait_in_tube cid) ts e) = e_draining e"
  "e_next_job_id (fold (wait_in_tube cid) ts e) = e_next_job_id e"
  "e_jobs (fold (wait_in_tube cid) ts e) = e_jobs e"
  "e_next_list_seq (fold (wait_in_tube cid) ts e) = e_next_list_seq e"
  "e_free_tube_ids (fold (wait_in_tube cid) ts e) = e_free_tube_ids e"
  "e_tube_ids (fold (wait_in_tube cid) ts e) = e_tube_ids e"
  "e_tube_order (fold (wait_in_tube cid) ts e) = e_tube_order e"
  "e_conns (fold (wait_in_tube cid) ts e) = e_conns e"
  "e_conn_ticks (fold (wait_in_tube cid) ts e) = e_conn_ticks e"
  "e_delay_heads (fold (wait_in_tube cid) ts e) = e_delay_heads e"
  "e_pauses (fold (wait_in_tube cid) ts e) = e_pauses e"
  "e_ready_ct (fold (wait_in_tube cid) ts e) = e_ready_ct e"
  "e_urgent_ct (fold (wait_in_tube cid) ts e) = e_urgent_ct e"
  "e_reserved_ct (fold (wait_in_tube cid) ts e) = e_reserved_ct e"
  "e_buried_ct (fold (wait_in_tube cid) ts e) = e_buried_ct e"
  "e_delayed_ct (fold (wait_in_tube cid) ts e) = e_delayed_ct e"
  "e_waiting_ct (fold (wait_in_tube cid) ts e) = e_waiting_ct e"
  "e_total_jobs_ct (fold (wait_in_tube cid) ts e) = e_total_jobs_ct e"
  "e_timeout_ct (fold (wait_in_tube cid) ts e) = e_timeout_ct e"
  "e_cur_conns (fold (wait_in_tube cid) ts e) = e_cur_conns e"
  "e_tot_conns (fold (wait_in_tube cid) ts e) = e_tot_conns e"
  "e_cur_producers (fold (wait_in_tube cid) ts e) = e_cur_producers e"
  "e_cur_workers (fold (wait_in_tube cid) ts e) = e_cur_workers e"
  "e_ops (fold (wait_in_tube cid) ts e) = e_ops e"
  "e_journal (fold (wait_in_tube cid) ts e) = e_journal e"
  "e_binlog (fold (wait_in_tube cid) ts e) = e_binlog e"
  "e_local_conns (fold (wait_in_tube cid) ts e) = e_local_conns e"
  "length (e_tubes (fold (wait_in_tube cid) ts e)) = length (e_tubes e)"
  by (induction ts arbitrary: e) simp_all

lemma fold_unwait_in_tube_frame [simp]:
  "e_cfg (fold (unwait_in_tube cid) ts e) = e_cfg e"
  "e_sys (fold (unwait_in_tube cid) ts e) = e_sys e"
  "e_start (fold (unwait_in_tube cid) ts e) = e_start e"
  "e_draining (fold (unwait_in_tube cid) ts e) = e_draining e"
  "e_next_job_id (fold (unwait_in_tube cid) ts e) = e_next_job_id e"
  "e_jobs (fold (unwait_in_tube cid) ts e) = e_jobs e"
  "e_next_list_seq (fold (unwait_in_tube cid) ts e) = e_next_list_seq e"
  "e_free_tube_ids (fold (unwait_in_tube cid) ts e) = e_free_tube_ids e"
  "e_tube_ids (fold (unwait_in_tube cid) ts e) = e_tube_ids e"
  "e_tube_order (fold (unwait_in_tube cid) ts e) = e_tube_order e"
  "e_conns (fold (unwait_in_tube cid) ts e) = e_conns e"
  "e_conn_ticks (fold (unwait_in_tube cid) ts e) = e_conn_ticks e"
  "e_delay_heads (fold (unwait_in_tube cid) ts e) = e_delay_heads e"
  "e_pauses (fold (unwait_in_tube cid) ts e) = e_pauses e"
  "e_ready_ct (fold (unwait_in_tube cid) ts e) = e_ready_ct e"
  "e_urgent_ct (fold (unwait_in_tube cid) ts e) = e_urgent_ct e"
  "e_reserved_ct (fold (unwait_in_tube cid) ts e) = e_reserved_ct e"
  "e_buried_ct (fold (unwait_in_tube cid) ts e) = e_buried_ct e"
  "e_delayed_ct (fold (unwait_in_tube cid) ts e) = e_delayed_ct e"
  "e_waiting_ct (fold (unwait_in_tube cid) ts e) = e_waiting_ct e"
  "e_total_jobs_ct (fold (unwait_in_tube cid) ts e) = e_total_jobs_ct e"
  "e_timeout_ct (fold (unwait_in_tube cid) ts e) = e_timeout_ct e"
  "e_cur_conns (fold (unwait_in_tube cid) ts e) = e_cur_conns e"
  "e_tot_conns (fold (unwait_in_tube cid) ts e) = e_tot_conns e"
  "e_cur_producers (fold (unwait_in_tube cid) ts e) = e_cur_producers e"
  "e_cur_workers (fold (unwait_in_tube cid) ts e) = e_cur_workers e"
  "e_ops (fold (unwait_in_tube cid) ts e) = e_ops e"
  "e_journal (fold (unwait_in_tube cid) ts e) = e_journal e"
  "e_binlog (fold (unwait_in_tube cid) ts e) = e_binlog e"
  "e_local_conns (fold (unwait_in_tube cid) ts e) = e_local_conns e"
  "length (e_tubes (fold (unwait_in_tube cid) ts e)) = length (e_tubes e)"
  by (induction ts arbitrary: e) simp_all

lemma enqueue_waiting_conn_frame [simp]:
  "e_cfg (enqueue_waiting_conn cid wd e) = e_cfg e"
  "e_sys (enqueue_waiting_conn cid wd e) = e_sys e"
  "e_start (enqueue_waiting_conn cid wd e) = e_start e"
  "e_draining (enqueue_waiting_conn cid wd e) = e_draining e"
  "e_next_job_id (enqueue_waiting_conn cid wd e) = e_next_job_id e"
  "e_jobs (enqueue_waiting_conn cid wd e) = e_jobs e"
  "e_next_list_seq (enqueue_waiting_conn cid wd e) = e_next_list_seq e"
  "e_free_tube_ids (enqueue_waiting_conn cid wd e) = e_free_tube_ids e"
  "e_tube_ids (enqueue_waiting_conn cid wd e) = e_tube_ids e"
  "e_tube_order (enqueue_waiting_conn cid wd e) = e_tube_order e"
  "e_delay_heads (enqueue_waiting_conn cid wd e) = e_delay_heads e"
  "e_pauses (enqueue_waiting_conn cid wd e) = e_pauses e"
  "e_ready_ct (enqueue_waiting_conn cid wd e) = e_ready_ct e"
  "e_urgent_ct (enqueue_waiting_conn cid wd e) = e_urgent_ct e"
  "e_reserved_ct (enqueue_waiting_conn cid wd e) = e_reserved_ct e"
  "e_buried_ct (enqueue_waiting_conn cid wd e) = e_buried_ct e"
  "e_delayed_ct (enqueue_waiting_conn cid wd e) = e_delayed_ct e"
  "e_total_jobs_ct (enqueue_waiting_conn cid wd e) = e_total_jobs_ct e"
  "e_timeout_ct (enqueue_waiting_conn cid wd e) = e_timeout_ct e"
  "e_cur_conns (enqueue_waiting_conn cid wd e) = e_cur_conns e"
  "e_tot_conns (enqueue_waiting_conn cid wd e) = e_tot_conns e"
  "e_cur_producers (enqueue_waiting_conn cid wd e) = e_cur_producers e"
  "e_cur_workers (enqueue_waiting_conn cid wd e) = e_cur_workers e"
  "e_ops (enqueue_waiting_conn cid wd e) = e_ops e"
  "e_journal (enqueue_waiting_conn cid wd e) = e_journal e"
  "e_binlog (enqueue_waiting_conn cid wd e) = e_binlog e"
  "e_local_conns (enqueue_waiting_conn cid wd e) = e_local_conns e"
  "length (e_tubes (enqueue_waiting_conn cid wd e)) = length (e_tubes e)"
  by (simp_all add: enqueue_waiting_conn_def Let_def split: option.split)

lemma do_remove_waiting_conn_frame [simp]:
  "e_cfg (do_remove_waiting_conn cid e) = e_cfg e"
  "e_sys (do_remove_waiting_conn cid e) = e_sys e"
  "e_start (do_remove_waiting_conn cid e) = e_start e"
  "e_draining (do_remove_waiting_conn cid e) = e_draining e"
  "e_next_job_id (do_remove_waiting_conn cid e) = e_next_job_id e"
  "e_jobs (do_remove_waiting_conn cid e) = e_jobs e"
  "e_next_list_seq (do_remove_waiting_conn cid e) = e_next_list_seq e"
  "e_free_tube_ids (do_remove_waiting_conn cid e) = e_free_tube_ids e"
  "e_tube_ids (do_remove_waiting_conn cid e) = e_tube_ids e"
  "e_tube_order (do_remove_waiting_conn cid e) = e_tube_order e"
  "e_delay_heads (do_remove_waiting_conn cid e) = e_delay_heads e"
  "e_pauses (do_remove_waiting_conn cid e) = e_pauses e"
  "e_ready_ct (do_remove_waiting_conn cid e) = e_ready_ct e"
  "e_urgent_ct (do_remove_waiting_conn cid e) = e_urgent_ct e"
  "e_reserved_ct (do_remove_waiting_conn cid e) = e_reserved_ct e"
  "e_buried_ct (do_remove_waiting_conn cid e) = e_buried_ct e"
  "e_delayed_ct (do_remove_waiting_conn cid e) = e_delayed_ct e"
  "e_total_jobs_ct (do_remove_waiting_conn cid e) = e_total_jobs_ct e"
  "e_timeout_ct (do_remove_waiting_conn cid e) = e_timeout_ct e"
  "e_cur_conns (do_remove_waiting_conn cid e) = e_cur_conns e"
  "e_tot_conns (do_remove_waiting_conn cid e) = e_tot_conns e"
  "e_cur_producers (do_remove_waiting_conn cid e) = e_cur_producers e"
  "e_cur_workers (do_remove_waiting_conn cid e) = e_cur_workers e"
  "e_ops (do_remove_waiting_conn cid e) = e_ops e"
  "e_journal (do_remove_waiting_conn cid e) = e_journal e"
  "e_binlog (do_remove_waiting_conn cid e) = e_binlog e"
  "e_local_conns (do_remove_waiting_conn cid e) = e_local_conns e"
  "length (e_tubes (do_remove_waiting_conn cid e)) = length (e_tubes e)"
  by (simp_all add: do_remove_waiting_conn_def Let_def split: option.split)

end
