(* ===== verification/Engine_Index.thy ===== *)
theory Engine_Index
  imports Engine_Frame
begin

text \<open>
  The cached-key indexes of the engine. A tube caches the deadline of its delay head and
  whether it is dispatchable, a connection caches its next tick; each cached key has an
  entry in a global ordered set (\<open>delay_heads\<close>, \<open>dispatchable\<close>, \<open>conn_ticks\<close>), and a
  \<open>refresh_*\<close> operation recomputes one object's key and moves its entry.

  \<open>keyed_index\<close> is the contract of such an index; that a refresh keeps the index exact is
  proved once and holds for the three of them by interpretation.
\<close>

section \<open>The contract\<close>

locale keyed_index =
  fixes objs :: "'s \<Rightarrow> 'i \<Rightarrow> 'o option"
    and cached :: "'o \<Rightarrow> 'k option"
    and key :: "'o \<Rightarrow> 'k option"
    and store :: "'k option \<Rightarrow> 'o \<Rightarrow> 'o"
    and index :: "'s \<Rightarrow> ('k \<times> 'i) set"
    and refresh :: "'i \<Rightarrow> 's \<Rightarrow> 's"
  assumes objs_refresh: "objs (refresh i s) = (objs s)(i := map_option (\<lambda>x. store (key x) x) (objs s i))"
    and index_refresh: "objs s i = Some x \<Longrightarrow>
      index (refresh i s) =
        (if key x = cached x then index s
         else (index s - (\<lambda>k. (k, i)) ` set_option (cached x)) \<union> (\<lambda>k. (k, i)) ` set_option (key x))"
    and index_refresh_None: "objs s i = None \<Longrightarrow> index (refresh i s) = index s"
    and cached_store: "cached (store k x) = k"
    and key_store: "key (store k x) = key x"
begin

text \<open>The index holds exactly the cached keys; the cached keys are up to date outside \<open>X\<close>.\<close>

definition exact :: "'s \<Rightarrow> bool" where
  "exact s \<longleftrightarrow> index s = {(k, i). \<exists>x. objs s i = Some x \<and> cached x = Some k}"

definition fresh :: "'i set \<Rightarrow> 's \<Rightarrow> bool" where
  "fresh X s \<longleftrightarrow> (\<forall>i x. objs s i = Some x \<longrightarrow> i \<notin> X \<longrightarrow> cached x = key x)"

lemma exact_refresh:
  assumes "exact s"
  shows "exact (refresh i s)"
proof (cases "objs s i")
  case None
  then show ?thesis
    using assms by (auto simp: exact_def objs_refresh index_refresh_None fun_upd_idem)
next
  case (Some x)
  show ?thesis
  proof (cases "key x = cached x")
    case True
    with Some assms show ?thesis
      by (auto simp: exact_def objs_refresh index_refresh cached_store)
  next
    case False
    with Some assms show ?thesis
      by (auto simp: exact_def objs_refresh index_refresh cached_store split: if_splits)
  qed
qed

lemma fresh_refresh: "fresh (insert i X) s \<Longrightarrow> fresh X (refresh i s)"
  by (auto simp: fresh_def objs_refresh cached_store key_store)

lemma fresh_refresh_same: "fresh X s \<Longrightarrow> fresh X (refresh i s)"
  by (auto simp: fresh_def objs_refresh cached_store key_store)

lemma exact_cong:
  assumes "\<And>i. map_option cached (objs s' i) = map_option cached (objs s i)"
    and "index s' = index s"
  shows "exact s' \<longleftrightarrow> exact s"
proof -
  have "(\<exists>x. objs s' i = Some x \<and> cached x = Some k) \<longleftrightarrow>
        (\<exists>x. objs s i = Some x \<and> cached x = Some k)" for i k
    using assms(1) [of i] by (cases "objs s' i"; cases "objs s i") auto
  with assms(2) show ?thesis by (simp add: exact_def)
qed

lemma exact_keys:
  "exact s \<Longrightarrow> fresh {} s \<Longrightarrow> (k, i) \<in> index s \<longleftrightarrow> (\<exists>x. objs s i = Some x \<and> key x = Some k)"
  by (auto simp: exact_def fresh_def)

end

text \<open>Where keys are times, the first entry of the index is the earliest key of all
  objects.\<close>

locale timed_index = keyed_index objs cached key store index refresh
  for objs :: "'s \<Rightarrow> 'i::linorder \<Rightarrow> 'o option"
    and cached :: "'o \<Rightarrow> 'k::linorder option"
    and key store index refresh
begin

lemma first_key:
  assumes "exact s" "fresh {} s" "finite (index s)"
  shows "map_option fst (first_of (index s)) = Some k \<longleftrightarrow>
    (\<exists>i x. objs s i = Some x \<and> key x = Some k) \<and>
    (\<forall>i x k'. objs s i = Some x \<longrightarrow> key x = Some k' \<longrightarrow> k \<le> k')"
proof -
  have "map_option fst (first_of (index s)) = Some k \<longleftrightarrow>
      (\<exists>i. (k, i) \<in> index s) \<and> (\<forall>k' i. (k', i) \<in> index s \<longrightarrow> k \<le> k')" (is "?l \<longleftrightarrow> ?r")
  proof
    assume ?l
    then obtain i where "first_of (index s) = Some (k, i)" by auto
    with first_of_SomeD [of "index s" "(k, i)"] assms(3)
    have "(k, i) \<in> index s" and le: "\<And>y. y \<in> index s \<Longrightarrow> (k, i) \<le> y" by auto
    moreover have "k \<le> k'" if "(k', i') \<in> index s" for k' i'
      using le [OF that] by auto
    ultimately show ?r by blast
  next
    assume r: ?r
    then have "index s \<noteq> {}" by auto
    then obtain k' i where f: "first_of (index s) = Some (k', i)"
      using first_of_None_iff [of "index s"] by (cases "first_of (index s)") auto
    with first_of_SomeD [of "index s" "(k', i)"] assms(3)
    have in_ix: "(k', i) \<in> index s" and le: "\<And>y. y \<in> index s \<Longrightarrow> (k', i) \<le> y" by auto
    from r obtain i' where "(k, i') \<in> index s" by blast
    from le [OF this] have "k' \<le> k" by auto
    moreover have "k \<le> k'" using r in_ix by blast
    ultimately show ?l using f by simp
  qed
  with exact_keys [OF assms(1,2)] show ?thesis by simp blast
qed

lemma first_key_None:
  assumes "exact s" "fresh {} s"
  shows "first_of (index s) = None \<longleftrightarrow> (\<forall>i x. objs s i = Some x \<longrightarrow> key x = None)"
proof -
  have "index s = {} \<longleftrightarrow> (\<forall>k i. (k, i) \<notin> index s)" by auto
  also have "\<dots> \<longleftrightarrow> (\<forall>k i x. objs s i = Some x \<longrightarrow> key x \<noteq> Some k)"
    by (simp add: exact_keys [OF assms])
  finally show ?thesis using not_Some_eq first_of_None_iff by (metis (no_types))
qed

end

section \<open>The three indexes\<close>

definition wants_dispatch :: "tube_state \<Rightarrow> bool" where
  "wants_dispatch t = (\<not> ms_is_empty (t_waiting_conns t) \<and> t_ready t \<noteq> {})"

definition delay_key :: "tube_state \<Rightarrow> nanos option" where
  "delay_key t = map_option fst (first_of (t_delayed t))"

abbreviation flag :: "bool \<Rightarrow> unit option" where
  "flag b \<equiv> if b then Some () else None"

lemma tube_refresh_dispatchable [simp]:
  "tube (refresh_dispatchable tid e) =
     (tube e)(tid := map_option (\<lambda>t. t\<lparr>t_dispatchable := wants_dispatch t\<rparr>) (tube e tid))"
  by (cases "tube e tid")
     (auto simp: refresh_dispatchable_def wants_dispatch_def Let_def fun_upd_idem)

lemma refresh_delay_head_Some:
  assumes "tube e tid = Some t"
  shows "refresh_delay_head tid e =
    (if delay_key t = t_delay_head t then e
     else tube_mut tid (\<lambda>t'. t'\<lparr>t_delay_head := delay_key t\<rparr>)
       (e\<lparr>e_delay_heads :=
          (e_delay_heads e - (\<lambda>k. (k, tid)) ` set_option (t_delay_head t))
            \<union> (\<lambda>k. (k, tid)) ` set_option (delay_key t)\<rparr>))"
  using assms unfolding refresh_delay_head_def delay_key_def [symmetric]
  by (cases "t_delay_head t"; cases "delay_key t") simp_all

lemma tube_refresh_delay_head [simp]:
  "tube (refresh_delay_head tid e) =
     (tube e)(tid := map_option (\<lambda>t. t\<lparr>t_delay_head := delay_key t\<rparr>) (tube e tid))"
  by (cases "tube e tid")
     (simp_all add: refresh_delay_head_Some, auto simp: refresh_delay_head_def fun_upd_idem)

lemma refresh_conn_tick_Some:
  assumes "e_conns e cid = Some c"
  shows "refresh_conn_tick cid e =
    (if conn_tickat c = c_tick_key c then e
     else conn_mut cid (\<lambda>c'. c'\<lparr>c_tick_key := conn_tickat c\<rparr>)
       (e\<lparr>e_conn_ticks :=
          (e_conn_ticks e - (\<lambda>k. (k, cid)) ` set_option (c_tick_key c))
            \<union> (\<lambda>k. (k, cid)) ` set_option (conn_tickat c)\<rparr>))"
  using assms unfolding refresh_conn_tick_def
  by (cases "c_tick_key c"; cases "conn_tickat c") simp_all

lemma e_conns_refresh_conn_tick [simp]:
  "e_conns (refresh_conn_tick cid e) =
     (e_conns e)(cid := map_option (\<lambda>c. c\<lparr>c_tick_key := conn_tickat c\<rparr>) (e_conns e cid))"
  by (cases "e_conns e cid")
     (simp_all add: refresh_conn_tick_Some, auto simp: refresh_conn_tick_def fun_upd_idem)

interpretation disp: keyed_index tube "\<lambda>t. flag (t_dispatchable t)" "\<lambda>t. flag (wants_dispatch t)"
  "\<lambda>k. t_dispatchable_update (\<lambda>_. k \<noteq> None)" "\<lambda>e. Pair () ` e_dispatchable e" refresh_dispatchable
proof
  fix e tid t
  assume t: "tube e tid = Some t"
  show "Pair () ` e_dispatchable (refresh_dispatchable tid e) =
    (if flag (wants_dispatch t) = flag (t_dispatchable t) then Pair () ` e_dispatchable e
     else Pair () ` e_dispatchable e - (\<lambda>k. (k, tid)) ` set_option (flag (t_dispatchable t)) \<union>
       (\<lambda>k. (k, tid)) ` set_option (flag (wants_dispatch t)))"
    using t by (auto simp: refresh_dispatchable_def wants_dispatch_def Let_def)
next
  fix e tid
  show "tube (refresh_dispatchable tid e) = (tube e)(tid := map_option
    (\<lambda>x. t_dispatchable_update (\<lambda>_. flag (wants_dispatch x) \<noteq> None) x) (tube e tid))"
    by (simp, rule arg_cong [where f = "\<lambda>x. (tube e)(tid := x)"])
       (auto intro: option.map_cong0)
next
  show "tube e tid = None \<Longrightarrow>
    Pair () ` e_dispatchable (refresh_dispatchable tid e) = Pair () ` e_dispatchable e" for e tid
    by (simp add: refresh_dispatchable_def)
next
  show "flag (t_dispatchable (t_dispatchable_update (\<lambda>_. k \<noteq> None) x)) = k" for k x
    by (cases k) auto
qed (auto simp: wants_dispatch_def)

interpretation dly: timed_index tube t_delay_head delay_key
  "\<lambda>k. t_delay_head_update (\<lambda>_. k)" e_delay_heads refresh_delay_head
proof
  fix e tid t
  assume t: "tube e tid = Some t"
  show "e_delay_heads (refresh_delay_head tid e) =
    (if delay_key t = t_delay_head t then e_delay_heads e
     else e_delay_heads e - (\<lambda>k. (k, tid)) ` set_option (t_delay_head t) \<union>
       (\<lambda>k. (k, tid)) ` set_option (delay_key t))"
    using t by (simp add: refresh_delay_head_Some)
next
  show "tube e tid = None \<Longrightarrow> e_delay_heads (refresh_delay_head tid e) = e_delay_heads e" for e tid
    by (simp add: refresh_delay_head_def)
qed (simp_all add: delay_key_def)

interpretation tik: timed_index e_conns c_tick_key conn_tickat
  "\<lambda>k. c_tick_key_update (\<lambda>_. k)" e_conn_ticks refresh_conn_tick
proof
  fix e :: engine and cid c
  assume c: "e_conns e cid = Some c"
  show "e_conn_ticks (refresh_conn_tick cid e) =
    (if conn_tickat c = c_tick_key c then e_conn_ticks e
     else e_conn_ticks e - (\<lambda>k. (k, cid)) ` set_option (c_tick_key c) \<union>
       (\<lambda>k. (k, cid)) ` set_option (conn_tickat c))"
    using c by (simp add: refresh_conn_tick_Some)
next
  show "conn_tickat (c_tick_key_update (\<lambda>_. k) x) = conn_tickat x" for k x
    by (simp add: conn_tickat_def soonest_reserved_def Let_def split: option.split)
next
  show "e_conns e cid = None \<Longrightarrow> e_conn_ticks (refresh_conn_tick cid e) = e_conn_ticks e"
    for e :: engine and cid
    by (simp add: refresh_conn_tick_def)
qed simp_all

end
