(* ===== verification/Engine_Inv.thy ===== *)
theory Engine_Inv
  imports Engine_Index
begin

text \<open>
  The representation invariant of the engine, in layers: the tube slab, the references that
  keep tubes alive, the waiting queues, the jobs and the four places a job can be in, the
  counters and the indexes. It says that every index and counter equals what \<open>validate\<close>
  would recompute from jobs, tubes and connections.

  Three parameters describe the states in the middle of an operation. \<open>L\<close> holds the jobs in
  limbo: taken out of one queue and not yet put in another. \<open>W\<close> holds the pairs of a waiting
  connection and a tube whose queue it has already left. \<open>G\<close> holds the tubes that may have
  lost their last reference and are about to be collected.
\<close>

section \<open>Layers\<close>

text \<open>The jobs in a given state, limbo left out.\<close>

definition jobs_st :: "job_id set \<Rightarrow> engine \<Rightarrow> job_state \<Rightarrow> (job_id \<times> job_rec) set" where
  "jobs_st L e st = {(i, j). e_jobs e i = Some j \<and> i \<notin> L \<and> j_state j = st}"

definition slab_ok :: "engine \<Rightarrow> bool" where
  "slab_ok e \<longleftrightarrow>
     (\<exists>t. tube e DEFAULT_TUBE = Some t \<and> t_name t = default_tube \<and> t_pos t = 0) \<and>
     (\<forall>tid t. tube e tid = Some t \<longrightarrow>
        e_tube_ids e (t_name t) = Some tid \<and> nth_opt (ms_items (e_tube_order e)) (t_pos t) = Some tid) \<and>
     (\<forall>n tid. e_tube_ids e n = Some tid \<longrightarrow> (\<exists>t. tube e tid = Some t \<and> t_name t = n)) \<and>
     (\<forall>tid \<in> set (ms_items (e_tube_order e)). tube e tid \<noteq> None) \<and>
     distinct (ms_items (e_tube_order e)) \<and>
     distinct (e_free_tube_ids e) \<and>
     set (e_free_tube_ids e) = {tid. tid < length (e_tubes e) \<and> tube e tid = None}"

definition users :: "engine \<Rightarrow> tube_id \<Rightarrow> conn_id set" where
  "users e tid = {cid. \<exists>c. e_conns e cid = Some c \<and> c_use_tube c = tid}"

definition watchers :: "engine \<Rightarrow> tube_id \<Rightarrow> conn_id set" where
  "watchers e tid = {cid. \<exists>c. e_conns e cid = Some c \<and> tid \<in> set (ms_items (c_watch c))}"

definition tube_jobs :: "engine \<Rightarrow> tube_id \<Rightarrow> job_id set" where
  "tube_jobs e tid = {i. \<exists>j. e_jobs e i = Some j \<and> j_tube j = tid}"

definition refs_ok :: "tube_id set \<Rightarrow> engine \<Rightarrow> bool" where
  "refs_ok G e \<longleftrightarrow>
     card (dom (e_conns e)) < 2 ^ 32 \<and>
     (\<forall>cid c. e_conns e cid = Some c \<longrightarrow>
        tube e (c_use_tube c) \<noteq> None \<and>
        distinct (ms_items (c_watch c)) \<and> (\<forall>tid \<in> set (ms_items (c_watch c)). tube e tid \<noteq> None)) \<and>
     (\<forall>tid t. tube e tid = Some t \<longrightarrow>
        t_using_ct t = of_nat (card (users e tid)) \<and>
        t_watching_ct t = of_nat (card (watchers e tid)) \<and>
        t_job_ref_ct t = of_nat (card (tube_jobs e tid)) \<and>
        (tid = DEFAULT_TUBE \<or> tid \<in> G \<or> users e tid \<noteq> {} \<or> watchers e tid \<noteq> {} \<or> tube_jobs e tid \<noteq> {}))"

definition waiting_conns :: "engine \<Rightarrow> conn_id set" where
  "waiting_conns e = {cid. \<exists>c. e_conns e cid = Some c \<and> c_waiting c}"

definition waiters :: "engine \<Rightarrow> tube_id \<Rightarrow> conn_id set" where
  "waiters e tid = waiting_conns e \<inter> watchers e tid"

definition wait_ok :: "(conn_id \<times> tube_id) set \<Rightarrow> engine \<Rightarrow> bool" where
  "wait_ok W e \<longleftrightarrow>
     (\<forall>cid c. e_conns e cid = Some c \<longrightarrow> \<not> c_waiting c \<longrightarrow> c_wait_deadline c = None) \<and>
     (\<forall>tid t. tube e tid = Some t \<longrightarrow>
        distinct (ms_items (t_waiting_conns t)) \<and>
        set (ms_items (t_waiting_conns t)) = {cid \<in> waiters e tid. (cid, tid) \<notin> W} \<and>
        s_waiting_ct (t_stat t) = of_nat (card (waiters e tid))) \<and>
     e_waiting_ct e = of_nat (card (waiting_conns e))"

definition jobs_ok :: "job_id set \<Rightarrow> engine \<Rightarrow> bool" where
  "jobs_ok L e \<longleftrightarrow>
     1 \<le> e_next_job_id e \<and> L \<subseteq> dom (e_jobs e) \<and>
     (\<forall>i j. e_jobs e i = Some j \<longrightarrow>
        j_id j = i \<and> i < e_next_job_id e \<and> 1 \<le> j_ttr j \<and> tube e (j_tube j) \<noteq> None \<and>
        (j_reserver j \<noteq> None \<longleftrightarrow> i \<notin> L \<and> j_state j = Reserved) \<and>
        (\<forall>cid. j_reserver j = Some cid \<longrightarrow> e_conns e cid \<noteq> None))"

text \<open>Reserved and buried jobs carry distinct list keys below the next one.\<close>

definition keyed_jobs :: "job_id set \<Rightarrow> engine \<Rightarrow> (job_id \<times> job_rec) set" where
  "keyed_jobs L e = jobs_st L e Reserved \<union> jobs_st L e Buried"

definition seq_ok :: "job_id set \<Rightarrow> engine \<Rightarrow> bool" where
  "seq_ok L e \<longleftrightarrow>
     (\<forall>x \<in> keyed_jobs L e. j_list_seq (snd x) < e_next_list_seq e) \<and>
     inj_on (\<lambda>x. j_list_seq (snd x)) (keyed_jobs L e)"

definition pending_id :: "engine \<Rightarrow> conn_id \<Rightarrow> job_id option" where
  "pending_id e cid = e_conns e cid \<bind> c_pending_put \<bind> pp_id"

definition pending_ok :: "engine \<Rightarrow> bool" where
  "pending_ok e \<longleftrightarrow>
     (\<forall>cid i. pending_id e cid = Some i \<longrightarrow> i < e_next_job_id e \<and> e_jobs e i = None) \<and>
     (\<forall>cid cid' i. pending_id e cid = Some i \<longrightarrow> pending_id e cid' = Some i \<longrightarrow> cid = cid')"

text \<open>The four places of a job, each with the counters that belong to it.\<close>

definition jobs_in :: "job_id set \<Rightarrow> engine \<Rightarrow> job_state \<Rightarrow> (job_rec \<Rightarrow> bool) \<Rightarrow> job_id set" where
  "jobs_in L e st P = {i. \<exists>j. (i, j) \<in> jobs_st L e st \<and> P j}"

definition urgent :: "job_rec \<Rightarrow> bool" where
  "urgent j \<longleftrightarrow> j_pri j < URGENT_THRESHOLD"

definition ready_ok :: "job_id set \<Rightarrow> engine \<Rightarrow> bool" where
  "ready_ok L e \<longleftrightarrow>
     (\<forall>tid t. tube e tid = Some t \<longrightarrow>
        (\<forall>p i. (p, i) \<in> t_ready t \<longleftrightarrow>
           (\<exists>j. (i, j) \<in> jobs_st L e Ready \<and> j_tube j = tid \<and> j_pri j = p)) \<and>
        s_urgent_ct (t_stat t) = of_nat (card (jobs_in L e Ready (\<lambda>j. j_tube j = tid \<and> urgent j)))) \<and>
     e_ready_ct e = of_nat (card (jobs_in L e Ready (\<lambda>j. True))) \<and>
     e_urgent_ct e = of_nat (card (jobs_in L e Ready urgent))"

definition delayed_ok :: "job_id set \<Rightarrow> engine \<Rightarrow> bool" where
  "delayed_ok L e \<longleftrightarrow>
     (\<forall>tid t. tube e tid = Some t \<longrightarrow>
        (\<forall>d i. (d, i) \<in> t_delayed t \<longleftrightarrow>
           (\<exists>j. (i, j) \<in> jobs_st L e Delayed \<and> j_tube j = tid \<and> j_deadline_at j = d))) \<and>
     e_delayed_ct e = of_nat (card (jobs_in L e Delayed (\<lambda>j. True)))"

definition buried_ok :: "job_id set \<Rightarrow> engine \<Rightarrow> bool" where
  "buried_ok L e \<longleftrightarrow>
     (\<forall>tid t. tube e tid = Some t \<longrightarrow>
        (\<forall>q i. t_buried t q = Some i \<longleftrightarrow>
           (\<exists>j. (i, j) \<in> jobs_st L e Buried \<and> j_tube j = tid \<and> j_list_seq j = q)) \<and>
        s_buried_ct (t_stat t) = of_nat (card (jobs_in L e Buried (\<lambda>j. j_tube j = tid)))) \<and>
     e_buried_ct e = of_nat (card (jobs_in L e Buried (\<lambda>j. True)))"

definition reserved_ok :: "job_id set \<Rightarrow> engine \<Rightarrow> bool" where
  "reserved_ok L e \<longleftrightarrow>
     (\<forall>cid c. e_conns e cid = Some c \<longrightarrow>
        (\<forall>q i. c_reserved c q = Some i \<longleftrightarrow>
           (\<exists>j. (i, j) \<in> jobs_st L e Reserved \<and> j_reserver j = Some cid \<and> j_list_seq j = q)) \<and>
        (\<forall>d i. (d, i) \<in> c_reserved_by_deadline c \<longleftrightarrow>
           (\<exists>j. (i, j) \<in> jobs_st L e Reserved \<and> j_reserver j = Some cid \<and> j_deadline_at j = d))) \<and>
     (\<forall>tid t. tube e tid = Some t \<longrightarrow>
        s_reserved_ct (t_stat t) = of_nat (card (jobs_in L e Reserved (\<lambda>j. j_tube j = tid)))) \<and>
     e_reserved_ct e = of_nat (card (jobs_in L e Reserved (\<lambda>j. True)))"

definition pauses_ok :: "engine \<Rightarrow> bool" where
  "pauses_ok e \<longleftrightarrow>
     e_pauses e = {(d, tid). \<exists>t. tube e tid = Some t \<and> t_pause t > 0 \<and> t_unpause_at t = d}"

text \<open>The indexes are exact, and every cached key but those of the tubes in \<open>X\<close> and the
  connections in \<open>Y\<close> is up to date.\<close>

definition index_ok :: "engine \<Rightarrow> bool" where
  "index_ok e \<longleftrightarrow> disp.exact e \<and> dly.exact e \<and> tik.exact e \<and>
     disp.fresh {} e \<and> dly.fresh {} e \<and> tik.fresh {} e \<and> pauses_ok e"

definition conn_counts_ok :: "engine \<Rightarrow> bool" where
  "conn_counts_ok e \<longleftrightarrow>
     e_cur_conns e = of_nat (card (dom (e_conns e))) \<and>
     e_cur_producers e = of_nat (card {cid. \<exists>c. e_conns e cid = Some c \<and> c_is_producer c}) \<and>
     e_cur_workers e = of_nat (card {cid. \<exists>c. e_conns e cid = Some c \<and> c_is_worker c})"

definition inv :: "job_id set \<Rightarrow> (conn_id \<times> tube_id) set \<Rightarrow> tube_id set \<Rightarrow> engine \<Rightarrow> bool" where
  "inv L W G e \<longleftrightarrow>
     slab_ok e \<and> refs_ok G e \<and> wait_ok W e \<and> jobs_ok L e \<and> seq_ok L e \<and> pending_ok e \<and>
     ready_ok L e \<and> delayed_ok L e \<and> buried_ok L e \<and> reserved_ok L e \<and> index_ok e \<and>
     conn_counts_ok e"

section \<open>Frame rules\<close>

text \<open>A layer reads only some fields of each tube, connection and job. \<open>tv pr e\<close>, \<open>cv pr e\<close>
  and \<open>jv pr e\<close> are the three maps seen through a projection; a layer carries over to any
  engine that looks the same through the projections it reads.\<close>

definition tv :: "(tube_state \<Rightarrow> 'a) \<Rightarrow> engine \<Rightarrow> tube_id \<Rightarrow> 'a option" where
  "tv pr e x = map_option pr (tube e x)"

definition cv :: "(conn_state \<Rightarrow> 'a) \<Rightarrow> engine \<Rightarrow> conn_id \<Rightarrow> 'a option" where
  "cv pr e x = map_option pr (e_conns e x)"

definition jv :: "(job_rec \<Rightarrow> 'a) \<Rightarrow> engine \<Rightarrow> job_id \<Rightarrow> 'a option" where
  "jv pr e x = map_option pr (e_jobs e x)"

lemma tv_SomeD: "tv pr e' = tv pr e \<Longrightarrow> tube e' x = Some t' \<Longrightarrow> \<exists>t. tube e x = Some t \<and> pr t = pr t'"
  by (drule fun_cong [where x = x], cases "tube e x") (auto simp: tv_def)

lemma cv_SomeD: "cv pr e' = cv pr e \<Longrightarrow> e_conns e' x = Some c' \<Longrightarrow> \<exists>c. e_conns e x = Some c \<and> pr c = pr c'"
  by (drule fun_cong [where x = x], cases "e_conns e x") (auto simp: cv_def)

lemma jv_SomeD: "jv pr e' = jv pr e \<Longrightarrow> e_jobs e' x = Some j' \<Longrightarrow> \<exists>j. e_jobs e x = Some j \<and> pr j = pr j'"
  by (drule fun_cong [where x = x], cases "e_jobs e x") (auto simp: jv_def)

lemma tv2_SomeD:
  "tv pr e' = tv pr e \<Longrightarrow> tv qr e' = tv qr e \<Longrightarrow> tube e' x = Some t' \<Longrightarrow>
   \<exists>t. tube e x = Some t \<and> pr t = pr t' \<and> qr t = qr t'"
  using tv_SomeD [of pr e' e x t'] tv_SomeD [of qr e' e x t'] by auto

lemma cv2_SomeD:
  "cv pr e' = cv pr e \<Longrightarrow> cv qr e' = cv qr e \<Longrightarrow> e_conns e' x = Some c' \<Longrightarrow>
   \<exists>c. e_conns e x = Some c \<and> pr c = pr c' \<and> qr c = qr c'"
  using cv_SomeD [of pr e' e x c'] cv_SomeD [of qr e' e x c'] by auto

lemma tv_None: "tv pr e' = tv pr e \<Longrightarrow> tube e' x = None \<longleftrightarrow> tube e x = None"
  by (drule fun_cong [where x = x]) (auto simp: tv_def)

lemma cv_None: "cv pr e' = cv pr e \<Longrightarrow> e_conns e' x = None \<longleftrightarrow> e_conns e x = None"
  by (drule fun_cong [where x = x]) (auto simp: cv_def)

lemma cv_dom: "cv pr e' = cv pr e \<Longrightarrow> dom (e_conns e') = dom (e_conns e)"
  using cv_None [of pr e' e] by (simp add: dom_def)

lemma conns_cong:
  assumes "cv pr e' = cv pr e"
  shows "{x. \<exists>c. e_conns e' x = Some c \<and> P (pr c)} = {x. \<exists>c. e_conns e x = Some c \<and> P (pr c)}"
proof -
  have "(\<exists>c. e_conns e' x = Some c \<and> P (pr c)) \<longleftrightarrow> (\<exists>c. e_conns e x = Some c \<and> P (pr c))" for x
    using cv_SomeD [OF assms] cv_SomeD [OF assms [symmetric]] by metis
  then show ?thesis by simp
qed

lemma users_cong: "cv c_use_tube e' = cv c_use_tube e \<Longrightarrow> users e' tid = users e tid"
  unfolding users_def by (rule conns_cong)

lemma watchers_cong: "cv c_watch e' = cv c_watch e \<Longrightarrow> watchers e' tid = watchers e tid"
  unfolding watchers_def by (rule conns_cong)

lemma waiting_conns_cong: "cv c_waiting e' = cv c_waiting e \<Longrightarrow> waiting_conns e' = waiting_conns e"
  unfolding waiting_conns_def by (rule conns_cong)

lemma tube_jobs_cong: "jv j_tube e' = jv j_tube e \<Longrightarrow> tube_jobs e' tid = tube_jobs e tid"
  unfolding tube_jobs_def
  using jv_SomeD [of j_tube e' e] jv_SomeD [of j_tube e e'] by (simp add: set_eq_iff) metis

lemma slab_tubeD:
  "slab_ok e \<Longrightarrow> tube e tid = Some t \<Longrightarrow>
   e_tube_ids e (t_name t) = Some tid \<and> nth_opt (ms_items (e_tube_order e)) (t_pos t) = Some tid"
  by (simp add: slab_ok_def)

lemma slab_idD: "slab_ok e \<Longrightarrow> e_tube_ids e n = Some tid \<Longrightarrow> \<exists>t. tube e tid = Some t \<and> t_name t = n"
  by (simp add: slab_ok_def)

lemma slab_defaultD:
  "slab_ok e \<Longrightarrow> \<exists>t. tube e DEFAULT_TUBE = Some t \<and> t_name t = default_tube \<and> t_pos t = 0"
  by (simp add: slab_ok_def)

lemma slab_frame:
  assumes ok: "slab_ok e"
    and n: "tv t_name e' = tv t_name e" and p: "tv t_pos e' = tv t_pos e"
    and eq: "e_tube_ids e' = e_tube_ids e" "e_tube_order e' = e_tube_order e"
      "e_free_tube_ids e' = e_free_tube_ids e" "length (e_tubes e') = length (e_tubes e)"
  shows "slab_ok e'"
proof -
  have "e_tube_ids e (t_name t) = Some tid \<and>
      nth_opt (ms_items (e_tube_order e)) (t_pos t) = Some tid" if "tube e' tid = Some t" for tid t
    using tv2_SomeD [OF n p that] slab_tubeD [OF ok] by metis
  moreover have "\<exists>t. tube e' tid = Some t \<and> t_name t = nm" if nm: "e_tube_ids e nm = Some tid" for nm tid
    using slab_idD [OF ok nm] tv_SomeD [OF n [symmetric], of tid] by metis
  moreover have "\<exists>t. tube e' DEFAULT_TUBE = Some t \<and> t_name t = default_tube \<and> t_pos t = 0"
    using slab_defaultD [OF ok] tv2_SomeD [OF n [symmetric] p [symmetric], of DEFAULT_TUBE] by metis
  ultimately show ?thesis
    using ok eq by (simp add: slab_ok_def tv_None [OF n])
qed

lemma refs_frame:
  assumes ok: "refs_ok G e"
    and u: "tv t_using_ct e' = tv t_using_ct e" and w: "tv t_watching_ct e' = tv t_watching_ct e"
    and r: "tv t_job_ref_ct e' = tv t_job_ref_ct e"
    and c: "cv c_use_tube e' = cv c_use_tube e" "cv c_watch e' = cv c_watch e"
    and j: "jv j_tube e' = jv j_tube e"
  shows "refs_ok G e'"
proof -
  note cong = users_cong [OF c(1)] watchers_cong [OF c(2)] tube_jobs_cong [OF j] cv_dom [OF c(1)]
    tv_None [OF u]
  have "tube e (c_use_tube k) \<noteq> None \<and>
      distinct (ms_items (c_watch k)) \<and> (\<forall>tid \<in> set (ms_items (c_watch k)). tube e tid \<noteq> None)"
    if "e_conns e' cid = Some k" for cid k
    using cv2_SomeD [OF c that] ok unfolding refs_ok_def by metis
  moreover have "t_using_ct t = of_nat (card (users e tid)) \<and>
        t_watching_ct t = of_nat (card (watchers e tid)) \<and>
        t_job_ref_ct t = of_nat (card (tube_jobs e tid)) \<and>
        (tid = DEFAULT_TUBE \<or> tid \<in> G \<or> users e tid \<noteq> {} \<or> watchers e tid \<noteq> {} \<or> tube_jobs e tid \<noteq> {})"
    if "tube e' tid = Some t" for tid t
  proof -
    from tv2_SomeD [OF u w that] tv_SomeD [OF r that] obtain t' where t':
      "tube e tid = Some t'" "t_using_ct t' = t_using_ct t" "t_watching_ct t' = t_watching_ct t"
      "t_job_ref_ct t' = t_job_ref_ct t" by auto
    with ok show ?thesis unfolding refs_ok_def by metis
  qed
  ultimately show ?thesis
    using ok by (simp add: refs_ok_def cong)
qed

lemma wait_tubeD:
  "wait_ok W e \<Longrightarrow> tube e tid = Some t \<Longrightarrow>
   distinct (ms_items (t_waiting_conns t)) \<and>
   set (ms_items (t_waiting_conns t)) = {cid \<in> waiters e tid. (cid, tid) \<notin> W} \<and>
   s_waiting_ct (t_stat t) = of_nat (card (waiters e tid))"
  by (simp add: wait_ok_def)

lemma wait_connD:
  "wait_ok W e \<Longrightarrow> e_conns e cid = Some c \<Longrightarrow> \<not> c_waiting c \<Longrightarrow> c_wait_deadline c = None"
  by (simp add: wait_ok_def)

lemma wait_frame:
  assumes ok: "wait_ok W e"
    and t: "tv t_waiting_conns e' = tv t_waiting_conns e"
      "tv (\<lambda>t. s_waiting_ct (t_stat t)) e' = tv (\<lambda>t. s_waiting_ct (t_stat t)) e"
    and c: "cv c_waiting e' = cv c_waiting e" "cv c_watch e' = cv c_watch e"
      "cv c_wait_deadline e' = cv c_wait_deadline e"
    and "e_waiting_ct e' = e_waiting_ct e"
  shows "wait_ok W e'"
proof -
  have w: "waiters e' tid = waiters e tid" for tid
    by (simp add: waiters_def watchers_cong [OF c(2)] waiting_conns_cong [OF c(1)])
  have "c_wait_deadline k = None" if "e_conns e' cid = Some k" "\<not> c_waiting k" for cid k
    using cv2_SomeD [OF c(1,3) that(1)] that(2) wait_connD [OF ok] by metis
  moreover have "distinct (ms_items (t_waiting_conns t)) \<and>
        set (ms_items (t_waiting_conns t)) = {cid \<in> waiters e tid. (cid, tid) \<notin> W} \<and>
        s_waiting_ct (t_stat t) = of_nat (card (waiters e tid))" if "tube e' tid = Some t" for tid t
    using tv2_SomeD [OF t that] wait_tubeD [OF ok, of tid] by auto
  ultimately show ?thesis
    using ok assms(7) by (simp add: wait_ok_def w waiting_conns_cong [OF c(1)])
qed

lemma pending_frame:
  assumes "pending_ok e" "cv c_pending_put e' = cv c_pending_put e" "dom (e_jobs e') = dom (e_jobs e)"
    "e_next_job_id e' = e_next_job_id e"
  shows "pending_ok e'"
proof -
  have "pending_id f cid = cv c_pending_put f cid \<bind> (\<lambda>p. p) \<bind> pp_id" for f cid
    by (cases "e_conns f cid") (auto simp: pending_id_def cv_def)
  with assms(2) have "pending_id e' = pending_id e" by (simp add: fun_eq_iff)
  moreover have "e_jobs e' i = None \<longleftrightarrow> e_jobs e i = None" for i
    using assms(3) by (metis domIff)
  ultimately show ?thesis using assms by (simp add: pending_ok_def)
qed

lemma jobs_in_cong: "jobs_st L' e' st = jobs_st L e st \<Longrightarrow> jobs_in L' e' st P = jobs_in L e st P"
  by (simp add: jobs_in_def)

lemma ready_tubeD:
  "ready_ok L e \<Longrightarrow> tube e tid = Some t \<Longrightarrow>
   (\<forall>p i. (p, i) \<in> t_ready t \<longleftrightarrow>
      (\<exists>j. (i, j) \<in> jobs_st L e Ready \<and> j_tube j = tid \<and> j_pri j = p)) \<and>
   s_urgent_ct (t_stat t) = of_nat (card (jobs_in L e Ready (\<lambda>j. j_tube j = tid \<and> urgent j)))"
  by (simp add: ready_ok_def)

lemma ready_frame:
  assumes ok: "ready_ok L e" and s: "jobs_st L' e' Ready = jobs_st L e Ready"
    and t: "tv t_ready e' = tv t_ready e"
      "tv (\<lambda>t. s_urgent_ct (t_stat t)) e' = tv (\<lambda>t. s_urgent_ct (t_stat t)) e"
    and "e_ready_ct e' = e_ready_ct e" "e_urgent_ct e' = e_urgent_ct e"
  shows "ready_ok L' e'"
proof -
  have "(\<forall>p i. (p, i) \<in> t_ready t \<longleftrightarrow>
           (\<exists>j. (i, j) \<in> jobs_st L e Ready \<and> j_tube j = tid \<and> j_pri j = p)) \<and>
        s_urgent_ct (t_stat t) = of_nat (card (jobs_in L e Ready (\<lambda>j. j_tube j = tid \<and> urgent j)))"
    if "tube e' tid = Some t" for tid t
    using tv2_SomeD [OF t that] ready_tubeD [OF ok, of tid] by auto
  with ok assms(5,6) show ?thesis by (simp add: ready_ok_def s jobs_in_cong [OF s])
qed

lemma delayed_tubeD:
  "delayed_ok L e \<Longrightarrow> tube e tid = Some t \<Longrightarrow>
   \<forall>d i. (d, i) \<in> t_delayed t \<longleftrightarrow>
      (\<exists>j. (i, j) \<in> jobs_st L e Delayed \<and> j_tube j = tid \<and> j_deadline_at j = d)"
  by (simp add: delayed_ok_def)

lemma delayed_frame:
  assumes ok: "delayed_ok L e" and s: "jobs_st L' e' Delayed = jobs_st L e Delayed"
    and t: "tv t_delayed e' = tv t_delayed e"
    and "e_delayed_ct e' = e_delayed_ct e"
  shows "delayed_ok L' e'"
proof -
  have "\<forall>p i. (p, i) \<in> t_delayed t \<longleftrightarrow>
           (\<exists>j. (i, j) \<in> jobs_st L e Delayed \<and> j_tube j = tid \<and> j_deadline_at j = p)"
    if "tube e' tid = Some t" for tid t
    using tv_SomeD [OF t that] delayed_tubeD [OF ok, of tid] by auto
  with ok assms(4) show ?thesis by (simp add: delayed_ok_def s jobs_in_cong [OF s])
qed

lemma buried_tubeD:
  "buried_ok L e \<Longrightarrow> tube e tid = Some t \<Longrightarrow>
   (\<forall>q i. t_buried t q = Some i \<longleftrightarrow>
      (\<exists>j. (i, j) \<in> jobs_st L e Buried \<and> j_tube j = tid \<and> j_list_seq j = q)) \<and>
   s_buried_ct (t_stat t) = of_nat (card (jobs_in L e Buried (\<lambda>j. j_tube j = tid)))"
  by (simp add: buried_ok_def)

lemma buried_frame:
  assumes ok: "buried_ok L e" and s: "jobs_st L' e' Buried = jobs_st L e Buried"
    and t: "tv t_buried e' = tv t_buried e"
      "tv (\<lambda>t. s_buried_ct (t_stat t)) e' = tv (\<lambda>t. s_buried_ct (t_stat t)) e"
    and "e_buried_ct e' = e_buried_ct e"
  shows "buried_ok L' e'"
proof -
  have "(\<forall>q i. t_buried t q = Some i \<longleftrightarrow>
           (\<exists>j. (i, j) \<in> jobs_st L e Buried \<and> j_tube j = tid \<and> j_list_seq j = q)) \<and>
        s_buried_ct (t_stat t) = of_nat (card (jobs_in L e Buried (\<lambda>j. j_tube j = tid)))"
    if "tube e' tid = Some t" for tid t
    using tv2_SomeD [OF t that] buried_tubeD [OF ok, of tid] by auto
  with ok assms(5) show ?thesis by (simp add: buried_ok_def s jobs_in_cong [OF s])
qed

lemma reserved_connD:
  "reserved_ok L e \<Longrightarrow> e_conns e cid = Some c \<Longrightarrow>
   (\<forall>q i. c_reserved c q = Some i \<longleftrightarrow>
      (\<exists>j. (i, j) \<in> jobs_st L e Reserved \<and> j_reserver j = Some cid \<and> j_list_seq j = q)) \<and>
   (\<forall>d i. (d, i) \<in> c_reserved_by_deadline c \<longleftrightarrow>
      (\<exists>j. (i, j) \<in> jobs_st L e Reserved \<and> j_reserver j = Some cid \<and> j_deadline_at j = d))"
  by (simp add: reserved_ok_def)

lemma reserved_tubeD:
  "reserved_ok L e \<Longrightarrow> tube e tid = Some t \<Longrightarrow>
   s_reserved_ct (t_stat t) = of_nat (card (jobs_in L e Reserved (\<lambda>j. j_tube j = tid)))"
  by (simp add: reserved_ok_def)

lemma reserved_frame:
  assumes ok: "reserved_ok L e" and s: "jobs_st L' e' Reserved = jobs_st L e Reserved"
    and c: "cv c_reserved e' = cv c_reserved e"
      "cv c_reserved_by_deadline e' = cv c_reserved_by_deadline e"
    and t: "tv (\<lambda>t. s_reserved_ct (t_stat t)) e' = tv (\<lambda>t. s_reserved_ct (t_stat t)) e"
    and "e_reserved_ct e' = e_reserved_ct e"
  shows "reserved_ok L' e'"
proof -
  have "(\<forall>q i. c_reserved c q = Some i \<longleftrightarrow>
           (\<exists>j. (i, j) \<in> jobs_st L e Reserved \<and> j_reserver j = Some cid \<and> j_list_seq j = q)) \<and>
        (\<forall>d i. (d, i) \<in> c_reserved_by_deadline c \<longleftrightarrow>
           (\<exists>j. (i, j) \<in> jobs_st L e Reserved \<and> j_reserver j = Some cid \<and> j_deadline_at j = d))"
    if "e_conns e' cid = Some c" for cid c
    using cv2_SomeD [OF c that] reserved_connD [OF ok, of cid] by auto
  moreover have "s_reserved_ct (t_stat u) = of_nat (card (jobs_in L e Reserved (\<lambda>j. j_tube j = tid)))"
    if "tube e' tid = Some u" for tid u
    using tv_SomeD [OF t that] reserved_tubeD [OF ok, of tid] by auto
  ultimately show ?thesis using ok assms(6) by (simp add: reserved_ok_def s jobs_in_cong [OF s])
qed

lemma seq_frame:
  "seq_ok L e \<Longrightarrow> jobs_st L' e' Reserved = jobs_st L e Reserved \<Longrightarrow>
   jobs_st L' e' Buried = jobs_st L e Buried \<Longrightarrow> e_next_list_seq e' = e_next_list_seq e \<Longrightarrow> seq_ok L' e'"
  by (simp add: seq_ok_def keyed_jobs_def)

lemma conn_counts_frame:
  assumes ok: "conn_counts_ok e"
    and p: "cv c_is_producer e' = cv c_is_producer e" and w: "cv c_is_worker e' = cv c_is_worker e"
    and "e_cur_conns e' = e_cur_conns e" "e_cur_producers e' = e_cur_producers e"
      "e_cur_workers e' = e_cur_workers e"
  shows "conn_counts_ok e'"
  using ok assms(4-) conns_cong [OF p, where P = "\<lambda>b. b"] conns_cong [OF w, where P = "\<lambda>b. b"]
  by (simp add: conn_counts_ok_def cv_dom [OF p])

lemma pauses_frame:
  assumes ok: "pauses_ok e"
    and p: "tv t_pause e' = tv t_pause e" and u: "tv t_unpause_at e' = tv t_unpause_at e"
    and "e_pauses e' = e_pauses e"
  shows "pauses_ok e'"
proof -
  have "(\<exists>t. tube e' x = Some t \<and> t_pause t > 0 \<and> t_unpause_at t = d) \<longleftrightarrow>
      (\<exists>t. tube e x = Some t \<and> t_pause t > 0 \<and> t_unpause_at t = d)" for x d
    using tv2_SomeD [OF p u, of x] tv2_SomeD [OF p [symmetric] u [symmetric], of x] by metis
  with ok assms(4) show ?thesis by (simp add: pauses_ok_def)
qed

lemma jobs_frame:
  assumes "jobs_ok L e" "e_jobs e' = e_jobs e" "tv pr e' = tv pr e" "cv qr e' = cv qr e"
    "e_next_job_id e' = e_next_job_id e"
  shows "jobs_ok L e'"
  using assms(1,2,5) unfolding jobs_ok_def tv_None [OF assms(3)] cv_None [OF assms(4)] by simp

text \<open>The index layer: nothing changed, or one object changed and was refreshed.\<close>

lemma disp_frame:
  assumes "tv t_dispatchable e' = tv t_dispatchable e" "e_dispatchable e' = e_dispatchable e"
  shows "disp.exact e' \<longleftrightarrow> disp.exact e"
proof (rule disp.exact_cong)
  fix x
  show "map_option (\<lambda>t. flag (t_dispatchable t)) (tube e' x) =
        map_option (\<lambda>t. flag (t_dispatchable t)) (tube e x)"
    using fun_cong [OF assms(1), of x] by (cases "tube e x"; cases "tube e' x") (auto simp: tv_def)
qed (simp add: assms)

lemma dly_frame:
  assumes "tv t_delay_head e' = tv t_delay_head e" "e_delay_heads e' = e_delay_heads e"
  shows "dly.exact e' \<longleftrightarrow> dly.exact e"
  by (rule dly.exact_cong) (use assms in \<open>auto simp: tv_def fun_eq_iff\<close>)

lemma tik_frame:
  assumes "cv c_tick_key e' = cv c_tick_key e" "e_conn_ticks e' = e_conn_ticks e"
  shows "tik.exact e' \<longleftrightarrow> tik.exact e"
  by (rule tik.exact_cong) (use assms in \<open>auto simp: cv_def fun_eq_iff\<close>)

lemma disp_fresh_frame:
  assumes f: "disp.fresh X e" and d: "tv t_dispatchable e' = tv t_dispatchable e"
    and o: "\<And>x. x \<notin> X \<Longrightarrow> tv (\<lambda>t. (t_waiting_conns t, t_ready t)) e' x =
      tv (\<lambda>t. (t_waiting_conns t, t_ready t)) e x"
  shows "disp.fresh X e'"
  unfolding disp.fresh_def
proof (intro allI impI)
  fix x t'
  assume t': "tube e' x = Some t'" and "x \<notin> X"
  from tv_SomeD [OF d t'] obtain t where t: "tube e x = Some t" "t_dispatchable t = t_dispatchable t'"
    by blast
  with o [OF \<open>x \<notin> X\<close>] t' have "wants_dispatch t = wants_dispatch t'"
    by (simp add: tv_def wants_dispatch_def)
  with f t \<open>x \<notin> X\<close> show "flag (t_dispatchable t') = flag (wants_dispatch t')"
    unfolding disp.fresh_def by metis
qed

lemma dly_fresh_frame:
  assumes f: "dly.fresh X e" and d: "tv t_delay_head e' = tv t_delay_head e"
    and o: "\<And>x. x \<notin> X \<Longrightarrow> tv t_delayed e' x = tv t_delayed e x"
  shows "dly.fresh X e'"
  unfolding dly.fresh_def
proof (intro allI impI)
  fix x t'
  assume t': "tube e' x = Some t'" and "x \<notin> X"
  from tv_SomeD [OF d t'] obtain t where t: "tube e x = Some t" "t_delay_head t = t_delay_head t'"
    by blast
  with o [OF \<open>x \<notin> X\<close>] t' have "delay_key t = delay_key t'"
    by (simp add: tv_def delay_key_def)
  with f t \<open>x \<notin> X\<close> show "t_delay_head t' = delay_key t'"
    unfolding dly.fresh_def by metis
qed

lemma tik_fresh_frame:
  assumes f: "tik.fresh Y e" and d: "cv c_tick_key e' = cv c_tick_key e"
    and o: "\<And>x. x \<notin> Y \<Longrightarrow> cv conn_tickat e' x = cv conn_tickat e x"
  shows "tik.fresh Y e'"
  unfolding tik.fresh_def
proof (intro allI impI)
  fix x c'
  assume c': "e_conns e' x = Some c'" and "x \<notin> Y"
  from cv_SomeD [OF d c'] obtain c where c: "e_conns e x = Some c" "c_tick_key c = c_tick_key c'"
    by blast
  with o [OF \<open>x \<notin> Y\<close>] c' have "conn_tickat c = conn_tickat c'" by (simp add: cv_def)
  with f c \<open>x \<notin> Y\<close> show "c_tick_key c' = conn_tickat c'"
    unfolding tik.fresh_def by metis
qed

text \<open>\<open>pre_index X Y Z\<close>: exact indexes, with the dispatch flag of the tubes in \<open>X\<close>, the delay
  head of those in \<open>Y\<close> and the tick of the connections in \<open>Z\<close> still to be refreshed.\<close>

definition pre_index :: "tube_id set \<Rightarrow> tube_id set \<Rightarrow> conn_id set \<Rightarrow> engine \<Rightarrow> bool" where
  "pre_index X Y Z e \<longleftrightarrow> disp.exact e \<and> dly.exact e \<and> tik.exact e \<and>
     disp.fresh X e \<and> dly.fresh Y e \<and> tik.fresh Z e \<and> pauses_ok e"

lemma index_ok_pre: "index_ok e \<longleftrightarrow> pre_index {} {} {} e"
  by (simp add: index_ok_def pre_index_def)

lemma pre_index_frame:
  assumes "pre_index X Y Z e"
    and "tv t_dispatchable e' = tv t_dispatchable e" "e_dispatchable e' = e_dispatchable e"
    and "tv t_delay_head e' = tv t_delay_head e" "e_delay_heads e' = e_delay_heads e"
    and "cv c_tick_key e' = cv c_tick_key e" "e_conn_ticks e' = e_conn_ticks e"
    and "tv t_pause e' = tv t_pause e" "tv t_unpause_at e' = tv t_unpause_at e"
    and "e_pauses e' = e_pauses e" and sub: "X \<subseteq> X'" "Y \<subseteq> Y'" "Z \<subseteq> Z'"
    and "\<And>x. x \<notin> X' \<Longrightarrow> tv (\<lambda>t. (t_waiting_conns t, t_ready t)) e' x =
      tv (\<lambda>t. (t_waiting_conns t, t_ready t)) e x"
    and "\<And>x. x \<notin> Y' \<Longrightarrow> tv t_delayed e' x = tv t_delayed e x"
    and "\<And>x. x \<notin> Z' \<Longrightarrow> cv conn_tickat e' x = cv conn_tickat e x"
  shows "pre_index X' Y' Z' e'"
proof -
  have "disp.fresh X' e" "dly.fresh Y' e" "tik.fresh Z' e"
    using assms(1) sub unfolding pre_index_def disp.fresh_def dly.fresh_def tik.fresh_def by blast+
  then show ?thesis
    using assms disp_fresh_frame [of X' e e'] dly_fresh_frame [of Y' e e']
      tik_fresh_frame [of Z' e e'] pauses_frame [of e e'] disp_frame [of e' e] dly_frame [of e' e]
      tik_frame [of e' e]
    by (simp add: pre_index_def)
qed

lemma tv_refresh [simp]:
  "(\<And>t b. pr (t\<lparr>t_dispatchable := b\<rparr>) = pr t) \<Longrightarrow> tv pr (refresh_dispatchable tid e) = tv pr e"
  "(\<And>t d. qr (t\<lparr>t_delay_head := d\<rparr>) = qr t) \<Longrightarrow> tv qr (refresh_delay_head tid e) = tv qr e"
  "(\<And>c k. sr (c\<lparr>c_tick_key := k\<rparr>) = sr c) \<Longrightarrow> cv sr (refresh_conn_tick cid e) = cv sr e"
  by (auto simp: tv_def cv_def fun_eq_iff option.map_comp comp_def)

lemma pre_index_refresh_dispatchable:
  assumes "pre_index (insert tid X) Y Z e"
  shows "pre_index X Y Z (refresh_dispatchable tid e)"
proof -
  have "dly.fresh Y (refresh_dispatchable tid e)" "tik.fresh Z (refresh_dispatchable tid e)"
    using assms dly_fresh_frame [of Y e "refresh_dispatchable tid e"]
      tik_fresh_frame [of Z e "refresh_dispatchable tid e"]
    by (simp_all add: pre_index_def fun_eq_iff cv_def)
  then show ?thesis
    using assms disp.exact_refresh [of e tid] disp.fresh_refresh [of tid X e]
      dly_frame [of "refresh_dispatchable tid e" e] tik_frame [of "refresh_dispatchable tid e" e]
      pauses_frame [of e "refresh_dispatchable tid e"]
    by (simp add: pre_index_def fun_eq_iff cv_def)
qed

lemma pre_index_refresh_delay_head:
  assumes "pre_index X (insert tid Y) Z e"
  shows "pre_index X Y Z (refresh_delay_head tid e)"
proof -
  have "disp.fresh X (refresh_delay_head tid e)" "tik.fresh Z (refresh_delay_head tid e)"
    using assms disp_fresh_frame [of X e "refresh_delay_head tid e"]
      tik_fresh_frame [of Z e "refresh_delay_head tid e"]
    by (simp_all add: pre_index_def fun_eq_iff cv_def)
  then show ?thesis
    using assms dly.exact_refresh [of e tid] dly.fresh_refresh [of tid Y e]
      disp_frame [of "refresh_delay_head tid e" e] tik_frame [of "refresh_delay_head tid e" e]
      pauses_frame [of e "refresh_delay_head tid e"]
    by (simp add: pre_index_def fun_eq_iff cv_def)
qed

lemma pre_index_refresh_conn_tick:
  assumes "pre_index X Y (insert cid Z) e"
  shows "pre_index X Y Z (refresh_conn_tick cid e)"
proof -
  have "disp.fresh X (refresh_conn_tick cid e)" "dly.fresh Y (refresh_conn_tick cid e)"
    using assms disp_fresh_frame [of X e "refresh_conn_tick cid e"]
      dly_fresh_frame [of Y e "refresh_conn_tick cid e"]
    by (simp_all add: pre_index_def fun_eq_iff tv_def)
  then show ?thesis
    using assms tik.exact_refresh [of e cid] tik.fresh_refresh [of cid Z e]
      disp_frame [of "refresh_conn_tick cid e" e] dly_frame [of "refresh_conn_tick cid e" e]
      pauses_frame [of e "refresh_conn_tick cid e"]
    by (simp add: pre_index_def fun_eq_iff tv_def)
qed

end
