(* ===== verification/Engine_Moves.thy ===== *)
theory Engine_Moves
  imports Engine_Inv
begin

text \<open>
  The operations that move one job keep the invariant. Each takes a job out of its queue into
  limbo (\<open>remove_ready\<close>, \<open>remove_delayed\<close>, \<open>remove_buried\<close>, \<open>pop_buried_front\<close>,
  \<open>do_unreserve\<close>) or puts a job in limbo into a queue (\<open>insert_ready\<close>, \<open>insert_delayed\<close>,
  \<open>insert_buried\<close>, \<open>do_reserve\<close>).
\<close>

section \<open>Sets of jobs in and out of limbo\<close>

lemma jobs_st_insert:
  "e_jobs e' = (e_jobs e)(i \<mapsto> j) \<Longrightarrow>
   jobs_st {} e' st = (if j_state j = st then insert (i, j) (jobs_st {i} e st) else jobs_st {i} e st)"
  by (auto simp: jobs_st_def split: if_splits)

lemma jobs_st_limbo:
  "(\<And>k. k \<noteq> i \<Longrightarrow> e_jobs e' k = e_jobs e k) \<Longrightarrow>
   jobs_st {i} e' st = {x \<in> jobs_st {} e st. fst x \<noteq> i}"
  by (auto simp: jobs_st_def)

lemma jobs_st_limbo_other:
  "(\<And>k. k \<noteq> i \<Longrightarrow> e_jobs e' k = e_jobs e k) \<Longrightarrow> e_jobs e i = Some j \<Longrightarrow> j_state j \<noteq> st \<Longrightarrow>
   jobs_st {i} e' st = jobs_st {} e st"
  using jobs_st_limbo [of i e' e st] by (auto simp: jobs_st_def)

lemma jobs_st_limbo_same:
  "(\<And>k. k \<noteq> i \<Longrightarrow> e_jobs e' k = e_jobs e k) \<Longrightarrow> jobs_st {i} e' st = jobs_st {i} e st"
  by (auto simp: jobs_st_def)

lemma jobs_in_insert:
  "e_jobs e' = (e_jobs e)(i \<mapsto> j) \<Longrightarrow>
   jobs_in {} e' st P =
     (if j_state j = st \<and> P j then insert i (jobs_in {i} e st P) else jobs_in {i} e st P)"
  by (auto simp: jobs_in_def jobs_st_insert)

lemma jobs_in_limbo:
  "(\<And>k. k \<noteq> i \<Longrightarrow> e_jobs e' k = e_jobs e k) \<Longrightarrow> jobs_in {i} e' st P = jobs_in {} e st P - {i}"
  by (auto simp: jobs_in_def jobs_st_limbo)

lemma jobs_in_limbo_notin [simp]: "i \<in> L \<Longrightarrow> i \<notin> jobs_in L e st P"
  by (simp add: jobs_in_def jobs_st_def)

lemma jobs_in_iff: "e_jobs e i = Some j \<Longrightarrow> i \<notin> L \<Longrightarrow> i \<in> jobs_in L e st P \<longleftrightarrow> j_state j = st \<and> P j"
  by (auto simp: jobs_in_def jobs_st_def)

text \<open>Counters: one more, one less.\<close>

lemma card_plus_1: "i \<notin> (A :: 'a::finite set) \<Longrightarrow> of_nat (card (insert i A)) = (of_nat (card A) + 1 :: 'b::len word)"
  by simp

lemma card_minus_1:
  fixes A :: "'a::finite set"
  assumes "i \<in> A" "card A < 2 ^ LENGTH('b::len)"
  shows "sat_sub (of_nat (card A)) 1 = (of_nat (card (A - {i})) :: 'b word)"
proof -
  from assms(1) have "card A = Suc (card (A - {i}))"
    by (metis card_Suc_Diff1 finite)
  with sat_sub_one_Suc [of "card (A - {i})", where 'a = 'b] assms(2) show ?thesis by simp
qed

lemma card_jobs_bound:
  assumes "jobs_ok L e" "A \<subseteq> dom (e_jobs e)"
  shows "card A < 2 ^ 64"
proof -
  have "A \<subseteq> UNIV - {e_next_job_id e}"
    using assms by (auto simp: jobs_ok_def)
  then have "card A \<le> card (UNIV - {e_next_job_id e} :: job_id set)"
    by (rule card_mono [rotated]) simp
  also have "\<dots> < card (UNIV :: job_id set)"
    by (rule psubset_card_mono) auto
  also have "\<dots> = 2 ^ 64" by (simp add: card_word)
  finally show ?thesis .
qed

lemma count_insert:
  "e_jobs e' = (e_jobs e)(i \<mapsto> j) \<Longrightarrow>
   (of_nat (card (jobs_in {} e' st P)) :: u64) =
     of_nat (card (jobs_in {i} e st P)) + (if j_state j = st \<and> P j then 1 else 0)"
  by (simp add: jobs_in_insert)

lemma jobs_in_dom: "jobs_in L e st P \<subseteq> dom (e_jobs e)"
  by (auto simp: jobs_in_def jobs_st_def)

lemma card_jobs_in: "jobs_ok L e \<Longrightarrow> card (jobs_in L' e st P) < 2 ^ LENGTH(64)"
  using card_jobs_bound [OF _ jobs_in_dom] by simp


lemma count_limbo:
  assumes "jobs_ok L e" "e_jobs e i = Some j" "\<And>k. k \<noteq> i \<Longrightarrow> e_jobs e' k = e_jobs e k"
  shows "(of_nat (card (jobs_in {i} e' st P)) :: u64) =
    (if j_state j = st \<and> P j then sat_sub (of_nat (card (jobs_in {} e st P))) 1
     else of_nat (card (jobs_in {} e st P)))"
proof -
  have "i \<in> jobs_in {} e st P \<longleftrightarrow> j_state j = st \<and> P j"
    using jobs_in_iff [OF assms(2)] by simp
  then show ?thesis
    using card_minus_1 [of i "jobs_in {} e st P", where 'b = 64] card_jobs_in [OF assms(1)]
    by (auto simp: jobs_in_limbo [OF assms(3)])
qed

section \<open>What no move touches\<close>

definition unmoved :: "engine \<Rightarrow> engine \<Rightarrow> bool" where
  "unmoved e' e \<longleftrightarrow>
     tv t_name e' = tv t_name e \<and> tv t_pos e' = tv t_pos e \<and> tv t_using_ct e' = tv t_using_ct e \<and>
     tv t_watching_ct e' = tv t_watching_ct e \<and> tv t_job_ref_ct e' = tv t_job_ref_ct e \<and>
     tv t_waiting_conns e' = tv t_waiting_conns e \<and>
     tv (\<lambda>t. s_waiting_ct (t_stat t)) e' = tv (\<lambda>t. s_waiting_ct (t_stat t)) e \<and>
     cv c_use_tube e' = cv c_use_tube e \<and> cv c_watch e' = cv c_watch e \<and>
     cv c_waiting e' = cv c_waiting e \<and> cv c_wait_deadline e' = cv c_wait_deadline e \<and>
     cv c_pending_put e' = cv c_pending_put e \<and> cv c_is_producer e' = cv c_is_producer e \<and>
     cv c_is_worker e' = cv c_is_worker e \<and>
     jv j_tube e' = jv j_tube e \<and> jv j_id e' = jv j_id e \<and> jv j_ttr e' = jv j_ttr e \<and>
     e_tube_ids e' = e_tube_ids e \<and> e_tube_order e' = e_tube_order e \<and>
     e_free_tube_ids e' = e_free_tube_ids e \<and> length (e_tubes e') = length (e_tubes e) \<and>
     e_waiting_ct e' = e_waiting_ct e \<and> e_next_job_id e' = e_next_job_id e \<and>
     e_cur_conns e' = e_cur_conns e \<and> e_cur_producers e' = e_cur_producers e \<and>
     e_cur_workers e' = e_cur_workers e"

lemma unmoved_slab: "unmoved e' e \<Longrightarrow> slab_ok e \<Longrightarrow> slab_ok e'"
  using slab_frame [of e e'] by (simp add: unmoved_def)

lemma unmoved_refs: "unmoved e' e \<Longrightarrow> refs_ok G e \<Longrightarrow> refs_ok G e'"
  using refs_frame [of G e e'] by (simp add: unmoved_def)

lemma unmoved_wait: "unmoved e' e \<Longrightarrow> wait_ok W e \<Longrightarrow> wait_ok W e'"
  using wait_frame [of W e e'] by (simp add: unmoved_def)

lemma unmoved_conn_counts: "unmoved e' e \<Longrightarrow> conn_counts_ok e \<Longrightarrow> conn_counts_ok e'"
  using conn_counts_frame [of e e'] by (simp add: unmoved_def)

lemma jv_dom: "jv pr e' = jv pr e \<Longrightarrow> dom (e_jobs e') = dom (e_jobs e)"
proof -
  assume "jv pr e' = jv pr e"
  then have "jv pr e' x = None \<longleftrightarrow> jv pr e x = None" for x by simp
  then show ?thesis by (simp add: jv_def dom_def)
qed

lemma unmoved_pending: "unmoved e' e \<Longrightarrow> pending_ok e \<Longrightarrow> pending_ok e'"
  using pending_frame [of e e'] jv_dom [of j_id e' e] by (simp add: unmoved_def)

lemma jobs_jobD:
  "jobs_ok L e \<Longrightarrow> e_jobs e i = Some j \<Longrightarrow>
   j_id j = i \<and> i < e_next_job_id e \<and> 1 \<le> j_ttr j \<and> tube e (j_tube j) \<noteq> None \<and>
   (j_reserver j \<noteq> None \<longleftrightarrow> i \<notin> L \<and> j_state j = Reserved) \<and>
   (\<forall>cid. j_reserver j = Some cid \<longrightarrow> e_conns e cid \<noteq> None)"
  by (simp add: jobs_ok_def)

lemma jobs_ok_change:
  assumes ok: "jobs_ok L e" and p: "unmoved e' e"
    and jobs: "e_jobs e' = (e_jobs e)(i \<mapsto> j')" and "e_jobs e i = Some j"
    and L': "L' \<subseteq> insert i L" "\<And>k. k \<noteq> i \<Longrightarrow> k \<in> L' \<longleftrightarrow> k \<in> L"
    and res: "j_reserver j' \<noteq> None \<longleftrightarrow> i \<notin> L' \<and> j_state j' = Reserved"
    and conn: "\<And>cid. j_reserver j' = Some cid \<Longrightarrow> e_conns e cid \<noteq> None"
  shows "jobs_ok L' e'"
proof -
  have t: "tube e' x = None \<longleftrightarrow> tube e x = None" for x
    using p by (intro tv_None [of t_name]) (simp add: unmoved_def)
  have c: "e_conns e' x = None \<longleftrightarrow> e_conns e x = None" for x
    using p by (intro cv_None [of c_use_tube]) (simp add: unmoved_def)
  have same: "j_tube j' = j_tube j" "j_id j' = j_id j" "j_ttr j' = j_ttr j"
    using p assms(3,4) unfolding unmoved_def jv_def by (metis fun_upd_same option.inject option.map(2))+
  have n: "e_next_job_id e' = e_next_job_id e" using p by (simp add: unmoved_def)
  have "j_id k = x \<and> x < e_next_job_id e \<and> 1 \<le> j_ttr k \<and> tube e (j_tube k) \<noteq> None \<and>
      (j_reserver k \<noteq> None \<longleftrightarrow> x \<notin> L' \<and> j_state k = Reserved) \<and>
      (\<forall>cid. j_reserver k = Some cid \<longrightarrow> e_conns e cid \<noteq> None)" if "e_jobs e' x = Some k" for x k
  proof (cases "x = i")
    case True
    with that jobs have "k = j'" by simp
    with True jobs_jobD [OF ok assms(4)] same res conn show ?thesis by simp
  next
    case False
    with that jobs have "e_jobs e x = Some k" by simp
    from jobs_jobD [OF ok this] L'(2) [OF False] show ?thesis by simp
  qed
  moreover have "L' \<subseteq> dom (e_jobs e')" "1 \<le> e_next_job_id e"
    using ok L'(1) jobs by (auto simp: jobs_ok_def)
  ultimately show ?thesis by (simp add: jobs_ok_def t c n)
qed

lemmas view_simps = tv_def cv_def jv_def fun_eq_iff Let_def

lemma inv_jobs: "inv L W G e \<Longrightarrow> jobs_ok L e"
  by (simp add: inv_def)

lemma inv_tube:
  assumes "inv L W G e" "e_jobs e i = Some j"
  obtains t where "tube e (j_tube j) = Some t"
  using jobs_jobD [OF inv_jobs [OF assms(1)] assms(2)] by auto

text \<open>A move keeps the invariant as soon as it keeps the layers of the queues and the indexes.\<close>

lemma inv_move:
  assumes "inv L W G e" "unmoved e' e" "jobs_ok L' e'" "seq_ok L' e'"
    "ready_ok L' e'" "delayed_ok L' e'" "buried_ok L' e'" "reserved_ok L' e'" "index_ok e'"
  shows "inv L' W G e'"
  using assms unmoved_slab [of e' e] unmoved_refs [of e' e G] unmoved_wait [of e' e W]
    unmoved_pending [of e' e] unmoved_conn_counts [of e' e]
  by (simp add: inv_def)

lemma seq_ok_insert:
  assumes ok: "seq_ok {i} e" and jobs: "e_jobs e' = (e_jobs e)(i \<mapsto> j')"
    and "j_state j' = Reserved \<or> j_state j' = Buried" "j_list_seq j' = e_next_list_seq e"
    and nxt: "e_next_list_seq e' = e_next_list_seq e + 1" "e_next_list_seq e \<noteq> - 1"
  shows "seq_ok {} e'"
proof -
  let ?n = "e_next_list_seq e"
  have k: "keyed_jobs {} e' = insert (i, j') (keyed_jobs {i} e)"
    using assms(3) by (auto simp: keyed_jobs_def jobs_st_insert [OF jobs])
  have lt: "j_list_seq (snd x) < ?n" if "x \<in> keyed_jobs {i} e" for x
    using ok that by (simp add: seq_ok_def)
  moreover have n: "?n < ?n + 1"
    using nxt(2) by (meson inc_less_eq_triv_imp not_le)
  ultimately have "j_list_seq (snd x) < ?n + 1" if "x \<in> keyed_jobs {i} e" for x
    using that less_trans by blast
  moreover have "?n \<notin> (\<lambda>x. j_list_seq (snd x)) ` keyed_jobs {i} e"
    using lt by fastforce
  ultimately show ?thesis
    using ok n unfolding seq_ok_def k nxt(1)
    by (auto simp: assms(4) inj_on_insert intro: inj_on_subset)
qed

lemma seq_ok_limbo:
  assumes "seq_ok {} e" "\<And>k. k \<noteq> i \<Longrightarrow> e_jobs e' k = e_jobs e k" "e_next_list_seq e' = e_next_list_seq e"
  shows "seq_ok {i} e'"
proof -
  have "keyed_jobs {i} e' \<subseteq> keyed_jobs {} e"
    using assms(2) by (auto simp: keyed_jobs_def jobs_st_limbo)
  with assms(1,3) show ?thesis unfolding seq_ok_def by (auto intro: inj_on_subset)
qed

lemma jobs_same_upd: "e_jobs e' = e_jobs e \<Longrightarrow> e_jobs e i = Some j \<Longrightarrow> e_jobs e' = (e_jobs e)(i \<mapsto> j)"
  by (simp add: fun_upd_idem)

lemmas split_ex = conj_disj_distribR ex_disj_distrib

section \<open>Ready\<close>

lemma insert_ready_obs:
  assumes "e_jobs e jid = Some j" "tube e tid = Some t"
  defines "t1 \<equiv> t\<lparr>t_ready := insert (j_pri j, jid) (t_ready t),
    t_stat := (t_stat t)\<lparr>s_urgent_ct := s_urgent_ct (t_stat t) + (if urgent j then 1 else 0)\<rparr>\<rparr>"
  shows "e_jobs (insert_ready tid jid e) = (e_jobs e)(jid \<mapsto> j\<lparr>j_state := Ready, j_reserver := None\<rparr>)"
    "tube (insert_ready tid jid e) = (tube e)(tid \<mapsto> t1\<lparr>t_dispatchable := wants_dispatch t1\<rparr>)"
    "e_ready_ct (insert_ready tid jid e) = e_ready_ct e + 1"
    "e_urgent_ct (insert_ready tid jid e) = e_urgent_ct e + (if urgent j then 1 else 0)"
  by (simp_all add: insert_ready_def Let_def assms urgent_def)

lemma insert_ready_inv:
  assumes inv: "inv {jid} W G e" and j: "e_jobs e jid = Some j"
  shows "inv {} W G (insert_ready (j_tube j) jid e)" (is "inv {} W G ?e")
proof (rule inv_move [OF inv])
  from inv_tube [OF assms] obtain t where t: "tube e (j_tube j) = Some t" .
  note obs = insert_ready_obs [OF j t]
  note st = jobs_st_insert [OF obs(1)] count_insert [OF obs(1)] split_ex
  note v = view_simps obs j t
  show p: "unmoved ?e e" by (simp add: unmoved_def v)
  show "jobs_ok {} ?e" by (rule jobs_ok_change [OF inv_jobs [OF inv] p obs(1) j]) auto
  show "seq_ok {} ?e" by (rule seq_frame [of "{jid}" e]) (use inv in \<open>simp_all add: inv_def st\<close>)
  show "delayed_ok {} ?e"
    by (rule delayed_frame [of "{jid}" e]) (use inv in \<open>simp_all add: inv_def st\<close>, simp add: v)
  show "buried_ok {} ?e"
    by (rule buried_frame [of "{jid}" e]) (use inv in \<open>simp_all add: inv_def st\<close>, simp_all add: v)
  show "reserved_ok {} ?e"
    by (rule reserved_frame [of "{jid}" e]) (use inv in \<open>simp_all add: inv_def st\<close>, simp_all add: v)
  have ok: "ready_ok {jid} e" using inv by (simp add: inv_def)
  have "(\<forall>p i. (p, i) \<in> t_ready t' \<longleftrightarrow>
          (\<exists>k. (i, k) \<in> jobs_st {} ?e Ready \<and> j_tube k = tid \<and> j_pri k = p)) \<and>
        s_urgent_ct (t_stat t') =
          of_nat (card (jobs_in {} ?e Ready (\<lambda>k. j_tube k = tid \<and> urgent k)))"
    if t': "tube ?e tid = Some t'" for tid t'
  proof (cases "tid = j_tube j")
    case True
    with t' ready_tubeD [OF ok t] show ?thesis by (auto simp: obs(2) st urgent_def)
  next
    case False
    with t' have "tube e tid = Some t'" by (simp add: obs)
    from False ready_tubeD [OF ok this] show ?thesis by (auto simp: st)
  qed
  moreover have "e_ready_ct ?e = of_nat (card (jobs_in {} ?e Ready (\<lambda>j. True)))"
    "e_urgent_ct ?e = of_nat (card (jobs_in {} ?e Ready urgent))"
    using ok by (simp_all add: ready_ok_def st obs(3,4)) (simp_all add: urgent_def)
  ultimately show "ready_ok {} ?e" by (simp add: ready_ok_def)
  show "index_ok ?e"
    unfolding index_ok_pre insert_ready_def Let_def j option.case
    by (rule pre_index_refresh_dispatchable, rule pre_index_frame [of "{}" "{}" "{}" e])
       (use inv in \<open>simp_all add: inv_def index_ok_pre view_simps t j\<close>)
qed

lemma remove_ready_obs:
  assumes "e_jobs e jid = Some j" "tube e tid = Some t"
  defines "t1 \<equiv> t\<lparr>t_ready := t_ready t - {(j_pri j, jid)},
    t_stat := (t_stat t)\<lparr>s_urgent_ct :=
      (if urgent j then sat_sub (s_urgent_ct (t_stat t)) 1 else s_urgent_ct (t_stat t))\<rparr>\<rparr>"
  shows "tube (remove_ready tid jid e) = (tube e)(tid \<mapsto> t1\<lparr>t_dispatchable := wants_dispatch t1\<rparr>)"
    "e_ready_ct (remove_ready tid jid e) = sat_sub (e_ready_ct e) 1"
    "e_urgent_ct (remove_ready tid jid e) =
       (if urgent j then sat_sub (e_urgent_ct e) 1 else e_urgent_ct e)"
  by (simp_all add: remove_ready_def Let_def assms urgent_def)

lemma remove_ready_inv:
  assumes inv: "inv {} W G e" and j: "e_jobs e jid = Some j" and s: "j_state j = Ready"
  shows "inv {jid} W G (remove_ready (j_tube j) jid e)" (is "inv _ W G ?e")
proof (rule inv_move [OF inv])
  from inv_tube [OF inv j] obtain t where t: "tube e (j_tube j) = Some t" .
  note obs = remove_ready_obs [OF j t]
  have same: "e_jobs ?e k = e_jobs e k" for k by simp
  note st = jobs_st_limbo [OF same] count_limbo [OF inv_jobs [OF inv] j same]
  note st' = jobs_st_limbo_other [OF same j] s
  note v = view_simps obs j t
  have jobs: "e_jobs ?e = (e_jobs e)(jid \<mapsto> j)" using j by (simp add: fun_upd_idem)
  show p: "unmoved ?e e" by (simp add: unmoved_def v)
  show "jobs_ok {jid} ?e"
    using jobs_jobD [OF inv_jobs [OF inv] j] s
    by (intro jobs_ok_change [OF inv_jobs [OF inv] p jobs j]) auto
  show "seq_ok {jid} ?e" by (rule seq_ok_limbo [of e]) (use inv in \<open>simp_all add: inv_def\<close>)
  show "delayed_ok {jid} ?e"
    by (rule delayed_frame [of "{}" e]) (use inv in \<open>simp_all add: inv_def st'\<close>, simp add: v)
  show "buried_ok {jid} ?e"
    by (rule buried_frame [of "{}" e]) (use inv in \<open>simp_all add: inv_def st'\<close>, simp_all add: v)
  show "reserved_ok {jid} ?e"
    by (rule reserved_frame [of "{}" e]) (use inv in \<open>simp_all add: inv_def st'\<close>, simp_all add: v)
  have ok: "ready_ok {} e" using inv by (simp add: inv_def)
  have in_st: "(jid, k) \<in> jobs_st {} e Ready \<longleftrightarrow> k = j" for k
    using j s by (auto simp: jobs_st_def)
  have "(\<forall>p i. (p, i) \<in> t_ready t' \<longleftrightarrow>
          (\<exists>k. (i, k) \<in> jobs_st {jid} ?e Ready \<and> j_tube k = tid \<and> j_pri k = p)) \<and>
        s_urgent_ct (t_stat t') =
          of_nat (card (jobs_in {jid} ?e Ready (\<lambda>k. j_tube k = tid \<and> urgent k)))"
    if t': "tube ?e tid = Some t'" for tid t'
  proof (cases "tid = j_tube j")
    case True
    with t' have t1: "t_ready t' = t_ready t - {(j_pri j, jid)}"
      "s_urgent_ct (t_stat t') =
        (if urgent j then sat_sub (s_urgent_ct (t_stat t)) 1 else s_urgent_ct (t_stat t))"
      by (auto simp: obs(1))
    have "(p, i) \<in> t_ready t' \<longleftrightarrow>
        (\<exists>k. (i, k) \<in> jobs_st {jid} ?e Ready \<and> j_tube k = tid \<and> j_pri k = p)" for p i
      using ready_tubeD [OF ok t] True
      by (cases "i = jid") (simp_all add: t1 st in_st)
    with True ready_tubeD [OF ok t] show ?thesis by (simp add: t1(2) st(2) s)
  next
    case False
    with t' have "tube e tid = Some t'" by (simp add: obs)
    with False ready_tubeD [OF ok this] show ?thesis by (auto simp: st in_st s)
  qed
  moreover have "e_ready_ct ?e = of_nat (card (jobs_in {jid} ?e Ready (\<lambda>j. True)))"
    "e_urgent_ct ?e = of_nat (card (jobs_in {jid} ?e Ready urgent))"
    using ok by (simp_all add: ready_ok_def st obs(2,3) s)
  ultimately show "ready_ok {jid} ?e" by (simp add: ready_ok_def)
  show "index_ok ?e"
    unfolding index_ok_pre remove_ready_def Let_def j option.case
    by (rule pre_index_refresh_dispatchable, rule pre_index_frame [of "{}" "{}" "{}" e])
       (use inv in \<open>simp_all add: inv_def index_ok_pre view_simps t j\<close>)
qed

section \<open>Delayed\<close>

lemma limbo_not_delayed:
  "inv {jid} W G e \<Longrightarrow> tube e tid = Some t \<Longrightarrow> (d, jid) \<notin> t_delayed t"
  using delayed_tubeD [of "{jid}" e tid t] by (simp add: inv_def jobs_st_def)

lemma insert_delayed_obs:
  assumes "e_jobs e jid = Some j" "tube e tid = Some t" "(d, jid) \<notin> t_delayed t"
  defines "t1 \<equiv> t\<lparr>t_delayed := insert (d, jid) (t_delayed t)\<rparr>"
  shows "e_jobs (insert_delayed tid jid d e) =
      (e_jobs e)(jid \<mapsto> j\<lparr>j_state := Delayed, j_reserver := None, j_deadline_at := d\<rparr>)"
    "tube (insert_delayed tid jid d e) = (tube e)(tid \<mapsto> t1\<lparr>t_delay_head := delay_key t1\<rparr>)"
    "e_delayed_ct (insert_delayed tid jid d e) = e_delayed_ct e + 1"
  by (simp_all add: insert_delayed_def Let_def assms)

lemma insert_delayed_inv:
  assumes inv: "inv {jid} W G e" and j: "e_jobs e jid = Some j"
  shows "inv {} W G (insert_delayed (j_tube j) jid d e)" (is "inv {} W G ?e")
proof (rule inv_move [OF inv])
  from inv_tube [OF assms] obtain t where t: "tube e (j_tube j) = Some t" .
  note new = limbo_not_delayed [OF inv t]
  note obs = insert_delayed_obs [OF j t new]
  note st = jobs_st_insert [OF obs(1)] count_insert [OF obs(1)] split_ex
  note v = view_simps obs j t
  show p: "unmoved ?e e" by (simp add: unmoved_def v)
  show "jobs_ok {} ?e" by (rule jobs_ok_change [OF inv_jobs [OF inv] p obs(1) j]) auto
  show "seq_ok {} ?e" by (rule seq_frame [of "{jid}" e]) (use inv in \<open>simp_all add: inv_def st\<close>)
  show "ready_ok {} ?e"
    by (rule ready_frame [of "{jid}" e]) (use inv in \<open>simp_all add: inv_def st\<close>, simp_all add: v)
  show "buried_ok {} ?e"
    by (rule buried_frame [of "{jid}" e]) (use inv in \<open>simp_all add: inv_def st\<close>, simp_all add: v)
  show "reserved_ok {} ?e"
    by (rule reserved_frame [of "{jid}" e]) (use inv in \<open>simp_all add: inv_def st\<close>, simp_all add: v)
  have ok: "delayed_ok {jid} e" using inv by (simp add: inv_def)
  have "\<forall>d i. (d, i) \<in> t_delayed t' \<longleftrightarrow>
          (\<exists>k. (i, k) \<in> jobs_st {} ?e Delayed \<and> j_tube k = tid \<and> j_deadline_at k = d)"
    if t': "tube ?e tid = Some t'" for tid t'
  proof (cases "tid = j_tube j")
    case True
    with t' delayed_tubeD [OF ok t] show ?thesis by (auto simp: obs(2) st)
  next
    case False
    with t' have "tube e tid = Some t'" by (simp add: obs)
    from False delayed_tubeD [OF ok this] show ?thesis by (auto simp: st)
  qed
  with ok show "delayed_ok {} ?e" by (simp add: delayed_ok_def st obs(3))
  show "index_ok ?e"
    unfolding index_ok_pre insert_delayed_def Let_def job_mut_frame t option.case
    by (rule pre_index_refresh_delay_head, rule pre_index_frame [of "{}" "{}" "{}" e])
       (use inv in \<open>simp_all add: inv_def index_ok_pre view_simps t j\<close>)
qed

lemma remove_delayed_obs:
  assumes "e_jobs e jid = Some j" "tube e tid = Some t" "(j_deadline_at j, jid) \<in> t_delayed t"
  defines "t1 \<equiv> t\<lparr>t_delayed := t_delayed t - {(j_deadline_at j, jid)}\<rparr>"
  shows "tube (remove_delayed tid jid e) = (tube e)(tid \<mapsto> t1\<lparr>t_delay_head := delay_key t1\<rparr>)"
    "e_delayed_ct (remove_delayed tid jid e) = sat_sub (e_delayed_ct e) 1"
  by (simp_all add: remove_delayed_def Let_def assms)

lemma remove_delayed_inv:
  assumes inv: "inv {} W G e" and j: "e_jobs e jid = Some j" and s: "j_state j = Delayed"
  shows "inv {jid} W G (remove_delayed (j_tube j) jid e)" (is "inv _ W G ?e")
proof (rule inv_move [OF inv])
  from inv_tube [OF inv j] obtain t where t: "tube e (j_tube j) = Some t" .
  have ok: "delayed_ok {} e" using inv by (simp add: inv_def)
  have in_st: "(jid, k) \<in> jobs_st {} e Delayed \<longleftrightarrow> k = j" for k
    using j s by (auto simp: jobs_st_def)
  have "(j_deadline_at j, jid) \<in> t_delayed t"
    using delayed_tubeD [OF ok t] by (simp add: in_st)
  note obs = remove_delayed_obs [OF j t this]
  have same: "e_jobs ?e k = e_jobs e k" for k by simp
  note st = jobs_st_limbo [OF same] count_limbo [OF inv_jobs [OF inv] j same]
  note st' = jobs_st_limbo_other [OF same j] s
  note v = view_simps obs j t
  have jobs: "e_jobs ?e = (e_jobs e)(jid \<mapsto> j)" using j by (simp add: fun_upd_idem)
  show p: "unmoved ?e e" by (simp add: unmoved_def v)
  show "jobs_ok {jid} ?e"
    using jobs_jobD [OF inv_jobs [OF inv] j] s
    by (intro jobs_ok_change [OF inv_jobs [OF inv] p jobs j]) auto
  show "seq_ok {jid} ?e" by (rule seq_ok_limbo [of e]) (use inv in \<open>simp_all add: inv_def\<close>)
  show "ready_ok {jid} ?e"
    by (rule ready_frame [of "{}" e]) (use inv in \<open>simp_all add: inv_def st'\<close>, simp_all add: v)
  show "buried_ok {jid} ?e"
    by (rule buried_frame [of "{}" e]) (use inv in \<open>simp_all add: inv_def st'\<close>, simp_all add: v)
  show "reserved_ok {jid} ?e"
    by (rule reserved_frame [of "{}" e]) (use inv in \<open>simp_all add: inv_def st'\<close>, simp_all add: v)
  have "\<forall>d i. (d, i) \<in> t_delayed t' \<longleftrightarrow>
          (\<exists>k. (i, k) \<in> jobs_st {jid} ?e Delayed \<and> j_tube k = tid \<and> j_deadline_at k = d)"
    if t': "tube ?e tid = Some t'" for tid t'
  proof (cases "tid = j_tube j")
    case True
    with t' have t1: "t_delayed t' = t_delayed t - {(j_deadline_at j, jid)}" by (auto simp: obs(1))
    have "(d, i) \<in> t_delayed t' \<longleftrightarrow>
        (\<exists>k. (i, k) \<in> jobs_st {jid} ?e Delayed \<and> j_tube k = tid \<and> j_deadline_at k = d)" for d i
      using delayed_tubeD [OF ok t] True
      by (cases "i = jid") (simp_all add: t1 st in_st)
    then show ?thesis by blast
  next
    case False
    with t' have "tube e tid = Some t'" by (simp add: obs)
    with False delayed_tubeD [OF ok this] show ?thesis by (auto simp: st in_st)
  qed
  with ok show "delayed_ok {jid} ?e" by (simp add: delayed_ok_def st obs(2) s)
  show "index_ok ?e"
    unfolding index_ok_pre remove_delayed_def Let_def j t option.case
    by (rule pre_index_refresh_delay_head, rule pre_index_frame [of "{}" "{}" "{}" e])
       (use inv in \<open>simp_all add: inv_def index_ok_pre view_simps t j\<close>)
qed

section \<open>Buried\<close>

lemma insert_buried_obs:
  assumes "e_jobs e jid = Some j" "tube e tid = Some t"
  shows "e_jobs (insert_buried tid jid e) =
      (e_jobs e)(jid \<mapsto> j\<lparr>j_state := Buried, j_reserver := None, j_bury_ct := j_bury_ct j + 1,
        j_list_seq := e_next_list_seq e\<rparr>)"
    "tube (insert_buried tid jid e) =
      (tube e)(tid \<mapsto> t\<lparr>t_buried := (t_buried t)(e_next_list_seq e \<mapsto> jid),
        t_stat := (t_stat t)\<lparr>s_buried_ct := s_buried_ct (t_stat t) + 1\<rparr>\<rparr>)"
    "e_buried_ct (insert_buried tid jid e) = e_buried_ct e + 1"
    "e_next_list_seq (insert_buried tid jid e) = e_next_list_seq e + 1"
  by (simp_all add: insert_buried_def Let_def assms)

lemma keyed_seq_lt: "inv L W G e \<Longrightarrow> (i, j) \<in> keyed_jobs L e \<Longrightarrow> j_list_seq j < e_next_list_seq e"
  by (auto simp: inv_def seq_ok_def)

lemma keyed_uniq:
  assumes "seq_ok L e" "(i, j) \<in> keyed_jobs L e" "(i', j') \<in> keyed_jobs L e" "j_list_seq j = j_list_seq j'"
  shows "i = i'"
proof -
  have "inj_on (\<lambda>x. j_list_seq (snd x)) (keyed_jobs L e)" using assms(1) by (simp add: seq_ok_def)
  from inj_onD [OF this, of "(i, j)" "(i', j')"] assms(2-) show ?thesis by simp
qed

lemma insert_buried_inv:
  assumes inv: "inv {jid} W G e" and j: "e_jobs e jid = Some j" and room: "e_next_list_seq e \<noteq> - 1"
  shows "inv {} W G (insert_buried (j_tube j) jid e)" (is "inv {} W G ?e")
proof (rule inv_move [OF inv])
  from inv_tube [OF inv j] obtain t where t: "tube e (j_tube j) = Some t" .
  note obs = insert_buried_obs [OF j t]
  note st = jobs_st_insert [OF obs(1)] count_insert [OF obs(1)] split_ex
  note v = view_simps obs j t
  show p: "unmoved ?e e" by (simp add: unmoved_def v)
  show "jobs_ok {} ?e" by (rule jobs_ok_change [OF inv_jobs [OF inv] p obs(1) j]) auto
  show "seq_ok {} ?e"
    by (rule seq_ok_insert [OF _ obs(1)]) (use inv room in \<open>simp_all add: inv_def obs(4)\<close>)
  show "ready_ok {} ?e"
    by (rule ready_frame [of "{jid}" e]) (use inv in \<open>simp_all add: inv_def st\<close>, simp_all add: v)
  show "delayed_ok {} ?e"
    by (rule delayed_frame [of "{jid}" e]) (use inv in \<open>simp_all add: inv_def st\<close>, simp_all add: v)
  show "reserved_ok {} ?e"
    by (rule reserved_frame [of "{jid}" e]) (use inv in \<open>simp_all add: inv_def st\<close>, simp_all add: v)
  have ok: "buried_ok {jid} e" using inv by (simp add: inv_def)
  have old: "j_list_seq k \<noteq> e_next_list_seq e" if "(i, k) \<in> jobs_st {jid} e Buried" for i k
    using keyed_seq_lt [OF inv, of i k] that by (auto simp: keyed_jobs_def)
  have "(\<forall>q i. t_buried t' q = Some i \<longleftrightarrow>
          (\<exists>k. (i, k) \<in> jobs_st {} ?e Buried \<and> j_tube k = tid \<and> j_list_seq k = q)) \<and>
        s_buried_ct (t_stat t') = of_nat (card (jobs_in {} ?e Buried (\<lambda>k. j_tube k = tid)))"
    if t': "tube ?e tid = Some t'" for tid t'
  proof (cases "tid = j_tube j")
    case True
    with t' buried_tubeD [OF ok t] old show ?thesis by (auto simp: obs(2) st split: if_splits)
  next
    case False
    with t' have "tube e tid = Some t'" by (simp add: obs)
    from False buried_tubeD [OF ok this] show ?thesis by (auto simp: st)
  qed
  with ok show "buried_ok {} ?e" by (simp add: buried_ok_def st obs(3))
  show "index_ok ?e"
    unfolding index_ok_pre
    by (rule pre_index_frame [of "{}" "{}" "{}" e])
       (use inv in \<open>simp_all add: inv_def index_ok_pre v\<close>)
qed

lemma remove_buried_obs:
  assumes "e_jobs e jid = Some j" "tube e tid = Some t" "t_buried t (j_list_seq j) = Some jid"
  shows "fst (remove_buried tid jid e)"
    "tube (snd (remove_buried tid jid e)) =
      (tube e)(tid \<mapsto> t\<lparr>t_buried := (t_buried t)(j_list_seq j := None),
        t_stat := (t_stat t)\<lparr>s_buried_ct := sat_sub (s_buried_ct (t_stat t)) 1\<rparr>\<rparr>)"
    "e_buried_ct (snd (remove_buried tid jid e)) = sat_sub (e_buried_ct e) 1"
  by (simp_all add: remove_buried_def Let_def assms)

lemma buried_entry:
  assumes "inv {} W G e" "e_jobs e jid = Some j" "j_state j = Buried" "tube e (j_tube j) = Some t"
  shows "t_buried t (j_list_seq j) = Some jid"
  using buried_tubeD [of "{}" e "j_tube j" t] assms by (auto simp: inv_def jobs_st_def)

lemma remove_buried_inv:
  assumes inv: "inv {} W G e" and j: "e_jobs e jid = Some j" and s: "j_state j = Buried"
  shows "inv {jid} W G (snd (remove_buried (j_tube j) jid e))" (is "inv _ W G ?e")
proof (rule inv_move [OF inv])
  from inv_tube [OF inv j] obtain t where t: "tube e (j_tube j) = Some t" .
  have ok: "buried_ok {} e" and sq: "seq_ok {} e" using inv by (simp_all add: inv_def)
  have in_st: "(jid, k) \<in> jobs_st {} e Buried \<longleftrightarrow> k = j" for k
    using j s by (auto simp: jobs_st_def)
  note obs = remove_buried_obs [OF j t buried_entry [OF inv j s t]]
  have same: "e_jobs ?e k = e_jobs e k" for k by simp
  note st = jobs_st_limbo [OF same] count_limbo [OF inv_jobs [OF inv] j same]
  note st' = jobs_st_limbo_other [OF same j] s
  note v = view_simps obs j t
  have jobs: "e_jobs ?e = (e_jobs e)(jid \<mapsto> j)" using j by (simp add: fun_upd_idem)
  show p: "unmoved ?e e" by (simp add: unmoved_def v)
  show "jobs_ok {jid} ?e"
    using jobs_jobD [OF inv_jobs [OF inv] j] s
    by (intro jobs_ok_change [OF inv_jobs [OF inv] p jobs j]) auto
  show "seq_ok {jid} ?e" by (rule seq_ok_limbo [OF sq]) simp_all
  show "ready_ok {jid} ?e"
    by (rule ready_frame [of "{}" e]) (use inv in \<open>simp_all add: inv_def st'\<close>, simp_all add: v)
  show "delayed_ok {jid} ?e"
    by (rule delayed_frame [of "{}" e]) (use inv in \<open>simp_all add: inv_def st'\<close>, simp_all add: v)
  show "reserved_ok {jid} ?e"
    by (rule reserved_frame [of "{}" e]) (use inv in \<open>simp_all add: inv_def st'\<close>, simp_all add: v)
  have uniq: "i = jid" if "(i, k) \<in> jobs_st {} e Buried" "j_list_seq k = j_list_seq j" for i k
    using keyed_uniq [OF sq, of i k jid j] that in_st [of j] by (auto simp: keyed_jobs_def)
  have "(\<forall>q i. t_buried t' q = Some i \<longleftrightarrow>
          (\<exists>k. (i, k) \<in> jobs_st {jid} ?e Buried \<and> j_tube k = tid \<and> j_list_seq k = q)) \<and>
        s_buried_ct (t_stat t') = of_nat (card (jobs_in {jid} ?e Buried (\<lambda>k. j_tube k = tid)))"
    if t': "tube ?e tid = Some t'" for tid t'
  proof (cases "tid = j_tube j")
    case True
    with t' have t1: "t_buried t' = (t_buried t)(j_list_seq j := None)"
      "s_buried_ct (t_stat t') = sat_sub (s_buried_ct (t_stat t)) 1" by (auto simp: obs(2))
    have "t_buried t' q = Some i \<longleftrightarrow>
        (\<exists>k. (i, k) \<in> jobs_st {jid} ?e Buried \<and> j_tube k = tid \<and> j_list_seq k = q)" for q i
    proof (cases "i = jid")
      case False
      then have "j_list_seq k \<noteq> j_list_seq j" if "(i, k) \<in> jobs_st {} e Buried" for k
        using uniq that by blast
      with False True buried_tubeD [OF ok t] show ?thesis by (auto simp: t1(1) st(1))
    qed (use buried_tubeD [OF ok t] True in \<open>simp add: t1(1) st(1) in_st\<close>)
    with True buried_tubeD [OF ok t] show ?thesis by (simp add: t1(2) st(2) s)
  next
    case False
    with t' have "tube e tid = Some t'" by (simp add: obs)
    with False buried_tubeD [OF ok this] show ?thesis by (auto simp: st in_st s)
  qed
  with ok show "buried_ok {jid} ?e" by (simp add: buried_ok_def st obs(3) s)
  show "index_ok ?e"
    unfolding index_ok_pre
    by (rule pre_index_frame [of "{}" "{}" "{}" e])
       (use inv in \<open>simp_all add: inv_def index_ok_pre v\<close>)
qed

text \<open>\<open>pop_buried_front\<close> removes the oldest buried job of the tube.\<close>

lemma pop_buried_front_eq:
  assumes "tube e tid = Some t" "first_key_value (t_buried t) = Some (q, jid)"
    "e_jobs e jid = Some j" "j_list_seq j = q"
  shows "pop_buried_front tid e = (Some jid, snd (remove_buried tid jid e))"
proof -
  from assms(2) have "t_buried t q = Some jid"
    by (auto simp: first_key_value_def split: option.splits)
  with assms show ?thesis by (simp add: pop_buried_front_def remove_buried_def)
qed

section \<open>Reserved\<close>

lemma do_reserve_obs:
  fixes now :: nanos
  assumes "e_jobs e jid = Some j" "tube e (j_tube j) = Some t" "e_conns e cid = Some c"
  defines "dl \<equiv> sat_add now (secs (j_ttr j))"
  defines "c1 \<equiv> c\<lparr>c_reserved := (c_reserved c)(e_next_list_seq e \<mapsto> jid),
    c_reserved_by_deadline := insert (dl, jid) (c_reserved_by_deadline c)\<rparr>"
  shows "e_jobs (do_reserve cid jid now e) =
      (e_jobs e)(jid \<mapsto> j\<lparr>j_state := Reserved, j_reserver := Some cid, j_deadline_at := dl,
        j_reserve_ct := j_reserve_ct j + 1, j_list_seq := e_next_list_seq e\<rparr>)"
    "tube (do_reserve cid jid now e) =
      (tube e)(j_tube j \<mapsto> t\<lparr>t_stat := (t_stat t)\<lparr>s_reserved_ct := s_reserved_ct (t_stat t) + 1\<rparr>\<rparr>)"
    "e_conns (do_reserve cid jid now e) = (e_conns e)(cid \<mapsto> c1\<lparr>c_tick_key := conn_tickat c1\<rparr>)"
    "e_reserved_ct (do_reserve cid jid now e) = e_reserved_ct e + 1"
    "e_next_list_seq (do_reserve cid jid now e) = e_next_list_seq e + 1"
  by (simp_all add: do_reserve_def Let_def assms)

lemma do_reserve_inv:
  assumes inv: "inv {jid} W G e" and j: "e_jobs e jid = Some j" and c: "e_conns e cid = Some c"
    and room: "e_next_list_seq e \<noteq> - 1"
  shows "inv {} W G (do_reserve cid jid now e)" (is "inv {} W G ?e")
proof (rule inv_move [OF inv])
  from inv_tube [OF inv j] obtain t where t: "tube e (j_tube j) = Some t" .
  note obs = do_reserve_obs [OF j t c, of now]
  note st = jobs_st_insert [OF obs(1)] count_insert [OF obs(1)] split_ex
  note v = view_simps obs j t c
  show p: "unmoved ?e e" by (simp add: unmoved_def v)
  show "jobs_ok {} ?e"
    by (rule jobs_ok_change [OF inv_jobs [OF inv] p obs(1) j]) (auto simp: c)
  show "seq_ok {} ?e"
    by (rule seq_ok_insert [OF _ obs(1)]) (use inv room in \<open>simp_all add: inv_def obs(5)\<close>)
  show "ready_ok {} ?e"
    by (rule ready_frame [of "{jid}" e]) (use inv in \<open>simp_all add: inv_def st\<close>, simp_all add: v)
  show "delayed_ok {} ?e"
    by (rule delayed_frame [of "{jid}" e]) (use inv in \<open>simp_all add: inv_def st\<close>, simp_all add: v)
  show "buried_ok {} ?e"
    by (rule buried_frame [of "{jid}" e]) (use inv in \<open>simp_all add: inv_def st\<close>, simp_all add: v)
  have ok: "reserved_ok {jid} e" using inv by (simp add: inv_def)
  have old: "j_list_seq k \<noteq> e_next_list_seq e" if "(i, k) \<in> jobs_st {jid} e Reserved" for i k
    using keyed_seq_lt [OF inv, of i k] that by (auto simp: keyed_jobs_def)
  have "(\<forall>q i. c_reserved c' q = Some i \<longleftrightarrow>
      (\<exists>k. (i, k) \<in> jobs_st {} ?e Reserved \<and> j_reserver k = Some cid' \<and> j_list_seq k = q)) \<and>
    (\<forall>d i. (d, i) \<in> c_reserved_by_deadline c' \<longleftrightarrow>
      (\<exists>k. (i, k) \<in> jobs_st {} ?e Reserved \<and> j_reserver k = Some cid' \<and> j_deadline_at k = d))"
    if c': "e_conns ?e cid' = Some c'" for cid' c'
  proof (cases "cid' = cid")
    case True
    with c' reserved_connD [OF ok c] old show ?thesis by (auto simp: obs(3) st split: if_splits)
  next
    case False
    with c' have "e_conns e cid' = Some c'" by (simp add: obs)
    from False reserved_connD [OF ok this] show ?thesis by (auto simp: st)
  qed
  moreover have "s_reserved_ct (t_stat t') =
      of_nat (card (jobs_in {} ?e Reserved (\<lambda>k. j_tube k = tid)))" if "tube ?e tid = Some t'" for tid t'
    using that reserved_tubeD [OF ok t] reserved_tubeD [OF ok, of tid]
    by (cases "tid = j_tube j") (auto simp: obs(2) st)
  moreover have "e_reserved_ct ?e = of_nat (card (jobs_in {} ?e Reserved (\<lambda>j. True)))"
    using ok by (simp add: reserved_ok_def st obs(4))
  ultimately show "reserved_ok {} ?e" by (simp add: reserved_ok_def)
  show "index_ok ?e"
    unfolding index_ok_pre do_reserve_def Let_def j option.case
    by (rule pre_index_refresh_conn_tick, rule pre_index_frame [of "{}" "{}" "{}" e])
       (use inv in \<open>simp_all add: inv_def index_ok_pre view_simps t j c\<close>)
qed

lemma do_unreserve_obs:
  assumes "e_jobs e jid = Some j" "tube e (j_tube j) = Some t" "e_conns e cid = Some c"
    "c_reserved c (j_list_seq j) = Some jid"
  defines "c1 \<equiv> c\<lparr>c_reserved := (c_reserved c)(j_list_seq j := None),
    c_reserved_by_deadline := c_reserved_by_deadline c - {(j_deadline_at j, jid)}\<rparr>"
  shows "e_jobs (do_unreserve cid jid e) = (e_jobs e)(jid \<mapsto> j\<lparr>j_reserver := None\<rparr>)"
    "tube (do_unreserve cid jid e) = (tube e)(j_tube j \<mapsto>
      t\<lparr>t_stat := (t_stat t)\<lparr>s_reserved_ct := sat_sub (s_reserved_ct (t_stat t)) 1\<rparr>\<rparr>)"
    "e_conns (do_unreserve cid jid e) = (e_conns e)(cid \<mapsto> c1\<lparr>c_tick_key := conn_tickat c1\<rparr>)"
    "e_reserved_ct (do_unreserve cid jid e) = sat_sub (e_reserved_ct e) 1"
  by (simp_all add: do_unreserve_def Let_def assms)

lemma reserved_entry:
  assumes "inv {} W G e" "e_jobs e jid = Some j" "j_reserver j = Some cid"
  obtains c where "e_conns e cid = Some c" "j_state j = Reserved" "c_reserved c (j_list_seq j) = Some jid"
    "(j_deadline_at j, jid) \<in> c_reserved_by_deadline c"
proof -
  have s: "j_state j = Reserved" and "e_conns e cid \<noteq> None"
    using jobs_jobD [OF inv_jobs [OF assms(1)] assms(2)] assms(3) by auto
  then obtain c where c: "e_conns e cid = Some c" by auto
  have "reserved_ok {} e" using assms(1) by (simp add: inv_def)
  from reserved_connD [OF this c] s assms(2,3) that [OF c] show ?thesis
    by (auto simp: jobs_st_def)
qed

lemma do_unreserve_inv:
  assumes inv: "inv {} W G e" and j: "e_jobs e jid = Some j" and r: "j_reserver j = Some cid"
  shows "inv {jid} W G (do_unreserve cid jid e)" (is "inv _ W G ?e")
proof (rule inv_move [OF inv])
  from inv_tube [OF inv j] obtain t where t: "tube e (j_tube j) = Some t" .
  from reserved_entry [OF inv j r] obtain c where c: "e_conns e cid = Some c"
    and s: "j_state j = Reserved" and q: "c_reserved c (j_list_seq j) = Some jid" by blast
  have ok: "reserved_ok {} e" and sq: "seq_ok {} e" using inv by (simp_all add: inv_def)
  have in_st: "(jid, k) \<in> jobs_st {} e Reserved \<longleftrightarrow> k = j" for k
    using j s by (auto simp: jobs_st_def)
  note obs = do_unreserve_obs [OF j t c q]
  have same: "k \<noteq> jid \<Longrightarrow> e_jobs ?e k = e_jobs e k" for k by (simp add: obs(1))
  note st = jobs_st_limbo [OF same] count_limbo [OF inv_jobs [OF inv] j same]
  note st' = jobs_st_limbo_other [OF same j] s
  note v = view_simps obs j t c
  show p: "unmoved ?e e" by (simp add: unmoved_def v)
  show "jobs_ok {jid} ?e"
    by (rule jobs_ok_change [OF inv_jobs [OF inv] p obs(1) j]) auto
  show "seq_ok {jid} ?e" by (rule seq_ok_limbo [OF sq]) (simp_all add: obs(1))
  show "ready_ok {jid} ?e"
    by (rule ready_frame [of "{}" e]) (use inv in \<open>simp_all add: inv_def st'\<close>, simp_all add: v)
  show "delayed_ok {jid} ?e"
    by (rule delayed_frame [of "{}" e]) (use inv in \<open>simp_all add: inv_def st'\<close>, simp_all add: v)
  show "buried_ok {jid} ?e"
    by (rule buried_frame [of "{}" e]) (use inv in \<open>simp_all add: inv_def st'\<close>, simp_all add: v)
  have uniq: "i = jid" if "(i, k) \<in> jobs_st {} e Reserved" "j_list_seq k = j_list_seq j" for i k
    using keyed_uniq [OF sq, of i k jid j] that in_st [of j] by (auto simp: keyed_jobs_def)
  have "(\<forall>q i. c_reserved c' q = Some i \<longleftrightarrow>
      (\<exists>k. (i, k) \<in> jobs_st {jid} ?e Reserved \<and> j_reserver k = Some cid' \<and> j_list_seq k = q)) \<and>
    (\<forall>d i. (d, i) \<in> c_reserved_by_deadline c' \<longleftrightarrow>
      (\<exists>k. (i, k) \<in> jobs_st {jid} ?e Reserved \<and> j_reserver k = Some cid' \<and> j_deadline_at k = d))"
    if c': "e_conns ?e cid' = Some c'" for cid' c'
  proof (cases "cid' = cid")
    case True
    with c' have c1: "c_reserved c' = (c_reserved c)(j_list_seq j := None)"
      "c_reserved_by_deadline c' = c_reserved_by_deadline c - {(j_deadline_at j, jid)}"
      by (auto simp: obs(3))
    have "c_reserved c' q = Some i \<longleftrightarrow>
        (\<exists>k. (i, k) \<in> jobs_st {jid} ?e Reserved \<and> j_reserver k = Some cid \<and> j_list_seq k = q)" for q i
    proof (cases "i = jid")
      case False
      then have "j_list_seq k \<noteq> j_list_seq j" if "(i, k) \<in> jobs_st {} e Reserved" for k
        using uniq that by blast
      with False reserved_connD [OF ok c] show ?thesis by (auto simp: c1(1) st(1))
    qed (use reserved_connD [OF ok c] in \<open>simp add: c1(1) st(1) in_st\<close>)
    moreover have "(d, i) \<in> c_reserved_by_deadline c' \<longleftrightarrow>
        (\<exists>k. (i, k) \<in> jobs_st {jid} ?e Reserved \<and> j_reserver k = Some cid \<and> j_deadline_at k = d)" for d i
      using reserved_connD [OF ok c] by (cases "i = jid") (auto simp: c1(2) st(1) in_st)
    ultimately show ?thesis using True by blast
  next
    case False
    with c' have "e_conns e cid' = Some c'" by (simp add: obs)
    with False reserved_connD [OF ok this] show ?thesis by (auto simp: st in_st r)
  qed
  moreover have "s_reserved_ct (t_stat t') =
      of_nat (card (jobs_in {jid} ?e Reserved (\<lambda>k. j_tube k = tid)))" if "tube ?e tid = Some t'" for tid t'
    using that reserved_tubeD [OF ok t] reserved_tubeD [OF ok, of tid]
    by (cases "tid = j_tube j") (auto simp: obs(2) st s)
  moreover have "e_reserved_ct ?e = of_nat (card (jobs_in {jid} ?e Reserved (\<lambda>j. True)))"
    using ok by (simp add: reserved_ok_def st obs(4) s)
  ultimately show "reserved_ok {jid} ?e" by (simp add: reserved_ok_def)
  show "index_ok ?e"
    unfolding index_ok_pre do_unreserve_def Let_def j option.case prod.case
    by (rule pre_index_refresh_conn_tick, rule pre_index_frame [of "{}" "{}" "{}" e])
       (use inv in \<open>simp_all add: inv_def index_ok_pre view_simps t j c q\<close>)
qed

end
