(* ===== verification/Engine_Wait.thy ===== *)
theory Engine_Wait
  imports Engine_Moves
begin

text \<open>
  The operations on waiting connections and on pauses keep the invariant:
  \<open>enqueue_waiting_conn\<close>, \<open>do_remove_waiting_conn\<close>, the \<open>take\<close> of \<open>process_queue\<close> and
  \<open>clear_expired_pauses\<close>.
\<close>

section \<open>Operations that leave jobs and references alone\<close>

definition still :: "engine \<Rightarrow> engine \<Rightarrow> bool" where
  "still e' e \<longleftrightarrow>
     tv t_name e' = tv t_name e \<and> tv t_pos e' = tv t_pos e \<and> tv t_using_ct e' = tv t_using_ct e \<and>
     tv t_watching_ct e' = tv t_watching_ct e \<and> tv t_job_ref_ct e' = tv t_job_ref_ct e \<and>
     tv t_ready e' = tv t_ready e \<and> tv t_delayed e' = tv t_delayed e \<and> tv t_buried e' = tv t_buried e \<and>
     tv (\<lambda>t. s_urgent_ct (t_stat t)) e' = tv (\<lambda>t. s_urgent_ct (t_stat t)) e \<and>
     tv (\<lambda>t. s_buried_ct (t_stat t)) e' = tv (\<lambda>t. s_buried_ct (t_stat t)) e \<and>
     tv (\<lambda>t. s_reserved_ct (t_stat t)) e' = tv (\<lambda>t. s_reserved_ct (t_stat t)) e \<and>
     cv c_use_tube e' = cv c_use_tube e \<and> cv c_watch e' = cv c_watch e \<and>
     cv c_pending_put e' = cv c_pending_put e \<and> cv c_is_producer e' = cv c_is_producer e \<and>
     cv c_is_worker e' = cv c_is_worker e \<and> cv c_reserved e' = cv c_reserved e \<and>
     cv c_reserved_by_deadline e' = cv c_reserved_by_deadline e \<and>
     e_jobs e' = e_jobs e \<and> e_next_job_id e' = e_next_job_id e \<and>
     e_next_list_seq e' = e_next_list_seq e \<and> e_tube_ids e' = e_tube_ids e \<and>
     e_tube_order e' = e_tube_order e \<and> e_free_tube_ids e' = e_free_tube_ids e \<and>
     length (e_tubes e') = length (e_tubes e) \<and> e_ready_ct e' = e_ready_ct e \<and>
     e_urgent_ct e' = e_urgent_ct e \<and> e_delayed_ct e' = e_delayed_ct e \<and>
     e_buried_ct e' = e_buried_ct e \<and> e_reserved_ct e' = e_reserved_ct e \<and>
     e_cur_conns e' = e_cur_conns e \<and> e_cur_producers e' = e_cur_producers e \<and>
     e_cur_workers e' = e_cur_workers e"

lemma jobs_st_cong: "e_jobs e' = e_jobs e \<Longrightarrow> jobs_st L e' st = jobs_st L e st"
  by (simp add: jobs_st_def)

lemma inv_still:
  assumes inv: "inv L W G e" and "still e' e" "wait_ok W' e'" "index_ok e'"
  shows "inv L W' G e'"
proof -
  note fr = assms(2) [unfolded still_def]
  have j: "jv j_tube e' = jv j_tube e" using fr by (simp add: jv_def fun_eq_iff)
  have st: "jobs_st L e' s = jobs_st L e s" for s using fr by (intro jobs_st_cong) simp
  have "slab_ok e'" by (rule slab_frame [of e]) (use inv fr in \<open>simp_all add: inv_def j st\<close>)
  moreover have "refs_ok G e'" by (rule refs_frame [of G e]) (use inv fr in \<open>simp_all add: inv_def j st\<close>)
  moreover have "jobs_ok L e'"
    by (rule jobs_frame [of L e _ t_name c_watch]) (use inv fr in \<open>simp_all add: inv_def j st\<close>)
  moreover have "seq_ok L e'" by (rule seq_frame [of L e]) (use inv fr in \<open>simp_all add: inv_def j st\<close>)
  moreover have "pending_ok e'" by (rule pending_frame [of e]) (use inv fr in \<open>simp_all add: inv_def j st\<close>)
  moreover have "ready_ok L e'" by (rule ready_frame [of L e]) (use inv fr in \<open>simp_all add: inv_def j st\<close>)
  moreover have "delayed_ok L e'" by (rule delayed_frame [of L e]) (use inv fr in \<open>simp_all add: inv_def j st\<close>)
  moreover have "buried_ok L e'" by (rule buried_frame [of L e]) (use inv fr in \<open>simp_all add: inv_def j st\<close>)
  moreover have "reserved_ok L e'" by (rule reserved_frame [of L e]) (use inv fr in \<open>simp_all add: inv_def j st\<close>)
  moreover have "conn_counts_ok e'" by (rule conn_counts_frame [of e]) (use inv fr in \<open>simp_all add: inv_def j st\<close>)
  ultimately show ?thesis using assms(3,4) by (simp add: inv_def)
qed

section \<open>Joining and leaving the queues of the watched tubes\<close>

lemma wait_in_tube_index:
  assumes "pre_index {} Y Z e" shows "pre_index {} Y Z (wait_in_tube cid tid e)"
  unfolding wait_in_tube_def
  by (rule pre_index_refresh_dispatchable, rule pre_index_frame [OF assms])
     (auto simp: view_simps option.map_comp comp_def)

lemma unwait_in_tube_index:
  assumes "pre_index {} Y Z e" shows "pre_index {} Y Z (unwait_in_tube cid tid e)"
  unfolding unwait_in_tube_def
  by (rule pre_index_refresh_dispatchable, rule pre_index_frame [OF assms])
     (auto simp: view_simps option.map_comp comp_def)

lemma fold_wait_index:
  "pre_index {} Y Z e \<Longrightarrow> pre_index {} Y Z (fold (wait_in_tube cid) ts e)"
  by (induction ts arbitrary: e) (simp_all add: wait_in_tube_index)

lemma fold_unwait_index:
  "pre_index {} Y Z e \<Longrightarrow> pre_index {} Y Z (fold (unwait_in_tube cid) ts e)"
  by (induction ts arbitrary: e) (simp_all add: unwait_in_tube_index)

text \<open>What one tube looks like after the connection has joined or left it.\<close>

definition joined :: "conn_id \<Rightarrow> tube_state \<Rightarrow> tube_state" where
  "joined cid t =
     (let t = t\<lparr>t_stat := (t_stat t)\<lparr>s_waiting_ct := s_waiting_ct (t_stat t) + 1\<rparr>,
                t_waiting_conns := ms_append cid (t_waiting_conns t)\<rparr>
      in t\<lparr>t_dispatchable := wants_dispatch t\<rparr>)"

definition left :: "conn_id \<Rightarrow> tube_state \<Rightarrow> tube_state" where
  "left cid t =
     (let t = t\<lparr>t_stat := (t_stat t)\<lparr>s_waiting_ct := sat_sub (s_waiting_ct (t_stat t)) 1\<rparr>,
                t_waiting_conns := snd (ms_remove cid (t_waiting_conns t))\<rparr>
      in t\<lparr>t_dispatchable := wants_dispatch t\<rparr>)"

lemma tube_wait_in_tube [simp]:
  "tube (wait_in_tube cid tid e) = (tube e)(tid := map_option (joined cid) (tube e tid))"
  by (cases "tube e tid") (simp_all add: wait_in_tube_def joined_def Let_def)

lemma tube_unwait_in_tube [simp]:
  "tube (unwait_in_tube cid tid e) = (tube e)(tid := map_option (left cid) (tube e tid))"
  by (cases "tube e tid") (simp_all add: unwait_in_tube_def left_def Let_def)

lemma tube_fold_wait:
  "distinct ts \<Longrightarrow> tube (fold (wait_in_tube cid) ts e) x =
     (if x \<in> set ts then map_option (joined cid) (tube e x) else tube e x)"
  by (induction ts arbitrary: e) auto

lemma tube_fold_unwait:
  "distinct ts \<Longrightarrow> tube (fold (unwait_in_tube cid) ts e) x =
     (if x \<in> set ts then map_option (left cid) (tube e x) else tube e x)"
  by (induction ts arbitrary: e) auto

lemma tv_fold_wait:
  assumes "\<And>t. pr (joined cid t) = pr t"
  shows "tv pr (fold (wait_in_tube cid) ts e) = tv pr e"
  by (induction ts arbitrary: e) (simp_all add: tv_def fun_eq_iff option.map_comp comp_def assms)

lemma tv_fold_unwait:
  assumes "\<And>t. pr (left cid t) = pr t"
  shows "tv pr (fold (unwait_in_tube cid) ts e) = tv pr e"
  by (induction ts arbitrary: e) (simp_all add: tv_def fun_eq_iff option.map_comp comp_def assms)

lemma tv_cong: "tube e' = tube e \<Longrightarrow> tv pr e' = tv pr e"
  by (simp add: tv_def fun_eq_iff)

lemma tube_fold_cong:
  assumes "\<And>x e e'. tube e' = tube e \<Longrightarrow> tube (f x e') = tube (f x e)"
  shows "tube e' = tube e \<Longrightarrow> tube (fold f ts e') = tube (fold f ts e)"
proof (induction ts arbitrary: e e')
  case (Cons x ts)
  from Cons.IH [OF assms [OF Cons.prems]] show ?case by simp
qed simp

lemma tube_enqueue:
  assumes "e_conns e cid = Some c"
  shows "tube (enqueue_waiting_conn cid wd e) = tube (fold (wait_in_tube cid) (ms_items (c_watch c)) e)"
  using assms
  by (simp add: enqueue_waiting_conn_def Let_def) (rule tube_fold_cong, simp_all)

lemma tube_do_remove:
  assumes "e_conns e cid = Some c" "c_waiting c"
  shows "tube (do_remove_waiting_conn cid e) = tube (fold (unwait_in_tube cid) (ms_items (c_watch c)) e)"
  using assms
  by (simp add: do_remove_waiting_conn_def Let_def) (rule tube_fold_cong, simp_all)

lemma enqueue_waiting_conn_obs:
  fixes wd :: "nanos option"
  assumes c: "e_conns e cid = Some c"
  defines "c1 \<equiv> c\<lparr>c_waiting := True, c_wait_deadline := wd\<rparr>"
  shows "e_conns (enqueue_waiting_conn cid wd e) = (e_conns e)(cid \<mapsto> c1\<lparr>c_tick_key := conn_tickat c1\<rparr>)"
    "e_waiting_ct (enqueue_waiting_conn cid wd e) = e_waiting_ct e + 1"
  by (simp_all add: c1_def enqueue_waiting_conn_def Let_def c)

lemma do_remove_waiting_conn_obs:
  assumes c: "e_conns e cid = Some c" "c_waiting c"
  defines "c1 \<equiv> c\<lparr>c_waiting := False, c_wait_deadline := None\<rparr>"
  shows "e_conns (do_remove_waiting_conn cid e) = (e_conns e)(cid \<mapsto> c1\<lparr>c_tick_key := conn_tickat c1\<rparr>)"
    "e_waiting_ct (do_remove_waiting_conn cid e) = sat_sub (e_waiting_ct e) 1"
  by (simp_all add: c1_def do_remove_waiting_conn_def Let_def c)

lemma tv_enqueue:
  assumes "e_conns e cid = Some c" "\<And>t. pr (joined cid t) = pr t"
  shows "tv pr (enqueue_waiting_conn cid wd e) = tv pr e"
  unfolding tv_cong [OF tube_enqueue [OF assms(1)]] by (rule tv_fold_wait [of pr cid, OF assms(2)])

lemma tv_do_remove:
  assumes "e_conns e cid = Some c" "c_waiting c" "\<And>t. pr (left cid t) = pr t"
  shows "tv pr (do_remove_waiting_conn cid e) = tv pr e"
  unfolding tv_cong [OF tube_do_remove [OF assms(1,2)]] by (rule tv_fold_unwait [of pr cid, OF assms(3)])

lemma enqueue_still: "e_conns e cid = Some c \<Longrightarrow> still (enqueue_waiting_conn cid wd e) e"
  by (simp add: still_def tv_enqueue joined_def Let_def)
     (simp add: cv_def fun_eq_iff enqueue_waiting_conn_obs)

lemma do_remove_still:
  "e_conns e cid = Some c \<Longrightarrow> c_waiting c \<Longrightarrow> still (do_remove_waiting_conn cid e) e"
  by (simp add: still_def tv_do_remove left_def Let_def)
     (simp add: cv_def fun_eq_iff do_remove_waiting_conn_obs)

lemma enqueue_index:
  assumes "index_ok e" "e_conns e cid = Some c"
  shows "index_ok (enqueue_waiting_conn cid wd e)"
proof -
  let ?e1 = "(conn_mut cid (\<lambda>c. c\<lparr>c_waiting := True, c_wait_deadline := wd, c_watch := ms_new\<rparr>) e)
    \<lparr>e_waiting_ct := e_waiting_ct e + 1\<rparr>"
  have "pre_index {} {} {cid} ?e1"
    by (rule pre_index_frame [of "{}" "{}" "{}" e])
       (use assms in \<open>simp_all add: index_ok_pre view_simps\<close>)
  then have "pre_index {} {} {cid} (fold (wait_in_tube cid) (ms_items (c_watch c)) ?e1)"
    by (rule fold_wait_index)
  then show ?thesis
    unfolding index_ok_pre enqueue_waiting_conn_def assms(2) option.case Let_def
    by (intro pre_index_refresh_conn_tick, elim pre_index_frame)
       (simp_all add: view_simps assms(2))
qed

lemma do_remove_index:
  assumes "index_ok e" "e_conns e cid = Some c" "c_waiting c"
  shows "index_ok (do_remove_waiting_conn cid e)"
proof -
  let ?e1 = "(conn_mut cid (\<lambda>c. c\<lparr>c_waiting := False, c_wait_deadline := None, c_watch := ms_new\<rparr>) e)
    \<lparr>e_waiting_ct := sat_sub (e_waiting_ct e) 1\<rparr>"
  have "pre_index {} {} {cid} ?e1"
    by (rule pre_index_frame [of "{}" "{}" "{}" e])
       (use assms in \<open>simp_all add: index_ok_pre view_simps\<close>)
  then have "pre_index {} {} {cid} (fold (unwait_in_tube cid) (ms_items (c_watch c)) ?e1)"
    by (rule fold_unwait_index)
  then show ?thesis
    unfolding index_ok_pre do_remove_waiting_conn_def assms(2) option.case Let_def
    by (simp add: assms(3)) (intro pre_index_refresh_conn_tick, elim pre_index_frame,
       simp_all add: view_simps assms(2))
qed

lemma card_conns_bound: "inv L W G e \<Longrightarrow> A \<subseteq> dom (e_conns e) \<Longrightarrow> card A < 2 ^ 32"
  using card_mono [of "dom (e_conns e)" A] by (auto simp: inv_def refs_ok_def)

lemma inv_conn:
  assumes "inv L W G e" "e_conns e cid = Some c"
  shows "tube e (c_use_tube c) \<noteq> None" "distinct (ms_items (c_watch c))"
    "\<forall>tid \<in> set (ms_items (c_watch c)). tube e tid \<noteq> None"
  using assms by (simp_all add: inv_def refs_ok_def)

lemma waiting_dom: "waiting_conns e \<subseteq> dom (e_conns e)" "waiters e tid \<subseteq> dom (e_conns e)"
  by (auto simp: waiting_conns_def waiters_def)

lemma enqueue_waiting_conn_inv:
  assumes inv: "inv L {} G e" and c: "e_conns e cid = Some c" and nw: "\<not> c_waiting c"
  shows "inv L {} G (enqueue_waiting_conn cid wd e)" (is "inv _ _ _ ?e")
proof (rule inv_still [OF inv enqueue_still [OF c]])
  have ok: "wait_ok {} e" using inv by (simp add: inv_def)
  note obs = enqueue_waiting_conn_obs [OF c, of wd]
  note dist = inv_conn(2) [OF inv c]
  have tube: "tube ?e x = (if x \<in> set (ms_items (c_watch c)) then map_option (joined cid) (tube e x)
      else tube e x)" for x
    by (simp add: tube_enqueue [OF c] tube_fold_wait [OF dist])
  have w: "watchers ?e x = watchers e x" for x
    by (rule watchers_cong) (use enqueue_still [OF c] in \<open>simp add: still_def\<close>)
  have wc: "waiting_conns ?e = insert cid (waiting_conns e)"
    by (auto simp: waiting_conns_def obs)
  have cid: "cid \<notin> waiting_conns e" "cid \<in> watchers e x \<longleftrightarrow> x \<in> set (ms_items (c_watch c))" for x
    using c nw by (auto simp: waiting_conns_def watchers_def)
  have ws: "waiters ?e x =
      (if x \<in> set (ms_items (c_watch c)) then insert cid (waiters e x) else waiters e x)" for x
    using cid by (auto simp: waiters_def w wc)
  have "distinct (ms_items (t_waiting_conns t)) \<and>
      set (ms_items (t_waiting_conns t)) = {k \<in> waiters ?e x. (k, x) \<notin> {}} \<and>
      s_waiting_ct (t_stat t) = of_nat (card (waiters ?e x))" if t: "tube ?e x = Some t" for x t
  proof (cases "x \<in> set (ms_items (c_watch c))")
    case True
    with t obtain t0 where t0: "tube e x = Some t0" "t = joined cid t0" by (auto simp: tube)
    have "cid \<notin> waiters e x" using cid(1) by (simp add: waiters_def)
    with wait_tubeD [OF ok t0(1)] True show ?thesis
      by (simp add: t0(2) joined_def Let_def ws) blast
  next
    case False
    with t wait_tubeD [OF ok, of x t] show ?thesis by (simp add: tube ws)
  qed
  moreover have "c_wait_deadline k = None" if "e_conns ?e x = Some k" "\<not> c_waiting k" for x k
    using that wait_connD [OF ok, of x k] by (auto simp: obs split: if_splits)
  ultimately show "wait_ok {} ?e"
    using ok cid(1) by (simp add: wait_ok_def wc obs)
  show "index_ok ?e" by (rule enqueue_index [OF _ c]) (use inv in \<open>simp add: inv_def\<close>)
qed

lemma do_remove_waiting_conn_inv:
  assumes inv: "inv L W G e" and c: "e_conns e cid = Some c" "c_waiting c"
    and W: "W \<subseteq> {cid} \<times> UNIV"
  shows "inv L {} G (do_remove_waiting_conn cid e)" (is "inv _ _ _ ?e")
proof (rule inv_still [OF inv do_remove_still [OF c]])
  have ok: "wait_ok W e" using inv by (simp add: inv_def)
  note obs = do_remove_waiting_conn_obs [OF c]
  note dist = inv_conn(2) [OF inv c(1)]
  have tube: "tube ?e x = (if x \<in> set (ms_items (c_watch c)) then map_option (left cid) (tube e x)
      else tube e x)" for x
    by (simp add: tube_do_remove [OF c] tube_fold_unwait [OF dist])
  have w: "watchers ?e x = watchers e x" for x
    by (rule watchers_cong) (use do_remove_still [OF c] in \<open>simp add: still_def\<close>)
  have wc: "waiting_conns ?e = waiting_conns e - {cid}"
    by (auto simp: waiting_conns_def obs)
  have cid: "cid \<in> waiting_conns e" "cid \<in> watchers e x \<longleftrightarrow> x \<in> set (ms_items (c_watch c))" for x
    using c by (auto simp: waiting_conns_def watchers_def)
  have ws: "waiters ?e x = waiters e x - {cid}" for x by (auto simp: waiters_def w wc)
  have bound: "card (waiters e x) < 2 ^ LENGTH(64)" "card (waiting_conns e) < 2 ^ LENGTH(64)" for x
    using card_conns_bound [OF inv waiting_dom(2), of x] card_conns_bound [OF inv waiting_dom(1)]
    by simp_all
  have "distinct (ms_items (t_waiting_conns t)) \<and>
      set (ms_items (t_waiting_conns t)) = {k \<in> waiters ?e x. (k, x) \<notin> {}} \<and>
      s_waiting_ct (t_stat t) = of_nat (card (waiters ?e x))" if t: "tube ?e x = Some t" for x t
  proof (cases "x \<in> set (ms_items (c_watch c))")
    case True
    with t obtain t0 where t0: "tube e x = Some t0" "t = left cid t0" by (auto simp: tube)
    have "cid \<in> waiters e x" using True cid by (simp add: waiters_def)
    moreover have "{k \<in> waiters e x. (k, x) \<notin> W} - {cid} = waiters e x - {cid}" using W by auto
    ultimately show ?thesis
      using wait_tubeD [OF ok t0(1)] card_minus_1 [OF \<open>cid \<in> waiters e x\<close> bound(1)]
      by (simp add: t0(2) left_def Let_def ws ms_remove_distinct) blast
  next
    case False
    then have "cid \<notin> waiters e x" using cid by (simp add: waiters_def)
    with False t wait_tubeD [OF ok, of x t] W show ?thesis by (auto simp: tube ws)
  qed
  moreover have "c_wait_deadline k = None" if "e_conns ?e x = Some k" "\<not> c_waiting k" for x k
    using that wait_connD [OF ok, of x k] by (auto simp: obs split: if_splits)
  moreover have "e_waiting_ct ?e = of_nat (card (waiting_conns ?e))"
    using ok card_minus_1 [OF cid(1) bound(2)] by (simp add: wait_ok_def wc obs)
  ultimately show "wait_ok {} ?e" by (simp add: wait_ok_def)
  show "index_ok ?e" by (rule do_remove_index [OF _ c]) (use inv in \<open>simp add: inv_def\<close>)
qed

section \<open>Taking a waiter off one tube\<close>

lemma take_waiter_inv:
  assumes inv: "inv L {} G e" and t: "tube e tid = Some t" and tk: "ms_take (t_waiting_conns t) = (Some cid, w)"
  shows "inv L {(cid, tid)} G (refresh_dispatchable tid (snd (take_waiter tid e)))" (is "inv _ _ _ ?e")
    and "fst (take_waiter tid e) = Some cid" "cid \<in> waiters e tid"
proof -
  have ok: "wait_ok {} e" using inv by (simp add: inv_def)
  have d: "distinct (ms_items (t_waiting_conns t))" using wait_tubeD [OF ok t] by simp
  from ms_take_distinct [OF d tk] wait_tubeD [OF ok t]
  have w: "distinct (ms_items w)" "set (ms_items w) = waiters e tid - {cid}" and cid: "cid \<in> waiters e tid"
    by auto
  then show "cid \<in> waiters e tid" by simp
  show "fst (take_waiter tid e) = Some cid" by (simp add: take_waiter_def t tk)
  have e: "snd (take_waiter tid e) = tube_mut tid (\<lambda>t. t\<lparr>t_waiting_conns := w\<rparr>) e"
    by (simp add: take_waiter_def t tk)
  show "inv L {(cid, tid)} G ?e"
  proof (rule inv_still [OF inv])
    show "still ?e e" by (simp add: still_def e) (simp add: view_simps t)
    have "waiters ?e x = waiters e x" for x
      by (simp add: waiters_def watchers_def waiting_conns_def e)
    moreover have "waiting_conns ?e = waiting_conns e" by (simp add: waiting_conns_def e)
    ultimately show "wait_ok {(cid, tid)} ?e"
      using ok wait_tubeD [OF ok t] w by (auto simp: wait_ok_def e t)
    show "index_ok ?e"
      unfolding index_ok_pre e
      by (rule pre_index_refresh_dispatchable, rule pre_index_frame [of "{}" "{}" "{}" e])
         (use inv in \<open>simp_all add: inv_def index_ok_pre view_simps t\<close>)
  qed
qed

section \<open>Expired pauses\<close>

lemma finite_pauses:
  assumes "index_ok e" shows "finite (e_pauses e)"
proof (rule finite_subset)
  show "e_pauses e \<subseteq> UNIV \<times> {..<length (e_tubes e)}"
    using assms tube_Some_length by (fastforce simp: index_ok_def pauses_ok_def)
qed simp

lemma index_frame_pauses:
  assumes ix: "index_ok e"
    and same: "tv t_dispatchable e' = tv t_dispatchable e" "e_dispatchable e' = e_dispatchable e"
      "tv t_delay_head e' = tv t_delay_head e" "e_delay_heads e' = e_delay_heads e"
      "cv c_tick_key e' = cv c_tick_key e" "e_conn_ticks e' = e_conn_ticks e"
      "tv (\<lambda>t. (t_waiting_conns t, t_ready t)) e' = tv (\<lambda>t. (t_waiting_conns t, t_ready t)) e"
      "tv t_delayed e' = tv t_delayed e" "cv conn_tickat e' = cv conn_tickat e"
    and "pauses_ok e'"
  shows "index_ok e'"
  using assms disp_fresh_frame [of "{}" e e'] dly_fresh_frame [of "{}" e e']
    tik_fresh_frame [of "{}" e e'] disp_frame [of e' e] dly_frame [of e' e] tik_frame [of e' e]
  by (simp add: index_ok_def)

lemma clear_first_pause_inv:
  assumes inv: "inv L W G e" and p: "first_of (e_pauses e) = Some (at, tid)"
  shows "inv L W G (clear_first_pause e)" (is "inv _ _ _ ?e")
    and "e_pauses (clear_first_pause e) = e_pauses e - {(at, tid)}"
    and "(at, tid) \<in> e_pauses e"
proof -
  have ix: "index_ok e" using inv by (simp add: inv_def)
  show mem: "(at, tid) \<in> e_pauses e" using first_of_SomeD(1) [OF p finite_pauses [OF ix]] .
  with ix obtain t where t: "tube e tid = Some t" "t_unpause_at t = at"
    by (auto simp: index_ok_def pauses_ok_def)
  have e: "?e = tube_mut tid (\<lambda>t. t\<lparr>t_pause := 0\<rparr>) (e\<lparr>e_pauses := e_pauses e - {(at, tid)}\<rparr>)"
    by (simp add: clear_first_pause_def p)
  show ps: "e_pauses ?e = e_pauses e - {(at, tid)}" by (simp add: e)
  show "inv L W G ?e"
  proof (rule inv_still [OF inv])
    show "still ?e e" by (simp add: still_def e) (simp add: view_simps t)
    show "wait_ok W ?e" by (rule wait_frame [of W e]) (use inv in \<open>simp_all add: inv_def view_simps e t\<close>)
    show "index_ok ?e"
    proof (rule index_frame_pauses [OF ix])
      show "pauses_ok ?e" using ix t by (auto simp: index_ok_def pauses_ok_def e)
    qed (simp_all add: view_simps e t)
  qed
qed

end
