(* ===== verification/Engine_Dispatch.thy ===== *)
theory Engine_Dispatch
  imports Engine_Wait
begin

text \<open>
  \<open>process_queue\<close>: it returns, keeps the invariant, hands out the ready jobs in priority
  order, and leaves no tube that has both ready jobs and waiting connections unless it is
  paused. \<open>dispatched\<close> is the contract the commands rely on: which jobs it may change and
  how.
\<close>

section \<open>The best job\<close>

definition cand :: "engine \<Rightarrow> tube_id \<Rightarrow> (u32 \<times> job_id) option" where
  "cand e tid = (case tube e tid of
     None \<Rightarrow> None | Some t \<Rightarrow> if t_pause t > 0 then None else first_of (t_ready t))"

lemma better_cand:
  "better e tid best =
     (case cand e tid of
        None \<Rightarrow> best
      | Some (p, i) \<Rightarrow>
          (case best of
             None \<Rightarrow> Some (p, i, tid)
           | Some (bp, bi, _) \<Rightarrow> if (p, i) < (bp, bi) then Some (p, i, tid) else best))"
  by (simp add: better_def cand_def split: option.split)

lemma fold_better_None:
  "fold (better e) xs None = None \<longleftrightarrow> (\<forall>x \<in> set xs. cand e x = None)"
proof (induction xs rule: rev_induct)
  case (snoc x xs)
  then show ?case by (auto simp: better_cand split: option.splits prod.splits if_splits)
qed simp

lemma fold_better_Some:
  "fold (better e) xs None = Some (p, i, tid) \<Longrightarrow>
   tid \<in> set xs \<and> cand e tid = Some (p, i) \<and>
   (\<forall>x \<in> set xs. \<forall>q k. cand e x = Some (q, k) \<longrightarrow> (p, i) \<le> (q, k))"
proof (induction xs arbitrary: p i tid rule: rev_induct)
  case (snoc x xs)
  let ?b = "fold (better e) xs None"
  have step: "better e x ?b = Some (p, i, tid)" using snoc.prems by simp
  show ?case
  proof (cases "cand e x")
    case None
    with step have "?b = Some (p, i, tid)" by (simp add: better_cand)
    from snoc.IH [OF this] None show ?thesis by auto
  next
    case (Some qk)
    then obtain q k where qk: "cand e x = Some (q, k)" by (cases qk) auto
    show ?thesis
    proof (cases ?b)
      case None
      with qk step fold_better_None [of e xs] show ?thesis by (auto simp: better_cand)
    next
      case (Some b)
      then obtain bp bi bt where b: "?b = Some (bp, bi, bt)" by (cases b) auto
      note ih = snoc.IH [OF b]
      show ?thesis
      proof (cases "(q, k) < (bp, bi)")
        case True
        with step qk b have eq: "p = q" "i = k" "tid = x" by (auto simp: better_cand)
        have "(p, i) \<le> (q', k')" if "y \<in> set xs" "cand e y = Some (q', k')" for y q' k'
        proof -
          have "(bp, bi) \<le> (q', k')" using ih that by blast
          with True have "(q, k) < (q', k')" by (rule less_le_trans)
          then show ?thesis using eq by (auto intro: less_imp_le)
        qed
        with qk eq show ?thesis by auto
      next
        case False
        with step qk b have "p = bp" "i = bi" "tid = bt" by (auto simp: better_cand)
        with ih qk False show ?thesis by (auto simp: not_less)
      qed
    qed
  qed
qed simp

lemma finite_dispatchable:
  assumes "index_ok e" shows "finite (e_dispatchable e)"
proof (rule finite_subset)
  have "x \<in> e_dispatchable e \<Longrightarrow> tube e x \<noteq> None" for x
    using assms by (auto simp: index_ok_def disp.exact_def set_eq_iff image_iff)
  then show "e_dispatchable e \<subseteq> {..<length (e_tubes e)}"
    using tube_Some_length by fastforce
qed simp

lemma dispatchable_iff:
  assumes "index_ok e"
  shows "tid \<in> e_dispatchable e \<longleftrightarrow> (\<exists>t. tube e tid = Some t \<and> wants_dispatch t)"
proof -
  have "tid \<in> e_dispatchable e \<longleftrightarrow> ((), tid) \<in> Pair () ` e_dispatchable e" by auto
  also have "\<dots> \<longleftrightarrow> (\<exists>t. tube e tid = Some t \<and> flag (wants_dispatch t) = Some ())"
    using assms by (intro disp.exact_keys) (simp_all add: index_ok_def)
  finally show ?thesis by auto
qed

text \<open>Tubes that have both ready jobs and waiting connections are paused.\<close>

definition quiet :: "engine \<Rightarrow> bool" where
  "quiet e \<longleftrightarrow> (\<forall>tid t. tube e tid = Some t \<longrightarrow> wants_dispatch t \<longrightarrow> t_pause t > 0)"

lemma best_job_None:
  assumes ix: "index_ok e"
  shows "best_job e = None \<longleftrightarrow> quiet e"
proof -
  have "cand e tid = None \<longleftrightarrow> t_pause t > 0" if "tube e tid = Some t" "wants_dispatch t" for tid t
    using that by (simp add: cand_def wants_dispatch_def)
  then show ?thesis
    using dispatchable_iff [OF ix] finite_dispatchable [OF ix]
    by (auto simp: best_job_def fold_better_None quiet_def)
qed

lemma best_job_Some:
  assumes inv: "inv {} W G e" and b: "best_job e = Some (p, jid, tid)"
  obtains t j where "tube e tid = Some t" "wants_dispatch t" "t_pause t = 0"
    "e_jobs e jid = Some j" "j_state j = Ready" "j_tube j = tid" "j_pri j = p"
    "\<And>x u q k. tube e x = Some u \<Longrightarrow> wants_dispatch u \<Longrightarrow> t_pause u = 0 \<Longrightarrow>
      (q, k) \<in> t_ready u \<Longrightarrow> (p, jid) \<le> (q, k)"
proof -
  have ix: "index_ok e" and rd: "ready_ok {} e" using inv by (simp_all add: inv_def)
  from b have "fold (better e) (sorted_list_of_set (e_dispatchable e)) None = Some (p, jid, tid)"
    by (simp add: best_job_def)
  from fold_better_Some [OF this] finite_dispatchable [OF ix]
  have d: "tid \<in> e_dispatchable e" "cand e tid = Some (p, jid)"
    and le: "\<And>x q k. x \<in> e_dispatchable e \<Longrightarrow> cand e x = Some (q, k) \<Longrightarrow> (p, jid) \<le> (q, k)"
    by auto
  from d(1) obtain t where t: "tube e tid = Some t" "wants_dispatch t"
    using dispatchable_iff [OF ix] by auto
  with d(2) have f: "first_of (t_ready t) = Some (p, jid)" and p0: "t_pause t = 0"
    by (auto simp: cand_def word_gt_0 split: if_splits)
  from first_of_SomeD(1) [OF f] ready_tubeD [OF rd t(1)] obtain j
    where "(jid, j) \<in> jobs_st {} e Ready" "j_tube j = tid" "j_pri j = p" by auto
  moreover have "(p, jid) \<le> (q, k)"
    if u: "tube e x = Some u" "wants_dispatch u" "t_pause u = 0" "(q, k) \<in> t_ready u" for x u q k
  proof -
    obtain q' k' where f': "first_of (t_ready u) = Some (q', k')"
      using u(4) first_of_None_iff [of "t_ready u"] by (cases "first_of (t_ready u)") auto
    with u have "cand e x = Some (q', k')" by (simp add: cand_def)
    with le dispatchable_iff [OF ix] u have "(p, jid) \<le> (q', k')" by blast
    also have "\<dots> \<le> (q, k)" by (rule first_of_SomeD(2) [OF f' _ u(4)]) simp
    finally show ?thesis .
  qed
  ultimately show thesis using that [OF t(1,2) p0] by (auto simp: jobs_st_def)
qed

section \<open>The contract of dispatching\<close>

text \<open>Keys still to be handed out: each waiting connection may consume one list key.\<close>

definition pot :: "engine \<Rightarrow> nat" where
  "pot e = unat (e_next_list_seq e) + card (waiting_conns e)"

text \<open>A job is left alone, or it was ready and is now reserved until at least \<open>now\<close>.\<close>

definition job_dispatched :: "nanos \<Rightarrow> job_rec \<Rightarrow> job_rec \<Rightarrow> bool" where
  "job_dispatched now j j' \<longleftrightarrow>
     j' = j \<or>
     j_state j = Ready \<and> j_state j' = Reserved \<and> now \<le> j_deadline_at j' \<and>
     j_id j' = j_id j \<and> j_tube j' = j_tube j \<and> j_pri j' = j_pri j \<and> j_ttr j' = j_ttr j \<and>
     j_body j' = j_body j"

definition dispatched :: "nanos \<Rightarrow> engine \<Rightarrow> engine \<Rightarrow> bool" where
  "dispatched now e e' \<longleftrightarrow>
     (\<forall>i. e_jobs e i = None \<longleftrightarrow> e_jobs e' i = None) \<and>
     (\<forall>i j j'. e_jobs e i = Some j \<longrightarrow> e_jobs e' i = Some j' \<longrightarrow> job_dispatched now j j') \<and>
     (\<forall>i j j'. e_jobs e i = Some j \<longrightarrow> e_jobs e' i = Some j' \<longrightarrow> j' \<noteq> j \<longrightarrow>
        (\<exists>cid \<in> waiters e (j_tube j). cid \<notin> waiting_conns e' \<and> j_reserver j' = Some cid)) \<and>
     (\<forall>cid. cid \<notin> waiting_conns e \<longrightarrow> e_conns e' cid = e_conns e cid) \<and>
     (\<forall>cid. cid \<in> waiting_conns e' \<longrightarrow> e_conns e' cid = e_conns e cid) \<and>
     cv c_use_tube e' = cv c_use_tube e \<and> cv c_watch e' = cv c_watch e \<and>
     cv c_pending_put e' = cv c_pending_put e \<and> cv c_is_producer e' = cv c_is_producer e \<and>
     cv c_is_worker e' = cv c_is_worker e \<and>
     waiting_conns e' \<subseteq> waiting_conns e \<and> pot e' \<le> pot e \<and>
     tv t_name e' = tv t_name e \<and> length (e_tubes e') = length (e_tubes e) \<and>
     e_cfg e' = e_cfg e \<and> e_draining e' = e_draining e \<and> e_next_job_id e' = e_next_job_id e \<and>
     e_tube_ids e' = e_tube_ids e \<and> e_tot_conns e' = e_tot_conns e \<and>
     e_local_conns e' = e_local_conns e \<and> e_journal e' = e_journal e"

lemma job_dispatched_refl [simp]: "job_dispatched now j j"
  by (simp add: job_dispatched_def)

lemma dispatched_refl [simp]: "dispatched now e e"
  by (auto simp: dispatched_def)

lemma dispatched_job:
  assumes "dispatched now e e'" "e_jobs e i = Some j"
  obtains j' where "e_jobs e' i = Some j'" "job_dispatched now j j'"
proof -
  from assms have "e_jobs e' i \<noteq> None" unfolding dispatched_def by (metis option.distinct(1))
  then obtain j' where "e_jobs e' i = Some j'" by blast
  with assms that show thesis unfolding dispatched_def by blast
qed

lemma dispatched_trans:
  assumes a: "dispatched now e1 e2" and b: "dispatched now e2 e3"
  shows "dispatched now e1 e3"
proof -
  have "job_dispatched now j j'" if "e_jobs e1 i = Some j" "e_jobs e3 i = Some j'" for i j j'
  proof -
    from dispatched_job [OF a that(1)] obtain k where k: "e_jobs e2 i = Some k" "job_dispatched now j k" .
    from dispatched_job [OF b k(1)] that(2) have "job_dispatched now k j'" by auto
    with k(2) show ?thesis by (auto simp: job_dispatched_def)
  qed
  moreover have "\<exists>cid \<in> waiters e1 (j_tube j). cid \<notin> waiting_conns e3 \<and> j_reserver j' = Some cid"
    if j: "e_jobs e1 i = Some j" "e_jobs e3 i = Some j'" "j' \<noteq> j" for i j j'
  proof -
    from dispatched_job [OF a j(1)] obtain k where k: "e_jobs e2 i = Some k" "job_dispatched now j k" .
    from dispatched_job [OF b k(1)] j(2) have k': "job_dispatched now k j'" by auto
    show ?thesis
    proof (cases "k = j")
      case True
      with b k(1) j have "\<exists>cid \<in> waiters e2 (j_tube j). cid \<notin> waiting_conns e3 \<and> j_reserver j' = Some cid"
        unfolding dispatched_def by blast
      moreover have "waiters e2 (j_tube j) \<subseteq> waiters e1 (j_tube j)"
        using a watchers_cong [of e2 e1] by (auto simp: waiters_def dispatched_def)
      ultimately show ?thesis by blast
    next
      case False
      with k(2) k' have "j' = k" by (auto simp: job_dispatched_def)
      with False a k(1) j(1) have "\<exists>cid \<in> waiters e1 (j_tube j). cid \<notin> waiting_conns e2 \<and> j_reserver j' = Some cid"
        unfolding dispatched_def by blast
      with b show ?thesis unfolding dispatched_def by blast
    qed
  qed
  moreover have "e_conns e3 cid = e_conns e1 cid" if "cid \<notin> waiting_conns e1" for cid
    using that a b unfolding dispatched_def by (metis subsetD)
  moreover have "e_conns e3 cid = e_conns e1 cid" if "cid \<in> waiting_conns e3" for cid
    using that a b unfolding dispatched_def by (metis subsetD)
  ultimately show ?thesis using a b unfolding dispatched_def by (simp, blast)
qed

section \<open>One hand-out\<close>


lemma process_queue_step_inv:
  assumes inv: "inv {} {} G e" and pot: "pot e < 2 ^ 64" and b: "best_job e = Some (p, jid, tid)"
    and s': "process_queue_step now (e, out) = (e', out')"
  shows "inv {} {} G e'" "dispatched now e e'"
    "card (jobs_in {} e' Ready (\<lambda>j. True)) < card (jobs_in {} e Ready (\<lambda>j. True))"
    "\<exists>cid j. e_jobs e jid = Some j \<and> cid \<in> waiters e tid \<and> waiting_conns e' = waiting_conns e - {cid} \<and>
       e_jobs e' = (e_jobs e)(jid \<mapsto> j\<lparr>j_state := Reserved, j_reserver := Some cid,
         j_deadline_at := sat_add now (secs (j_ttr j)), j_reserve_ct := j_reserve_ct j + 1,
         j_list_seq := e_next_list_seq e\<rparr>) \<and>
       (e', out') = reply cid (RReserved jid (j_body j)) (e', out)"
proof -
  from best_job_Some [OF inv b] obtain t j where t: "tube e tid = Some t" "wants_dispatch t"
    and j: "e_jobs e jid = Some j" "j_state j = Ready" "j_tube j = tid" by metis
  define e1 where "e1 = remove_ready tid jid e"
  have i1: "inv {jid} {} G e1" unfolding e1_def j(3) [symmetric] by (rule remove_ready_inv [OF inv j(1,2)])
  from t(1) obtain t1 where t1: "tube e1 tid = Some t1" "t_waiting_conns t1 = t_waiting_conns t"
    by (simp add: e1_def remove_ready_obs(1) [OF j(1) t(1)])
  obtain cid w where tk: "ms_take (t_waiting_conns t1) = (Some cid, w)"
    using ms_take_None_iff [of "t_waiting_conns t1"] t(2)
    by (cases "ms_take (t_waiting_conns t1)") (auto simp: t1 wants_dispatch_def ms_is_empty_def)
  note tw = take_waiter_inv [OF i1 t1(1) tk]
  then obtain e1' where taken: "take_waiter tid e1 = (Some cid, e1')" by (cases "take_waiter tid e1") auto
  then have "e1' = snd (take_waiter tid e1)" by simp
  define e2 where "e2 = refresh_dispatchable tid e1'"
  have i2: "inv {jid} {(cid, tid)} G e2" using tw(1) by (simp add: e2_def taken)
  have same2: "e_conns e2 = e_conns e" "e_jobs e2 = e_jobs e" "e_next_list_seq e2 = e_next_list_seq e"
    by (simp_all add: e2_def \<open>e1' = _\<close> e1_def)
  have cw: "cid \<in> waiters e tid"
    using tw(3) by (simp add: waiters_def watchers_def waiting_conns_def e1_def)
  then obtain c where c: "e_conns e cid = Some c" "c_waiting c"
    by (auto simp: waiters_def waiting_conns_def)
  define e3 where "e3 = do_remove_waiting_conn cid e2"
  have c2: "e_conns e2 cid = Some c" by (simp add: same2 c)
  have i3: "inv {jid} {} G e3"
    unfolding e3_def by (rule do_remove_waiting_conn_inv [OF i2 c2 c(2)]) simp
  note obs3 = do_remove_waiting_conn_obs [OF c2 c(2), folded e3_def]
  have wait3: "waiting_conns e3 = waiting_conns e - {cid}"
    by (auto simp: waiting_conns_def obs3 same2)
  have cid: "cid \<in> waiting_conns e" using c by (auto simp: waiting_conns_def)
  then have less: "card (waiting_conns e) = Suc (card (waiting_conns e - {cid}))"
    by (metis card_Suc_Diff1 finite)
  have seq3: "e_next_list_seq e3 = e_next_list_seq e" "e_jobs e3 = e_jobs e"
    by (simp_all add: e3_def same2)
  have room: "e_next_list_seq e3 \<noteq> - 1"
    using pot less by (auto simp: pot_def seq3 unsigned_minus_1_eq_mask mask_eq_exp_minus_1)
  from j(1) have j3: "e_jobs e3 jid = Some j" by (simp add: seq3)
  obtain c3 where c3: "e_conns e3 cid = Some c3" by (simp add: obs3)
  from inv_tube [OF i3 j3] obtain t3 where t3: "tube e3 (j_tube j) = Some t3" .
  note obs4 = do_reserve_obs [OF j3 t3 c3, of now]
  have step: "process_queue_step now (e, out) =
      reply_with cid (reserved_reply jid) (do_reserve cid jid now e3, out)"
    by (simp add: process_queue_step_def b Let_def e1_def [symmetric] e2_def [symmetric]
        e3_def [symmetric] taken)
  have e': "e' = do_reserve cid jid now e3"
    using step s' by (auto simp: reply_with_def split: if_splits)
  have out': "(e', out') = reply cid (RReserved jid (j_body j)) (e', out)"
    using step s' by (simp add: e' reply_with_def reply_def reserved_reply_def obs4(1))
  show "inv {} {} G e'" unfolding e' by (rule do_reserve_inv [OF i3 j3 c3 room])
  have jobs: "e_jobs e' = (e_jobs e)(jid \<mapsto> j\<lparr>j_state := Reserved, j_reserver := Some cid,
         j_deadline_at := sat_add now (secs (j_ttr j)), j_reserve_ct := j_reserve_ct j + 1,
         j_list_seq := e_next_list_seq e\<rparr>)"
    by (simp add: e' obs4(1) seq3)
  have wait: "waiting_conns e' = waiting_conns e - {cid}"
    using wait3 c3 by (auto simp: waiting_conns_def e' obs4(3) obs3 same2 split: if_splits)
  have "tv t_name e3 = tv t_name e2"
    unfolding e3_def by (rule tv_do_remove [OF c2 c(2)]) (simp add: left_def Let_def)
  moreover have "tv t_name e' = tv t_name e3" by (simp add: e' view_simps obs4(2) t3)
  moreover have "e1' = tube_mut tid (\<lambda>t. t\<lparr>t_waiting_conns := w\<rparr>) e1"
    using taken by (simp add: take_waiter_def t1(1) tk)
  then have "tv t_name e2 = tv t_name e1" by (simp add: e2_def view_simps t1(1))
  moreover have "tv t_name e1 = tv t_name e"
    by (simp add: e1_def view_simps remove_ready_obs(1) [OF j(1) t(1)] t)
  ultimately have name: "tv t_name e' = tv t_name e" by simp
  have "unat (e_next_list_seq e') = Suc (unat (e_next_list_seq e))"
    using room by (simp add: e' obs4(5) seq3 unat_inc)
  then have "pot e' \<le> pot e"
    using less by (simp add: pot_def wait)
  moreover have "cv c_use_tube e' = cv c_use_tube e" "cv c_watch e' = cv c_watch e"
    "cv c_pending_put e' = cv c_pending_put e" "cv c_is_producer e' = cv c_is_producer e"
    "cv c_is_worker e' = cv c_is_worker e"
    using c c3 by (auto simp: view_simps e' obs4(3) obs3 same2)
  moreover have "length (e_tubes e') = length (e_tubes e)"
    by (simp add: e' e3_def e2_def \<open>e1' = snd _\<close> e1_def)
  moreover have "e_cfg e' = e_cfg e" "e_draining e' = e_draining e" "e_next_job_id e' = e_next_job_id e"
    "e_tube_ids e' = e_tube_ids e" "e_tot_conns e' = e_tot_conns e"
    "e_local_conns e' = e_local_conns e" "e_journal e' = e_journal e"
    by (simp_all add: e' e3_def e2_def \<open>e1' = snd _\<close> e1_def)
  moreover have "job_dispatched now k k'" if "e_jobs e i = Some k" "e_jobs e' i = Some k'" for i k k'
    using that j by (cases "i = jid") (auto simp: jobs job_dispatched_def sat_add_ge)
  moreover have "\<exists>cid \<in> waiters e (j_tube k). cid \<notin> waiting_conns e' \<and> j_reserver k' = Some cid"
    if "e_jobs e i = Some k" "e_jobs e' i = Some k'" "k' \<noteq> k" for i k k'
    using that j cw by (cases "i = jid") (auto simp: jobs wait)
  moreover have "e_conns e' k = e_conns e k" if "k \<notin> waiting_conns e" for k
    using that cid by (cases "k = cid") (simp_all add: e' obs4(3) obs3 same2)
  moreover have "e_conns e' k = e_conns e k" if "k \<in> waiting_conns e'" for k
  proof -
    have "k \<noteq> cid" using that wait by simp
    then show ?thesis by (simp add: e' obs4(3) obs3 same2)
  qed
  moreover have "e_jobs e i = None \<longleftrightarrow> e_jobs e' i = None" for i
    using j by (simp add: jobs)
  ultimately show "dispatched now e e'"
    unfolding dispatched_def using name by (simp add: wait)
  show "card (jobs_in {} e' Ready (\<lambda>j. True)) < card (jobs_in {} e Ready (\<lambda>j. True))"
  proof (rule psubset_card_mono)
    have "jid \<in> jobs_in {} e Ready (\<lambda>j. True)" "jid \<notin> jobs_in {} e' Ready (\<lambda>j. True)"
      using j by (auto simp: jobs_in_def jobs_st_def jobs)
    then show "jobs_in {} e' Ready (\<lambda>j. True) \<subset> jobs_in {} e Ready (\<lambda>j. True)"
      by (auto simp: jobs_in_def jobs_st_def jobs split: if_splits)
  qed simp
  show "\<exists>cid j. e_jobs e jid = Some j \<and> cid \<in> waiters e tid \<and> waiting_conns e' = waiting_conns e - {cid} \<and>
       e_jobs e' = (e_jobs e)(jid \<mapsto> j\<lparr>j_state := Reserved, j_reserver := Some cid,
         j_deadline_at := sat_add now (secs (j_ttr j)), j_reserve_ct := j_reserve_ct j + 1,
         j_list_seq := e_next_list_seq e\<rparr>) \<and>
       (e', out') = reply cid (RReserved jid (j_body j)) (e', out)"
    using j(1) cw wait jobs out' by blast
qed

section \<open>Pauses\<close>

lemma cv_same: "e_conns e' = e_conns e \<Longrightarrow> cv pr e' = cv pr e"
  by (simp add: cv_def fun_eq_iff)

lemma clear_first_pause_dispatched:
  assumes inv: "inv L W G e" and p: "first_of (e_pauses e) = Some (at, tid)"
  shows "dispatched now e (clear_first_pause e)"
proof -
  obtain t where t: "tube e tid = Some t"
    using clear_first_pause_inv(3) [OF assms] inv by (auto simp: inv_def index_ok_def pauses_ok_def)
  have e: "clear_first_pause e = tube_mut tid (\<lambda>t. t\<lparr>t_pause := 0\<rparr>) (e\<lparr>e_pauses := e_pauses e - {(at, tid)}\<rparr>)"
    by (simp add: clear_first_pause_def p)
  have "waiting_conns (clear_first_pause e) = waiting_conns e" by (simp add: waiting_conns_def e)
  moreover have "tv t_name (clear_first_pause e) = tv t_name e" by (simp add: view_simps e t)
  ultimately show ?thesis
    unfolding e by (simp add: dispatched_def pot_def cv_def fun_eq_iff)
qed

lemma clear_expired_pauses_inv:
  assumes inv: "inv L W G e"
  shows "returns (clear_expired_pauses now e)
    (\<lambda>e'. inv L W G e' \<and> dispatched now e e' \<and> \<not> pause_expired now e')"
proof -
  let ?I = "\<lambda>e'. inv L W G e' \<and> dispatched now e e'"
  have "returns (loop (pause_expired now) (\<lambda>e. Some (clear_first_pause e)) e)
      (\<lambda>e'. ?I e' \<and> \<not> pause_expired now e')"
  proof (rule returns_loop [where I = ?I and m = "\<lambda>e. card (e_pauses e)"])
    fix e1 assume i: "?I e1" and "pause_expired now e1"
    then obtain a tid where p: "first_of (e_pauses e1) = Some (a, tid)"
      by (auto simp: pause_expired_def split: option.splits)
    note c = clear_first_pause_inv [OF conjunct1 [OF i] p]
    have "finite (e_pauses e1)" using i by (auto simp: inv_def intro: finite_pauses)
    with c(3) have "card (e_pauses e1 - {(a, tid)}) < card (e_pauses e1)" by (metis card_Diff1_less)
    with c(1,2) i clear_first_pause_dispatched [OF conjunct1 [OF i] p, of now]
    show "returns (Some (clear_first_pause e1))
        (\<lambda>s'. ?I s' \<and> card (e_pauses s') < card (e_pauses e1))"
      by (auto intro: dispatched_trans)
  qed (simp add: inv)
  then show ?thesis by (simp add: clear_expired_pauses_def)
qed

section \<open>The whole loop\<close>

text \<open>Every message \<open>process_queue\<close> adds is a \<open>RESERVED\<close> reply to a connection that was
  waiting and no longer is.\<close>

definition hands_out :: "engine \<Rightarrow> engine \<Rightarrow> outbox \<Rightarrow> outbox \<Rightarrow> bool" where
  "hands_out e e' out out' \<longleftrightarrow>
     (\<exists>rs. out' = out @ rs \<and>
        (\<forall>cid r. (cid, r) \<in> set rs \<longrightarrow> cid \<in> waiting_conns e - waiting_conns e' \<and>
           (\<exists>jid j. r = RReserved jid (j_body j) \<and> e_jobs e jid = Some j \<and> j_state j = Ready)))"

lemma hands_out_refl [simp]: "hands_out e e' out out"
  by (simp add: hands_out_def)

lemma hands_out_trans:
  assumes a: "hands_out e e1 out out1" and d: "dispatched now e e1" "dispatched now e1 e2"
    and b: "hands_out e1 e2 out1 out2"
  shows "hands_out e e2 out out2"
proof -
  from a obtain rs where rs: "out1 = out @ rs"
    "\<And>cid r. (cid, r) \<in> set rs \<Longrightarrow> cid \<in> waiting_conns e - waiting_conns e1 \<and>
       (\<exists>jid j. r = RReserved jid (j_body j) \<and> e_jobs e jid = Some j \<and> j_state j = Ready)"
    unfolding hands_out_def by blast
  from b obtain rs' where rs': "out2 = out1 @ rs'"
    "\<And>cid r. (cid, r) \<in> set rs' \<Longrightarrow> cid \<in> waiting_conns e1 - waiting_conns e2 \<and>
       (\<exists>jid j. r = RReserved jid (j_body j) \<and> e_jobs e1 jid = Some j \<and> j_state j = Ready)"
    unfolding hands_out_def by blast
  have w: "waiting_conns e1 \<subseteq> waiting_conns e" "waiting_conns e2 \<subseteq> waiting_conns e1"
    using d by (simp_all add: dispatched_def)
  have before: "\<exists>j. e_jobs e i = Some j \<and> j_state j = Ready \<and> j_body j = j_body j1"
    if "e_jobs e1 i = Some j1" "j_state j1 = Ready" for i j1
  proof -
    from d(1) that(1) obtain j where j: "e_jobs e i = Some j"
      unfolding dispatched_def by (metis not_None_eq)
    from dispatched_job [OF d(1) j] that have "job_dispatched now j j1" by auto
    with j that(2) show ?thesis by (auto simp: job_dispatched_def)
  qed
  have "cid \<in> waiting_conns e - waiting_conns e2 \<and>
      (\<exists>jid j. r = RReserved jid (j_body j) \<and> e_jobs e jid = Some j \<and> j_state j = Ready)"
    if "(cid, r) \<in> set (rs @ rs')" for cid r
  proof (cases "(cid, r) \<in> set rs")
    case True
    then show ?thesis using rs(2) w by blast
  next
    case False
    with that have "(cid, r) \<in> set rs'" by simp
    from rs'(2) [OF this] obtain jid j where r: "cid \<in> waiting_conns e1 - waiting_conns e2"
      "r = RReserved jid (j_body j)" "e_jobs e1 jid = Some j" "j_state j = Ready" by blast
    from before [OF r(3,4)] obtain j0
      where "e_jobs e jid = Some j0" "j_state j0 = Ready" "j_body j0 = j_body j" by blast
    with r w show ?thesis by auto
  qed
  then show ?thesis unfolding hands_out_def rs(1) rs'(1) by (intro exI [of _ "rs @ rs'"] conjI) (simp, blast)
qed

theorem process_queue_correct:
  assumes inv: "inv {} {} G e" and pot: "pot e < 2 ^ 64"
  shows "returns (process_queue now (e, out))
    (\<lambda>(e', out'). inv {} {} G e' \<and> quiet e' \<and> dispatched now e e' \<and> hands_out e e' out out')"
proof -
  let ?I = "\<lambda>(e', out'). inv {} {} G e' \<and> dispatched now e e' \<and> hands_out e e' out out'"
  let ?m = "\<lambda>(e, out :: outbox). card (jobs_in {} e Ready (\<lambda>j. True))"
  let ?b = "\<lambda>(e, out :: outbox). best_job e \<noteq> None"
  have body: "returns (Some (process_queue_step now s)) (\<lambda>s'. ?I s' \<and> ?m s' < ?m s)"
    if i: "?I s" and b: "?b s" for s
  proof -
    obtain e1 out1 where s: "s = (e1, out1)" by (cases s)
    with i have inv1: "inv {} {} G e1" and d1: "dispatched now e e1" and h1: "hands_out e e1 out out1" by auto
    have pot1: "pot e1 < 2 ^ 64" using d1 pot by (simp add: dispatched_def)
    obtain e2 out2 where s2: "process_queue_step now (e1, out1) = (e2, out2)" by (cases "process_queue_step now (e1, out1)")
    from b s obtain p jid tid where bj: "best_job e1 = Some (p, jid, tid)" by auto
    note st = process_queue_step_inv [OF inv1 pot1 bj s2]
    from best_job_Some [OF inv1 bj] obtain j where j: "e_jobs e1 jid = Some j" "j_state j = Ready" by metis
    from st(4) j obtain cid where c: "cid \<in> waiters e1 tid" "waiting_conns e2 = waiting_conns e1 - {cid}"
      "(e2, out2) = reply cid (RReserved jid (j_body j)) (e2, out1)" by auto
    then have "hands_out e1 e2 out1 out2"
      using j by (auto simp: hands_out_def reply_def waiters_def split: if_splits)
    from hands_out_trans [OF h1 d1 st(2) this] st(1-3) dispatched_trans [OF d1 st(2)]
    show ?thesis by (simp add: s s2)
  qed
  have "returns (clear_expired_pauses now e \<bind>
      (\<lambda>e. loop ?b (\<lambda>s. Some (process_queue_step now s)) (e, out))) (\<lambda>s'. ?I s' \<and> \<not> ?b s')"
  proof (rule returns_bind [OF clear_expired_pauses_inv [OF inv]])
    fix e1 assume "inv {} {} G e1 \<and> dispatched now e e1 \<and> \<not> pause_expired now e1"
    then show "returns (loop ?b (\<lambda>s. Some (process_queue_step now s)) (e1, out)) (\<lambda>s'. ?I s' \<and> \<not> ?b s')"
      by (intro returns_loop [where I = ?I and m = ?m] body) auto
  qed
  then show ?thesis
    unfolding process_queue_def prod.case
  proof (rule returns_mono)
    fix s :: eng_out
    assume "?I s \<and> \<not> ?b s"
    moreover obtain e' out' where s: "s = (e', out')" by (cases s)
    ultimately have "?I (e', out')" "best_job e' = None" by (simp_all only: prod.case not_not)
    moreover from this have "index_ok e'" by (simp add: inv_def)
    ultimately show "case s of (e', out') \<Rightarrow> inv {} {} G e' \<and> quiet e' \<and>
        dispatched now e e' \<and> hands_out e e' out out'" using best_job_None [of e'] by (simp add: s)
  qed
qed

end
