(* ===== verification/Engine_Slab.thy ===== *)
theory Engine_Slab
  imports Engine_Dispatch
begin

text \<open>
  The tube slab: \<open>find_or_make_tube\<close> and \<open>gc_tube_if_orphan\<close> return and keep the invariant.
  A tube just made has no references yet and is listed in the parameter \<open>G\<close>; collecting a
  tube that lost its last reference takes it off that list.
\<close>

section \<open>Changing the slab only\<close>

definition unref :: "engine \<Rightarrow> tube_id \<Rightarrow> bool" where
  "unref e tid \<longleftrightarrow> users e tid = {} \<and> watchers e tid = {} \<and> tube_jobs e tid = {}"

definition slab_only :: "engine \<Rightarrow> engine \<Rightarrow> bool" where
  "slab_only e' e \<longleftrightarrow>
     e_jobs e' = e_jobs e \<and> e_conns e' = e_conns e \<and> e_next_job_id e' = e_next_job_id e \<and>
     e_next_list_seq e' = e_next_list_seq e \<and> e_ready_ct e' = e_ready_ct e \<and>
     e_urgent_ct e' = e_urgent_ct e \<and> e_delayed_ct e' = e_delayed_ct e \<and>
     e_buried_ct e' = e_buried_ct e \<and> e_reserved_ct e' = e_reserved_ct e \<and>
     e_waiting_ct e' = e_waiting_ct e \<and> e_cur_conns e' = e_cur_conns e \<and>
     e_cur_producers e' = e_cur_producers e \<and> e_cur_workers e' = e_cur_workers e \<and>
     e_conn_ticks e' = e_conn_ticks e \<and> e_tot_conns e' = e_tot_conns e \<and>
     e_draining e' = e_draining e \<and> e_cfg e' = e_cfg e \<and> e_journal e' = e_journal e \<and>
     e_local_conns e' = e_local_conns e"

lemma conn_sets_same:
  assumes "e_conns e' = e_conns e"
  shows "users e' = users e" "watchers e' = watchers e" "waiting_conns e' = waiting_conns e"
    "waiters e' = waiters e" "pending_id e' = pending_id e"
  using assms by (simp_all add: fun_eq_iff users_def watchers_def waiting_conns_def waiters_def pending_id_def)

lemma job_sets_same:
  assumes "e_jobs e' = e_jobs e"
  shows "tube_jobs e' = tube_jobs e" "jobs_st L e' st = jobs_st L e st" "jobs_in L e' st P = jobs_in L e st P"
    "keyed_jobs L e' = keyed_jobs L e"
  using assms by (simp_all add: fun_eq_iff tube_jobs_def jobs_st_def jobs_in_def keyed_jobs_def)

lemma unref_jobs:
  assumes "unref e x"
  shows "(\<exists>j. (i, j) \<in> jobs_st L e st \<and> j_tube j = x \<and> Q j) \<longleftrightarrow> False"
    "jobs_in L e st (\<lambda>j. j_tube j = x) = {}" "jobs_in L e st (\<lambda>j. j_tube j = x \<and> P j) = {}"
  using assms by (auto simp: unref_def tube_jobs_def jobs_st_def jobs_in_def)

lemma unref_waiters: "unref e x \<Longrightarrow> waiters e x = {}"
  by (simp add: unref_def waiters_def)

lemma slab_change_inv:
  assumes inv: "inv L W G e" and same: "slab_only e' e" and slab: "slab_ok e'" and ix: "index_ok e'"
    and old: "\<And>x t'. tube e' x = Some t' \<Longrightarrow>
      (\<exists>t. tube e x = Some t \<and> t' = t\<lparr>t_pos := t_pos t'\<rparr>) \<or>
      x \<in> G' \<and> unref e x \<and> (\<exists>n p. t' = tube_state_new n p)"
    and gone: "\<And>x. tube e' x = None \<Longrightarrow> tube e x \<noteq> None \<Longrightarrow> unref e x"
    and G: "\<And>x. x \<in> G \<Longrightarrow> x \<notin> G' \<Longrightarrow> x = DEFAULT_TUBE \<or> tube e' x = None \<or> \<not> unref e x"
  shows "inv L W G' e'"
proof -
  note fr = same [unfolded slab_only_def]
  note jobs = job_sets_same [of e' e] and conns = conn_sets_same [of e' e]
  note parts = inv [unfolded inv_def]
  have tube: "(\<And>t p. tube e x = Some t \<Longrightarrow> P (t\<lparr>t_pos := p\<rparr>)) \<Longrightarrow>
      (\<And>n p. unref e x \<Longrightarrow> x \<in> G' \<Longrightarrow> P (tube_state_new n p)) \<Longrightarrow> tube e' x = Some t' \<Longrightarrow> P t'" for x t' P
    using old [of x t'] by metis
  have live: "tube e' x \<noteq> None" if "tube e x \<noteq> None" "\<not> unref e x" for x
    using gone that by blast
  have "refs_ok G' e'"
    unfolding refs_ok_def
  proof (intro conjI allI impI)
    show "card (dom (e_conns e')) < 2 ^ 32" using parts fr by (simp add: refs_ok_def)
  next
    fix cid c assume "e_conns e' cid = Some c"
    then have c: "e_conns e cid = Some c" using fr by simp
    then have "\<not> unref e (c_use_tube c)" "\<And>x. x \<in> set (ms_items (c_watch c)) \<Longrightarrow> \<not> unref e x"
      by (auto simp: unref_def users_def watchers_def)
    with inv_conn [OF inv c] live show "tube e' (c_use_tube c) \<noteq> None"
      "distinct (ms_items (c_watch c))" "\<forall>tid \<in> set (ms_items (c_watch c)). tube e' tid \<noteq> None"
      by blast+
  next
    fix x t' assume t': "tube e' x = Some t'"
    show "t_using_ct t' = of_nat (card (users e' x))" "t_watching_ct t' = of_nat (card (watchers e' x))"
      "t_job_ref_ct t' = of_nat (card (tube_jobs e' x))"
      by (rule tube [OF _ _ t'], use parts fr jobs conns in
          \<open>simp_all add: refs_ok_def unref_def tube_state_new_def\<close>)+
    show "x = DEFAULT_TUBE \<or> x \<in> G' \<or> users e' x \<noteq> {} \<or> watchers e' x \<noteq> {} \<or> tube_jobs e' x \<noteq> {}"
    proof (rule ccontr)
      assume a: "\<not> ?thesis"
      then have u: "unref e x" "x \<noteq> DEFAULT_TUBE" "x \<notin> G'"
        using fr jobs conns by (simp_all add: unref_def)
      with old [OF t'] obtain t where "tube e x = Some t" by blast
      with u parts have "x \<in> G" unfolding refs_ok_def unref_def by blast
      with G [of x] u t' show False by simp
    qed
  qed
  moreover have "wait_ok W e'"
    unfolding wait_ok_def
  proof (intro conjI allI impI)
    fix x t' assume t': "tube e' x = Some t'"
    show "distinct (ms_items (t_waiting_conns t'))"
      "set (ms_items (t_waiting_conns t')) = {cid \<in> waiters e' x. (cid, x) \<notin> W}"
      "s_waiting_ct (t_stat t') = of_nat (card (waiters e' x))"
      by (rule tube [OF _ _ t'], use parts fr conns in
          \<open>simp_all add: wait_ok_def unref_waiters tube_state_new_def ms_new_def default_tube_stat_def\<close>)+
  qed (use parts fr conns in \<open>simp_all add: wait_ok_def\<close>)
  moreover have "jobs_ok L e'"
  proof -
    have "tube e' (j_tube j) \<noteq> None" if "e_jobs e i = Some j" for i j
      by (rule live) (use jobs_jobD [OF inv_jobs [OF inv] that] that in \<open>auto simp: unref_def tube_jobs_def\<close>)
    then show ?thesis using inv_jobs [OF inv] fr by (simp add: jobs_ok_def)
  qed
  moreover have "ready_ok L e'"
    unfolding ready_ok_def
  proof (intro conjI allI impI)
    fix x t' assume t': "tube e' x = Some t'"
    show "(p, i) \<in> t_ready t' \<longleftrightarrow> (\<exists>j. (i, j) \<in> jobs_st L e' Ready \<and> j_tube j = x \<and> j_pri j = p)" for p i
      by (rule tube [OF _ _ t'], use parts fr jobs in
          \<open>simp_all add: ready_ok_def unref_jobs tube_state_new_def\<close>)
    show "s_urgent_ct (t_stat t') = of_nat (card (jobs_in L e' Ready (\<lambda>j. j_tube j = x \<and> urgent j)))"
      by (rule tube [OF _ _ t'], use parts fr jobs in
          \<open>simp_all add: ready_ok_def unref_jobs tube_state_new_def default_tube_stat_def\<close>)
  qed (use parts fr jobs in \<open>simp_all add: ready_ok_def\<close>)
  moreover have "delayed_ok L e'"
    unfolding delayed_ok_def
  proof (intro conjI allI impI)
    fix x t' assume t': "tube e' x = Some t'"
    show "(p, i) \<in> t_delayed t' \<longleftrightarrow>
        (\<exists>j. (i, j) \<in> jobs_st L e' Delayed \<and> j_tube j = x \<and> j_deadline_at j = p)" for p i
      by (rule tube [OF _ _ t'], use parts fr jobs in
          \<open>simp_all add: delayed_ok_def unref_jobs tube_state_new_def\<close>)
  qed (use parts fr jobs in \<open>simp_all add: delayed_ok_def\<close>)
  moreover have "buried_ok L e'"
    unfolding buried_ok_def
  proof (intro conjI allI impI)
    fix x t' assume t': "tube e' x = Some t'"
    show "t_buried t' q = Some i \<longleftrightarrow>
        (\<exists>j. (i, j) \<in> jobs_st L e' Buried \<and> j_tube j = x \<and> j_list_seq j = q)" for q i
      by (rule tube [OF _ _ t'], use parts fr jobs in
          \<open>simp_all add: buried_ok_def unref_jobs tube_state_new_def\<close>)
    show "s_buried_ct (t_stat t') = of_nat (card (jobs_in L e' Buried (\<lambda>j. j_tube j = x)))"
      by (rule tube [OF _ _ t'], use parts fr jobs in
          \<open>simp_all add: buried_ok_def unref_jobs tube_state_new_def default_tube_stat_def\<close>)
  qed (use parts fr jobs in \<open>simp_all add: buried_ok_def\<close>)
  moreover have "reserved_ok L e'"
    unfolding reserved_ok_def
  proof (intro conjI allI impI)
    fix x t' assume t': "tube e' x = Some t'"
    show "s_reserved_ct (t_stat t') = of_nat (card (jobs_in L e' Reserved (\<lambda>j. j_tube j = x)))"
      by (rule tube [OF _ _ t'], use parts fr jobs in
          \<open>simp_all add: reserved_ok_def unref_jobs tube_state_new_def default_tube_stat_def\<close>)
  qed (use parts fr jobs in \<open>simp_all add: reserved_ok_def\<close>)
  moreover have "seq_ok L e'" "pending_ok e'" "conn_counts_ok e'"
    using parts fr jobs conns by (simp_all add: seq_ok_def pending_ok_def conn_counts_ok_def)
  ultimately show ?thesis using slab ix by (simp add: inv_def)
qed

section \<open>The indexes under a change of the slab\<close>

lemma tik_same: "e_conns e' = e_conns e \<Longrightarrow> e_conn_ticks e' = e_conn_ticks e \<Longrightarrow>
  tik.exact e' = tik.exact e \<and> tik.fresh X e' = tik.fresh X e"
  by (simp add: tik.exact_def tik.fresh_def)

lemma disp_exact_iff:
  "disp.exact e \<longleftrightarrow> e_dispatchable e = {tid. \<exists>t. tube e tid = Some t \<and> t_dispatchable t}"
proof -
  have "(\<exists>t. tube e x = Some t \<and> flag (t_dispatchable t) = Some ()) \<longleftrightarrow>
      (\<exists>t. tube e x = Some t \<and> t_dispatchable t)" for x
    by (auto split: if_splits)
  moreover have "Pair () ` A = {(k, i). P i} \<longleftrightarrow> A = {i. P i}" for A :: "tube_id set" and P
    by (auto simp: set_eq_iff image_iff)
  ultimately show ?thesis by (simp add: disp.exact_def)
qed

lemma index_add:
  assumes ix: "index_ok e" and t: "tube e x = None" "tube e' = (tube e)(x \<mapsto> tube_state_new n p)"
    and same: "e_dispatchable e' = e_dispatchable e" "e_delay_heads e' = e_delay_heads e"
      "e_pauses e' = e_pauses e" "e_conns e' = e_conns e" "e_conn_ticks e' = e_conn_ticks e"
  shows "index_ok e'"
proof -
  let ?n = "tube_state_new n p"
  have new: "\<not> t_dispatchable ?n" "\<not> wants_dispatch ?n" "t_delay_head ?n = None" "delay_key ?n = None"
    "\<not> t_pause ?n > 0"
    by (simp_all add: tube_state_new_def wants_dispatch_def delay_key_def)
  have sel: "(\<exists>t. tube e' y = Some t \<and> P t) \<longleftrightarrow> (\<exists>t. tube e y = Some t \<and> P t)" if "\<not> P ?n" for y P
    using that t by auto
  have all: "(\<forall>y t. tube e' y = Some t \<longrightarrow> P t) \<longleftrightarrow> (\<forall>y t. tube e y = Some t \<longrightarrow> P t)" if "P ?n" for P
    using that t by (auto split: if_splits) (metis option.distinct(1))
  have "disp.exact e'" "dly.exact e'" "pauses_ok e'"
    using ix same new by (simp_all add: index_ok_def disp_exact_iff dly.exact_def pauses_ok_def sel)
  moreover have "disp.fresh {} e'" "dly.fresh {} e'"
    using ix new by (simp_all add: index_ok_def disp.fresh_def dly.fresh_def all)
  ultimately show ?thesis
    using ix tik_same [OF same(4,5)] by (simp add: index_ok_def)
qed

lemma index_drop:
  assumes ix: "index_ok e" and t: "tube e x = Some t" "tube e' = (tube e)(x := None)"
    and same: "e_dispatchable e' = e_dispatchable e - {x}"
      "e_delay_heads e' = e_delay_heads e - (\<lambda>d. (d, x)) ` set_option (t_delay_head t)"
      "e_pauses e' = (if t_pause t > 0 then e_pauses e - {(t_unpause_at t, x)} else e_pauses e)"
      "e_conns e' = e_conns e" "e_conn_ticks e' = e_conn_ticks e"
  shows "index_ok e'"
proof -
  have sel: "(\<exists>t. tube e' y = Some t \<and> P t) \<longleftrightarrow> y \<noteq> x \<and> (\<exists>t. tube e y = Some t \<and> P t)" for y P
    using t by auto
  have "disp.exact e'"
    using ix same(1) by (auto simp: index_ok_def disp_exact_iff sel)
  moreover have "dly.exact e'"
    using ix same(2) t(1) by (auto simp: index_ok_def dly.exact_def sel)
  moreover have "pauses_ok e'"
    using ix same(3) t(1) by (auto simp: index_ok_def pauses_ok_def sel)
  moreover have "disp.fresh {} e'" "dly.fresh {} e'"
    using ix t by (simp_all add: index_ok_def disp.fresh_def dly.fresh_def)
  ultimately show ?thesis
    using ix tik_same [OF same(4,5)] by (simp add: index_ok_def)
qed

section \<open>Making a tube\<close>

text \<open>What \<open>find_or_make_tube\<close> does: nothing when the name is known, otherwise one slot that
  was empty now holds a tube of that name.\<close>

definition made :: "tube_name \<Rightarrow> tube_id \<Rightarrow> engine \<Rightarrow> engine \<Rightarrow> bool" where
  "made name tid e e' \<longleftrightarrow>
     e' = e \<and> e_tube_ids e name = Some tid \<or>
     e_tube_ids e name = None \<and> tube e tid = None \<and> slab_only e' e \<and>
     tube e' = (tube e)(tid \<mapsto> tube_state_new name (ms_len (e_tube_order e))) \<and>
     e_tube_ids e' = (e_tube_ids e)(name \<mapsto> tid) \<and>
     e_tube_order e' = ms_append tid (e_tube_order e) \<and>
     e_dispatchable e' = e_dispatchable e \<and> e_delay_heads e' = e_delay_heads e \<and>
     e_pauses e' = e_pauses e \<and>
     length (e_tubes e) \<le> length (e_tubes e') \<and>
     (e_free_tube_ids e = [] \<and> e_free_tube_ids e' = [] \<and> tid = length (e_tubes e) \<and>
        length (e_tubes e') = Suc tid \<or>
      e_free_tube_ids e = e_free_tube_ids e' @ [tid] \<and> tid < length (e_tubes e) \<and>
        length (e_tubes e') = length (e_tubes e))"

lemma tube_append:
  "tube (e\<lparr>e_tubes := e_tubes e @ [Some t]\<rparr>) = (tube e)(length (e_tubes e) \<mapsto> t)"
  by (auto simp: tube_def nth_opt_def nth_append fun_eq_iff)

lemma tube_slot: "tid < length (e_tubes e) \<Longrightarrow>
    tube (e\<lparr>e_free_tube_ids := fs, e_tubes := (e_tubes e)[tid := x]\<rparr>) = (tube e)(tid := x)"
  by (auto simp: tube_def nth_opt_def nth_list_update)

lemma tube_beyond: "length (e_tubes e) \<le> tid \<Longrightarrow> tube e tid = None"
  by (simp add: tube_def nth_opt_def)

lemma slab_free:
  "slab_ok e \<Longrightarrow> tid \<in> set (e_free_tube_ids e) \<longleftrightarrow> tid < length (e_tubes e) \<and> tube e tid = None"
  by (simp add: slab_ok_def)

lemma find_or_make_tube_made:
  assumes slab: "slab_ok e"
  shows "returns (find_or_make_tube name e) (\<lambda>(tid, e'). made name tid e e')"
proof (cases "e_tube_ids e name")
  case (Some tid)
  then show ?thesis by (simp add: find_or_make_tube_def made_def)
next
  case None
  show ?thesis
  proof (cases "e_free_tube_ids e = []")
    case True
    with None show ?thesis
      by (simp add: find_or_make_tube_def made_def tube_append tube_beyond slab_only_def)
  next
    case False
    let ?tid = "last (e_free_tube_ids e)"
    have "?tid < length (e_tubes e)" "tube e ?tid = None"
      using slab_free [OF slab, of ?tid] False by simp_all
    with None False show ?thesis
      by (simp add: find_or_make_tube_def made_def tube_slot slab_only_def Let_def)
  qed
qed

lemma made_slab:
  assumes slab: "slab_ok e" and m: "made name tid e e'"
  shows "slab_ok e'"
proof (cases "e_tube_ids e name")
  case (Some tid')
  with m slab show ?thesis by (simp add: made_def)
next
  case None
  with m have n: "tube e tid = None" "tube e' = (tube e)(tid \<mapsto> tube_state_new name (ms_len (e_tube_order e)))"
    "e_tube_ids e' = (e_tube_ids e)(name \<mapsto> tid)" "e_tube_order e' = ms_append tid (e_tube_order e)"
    by (auto simp: made_def)
  have "tid \<noteq> DEFAULT_TUBE" using slab_defaultD [OF slab] n(1) by auto
  moreover have "tid \<notin> set (ms_items (e_tube_order e))" using slab n(1) by (auto simp: slab_ok_def)
  moreover have "t_name t \<noteq> name" if "tube e x = Some t" for x t
    using slab_tubeD [OF slab that] None by auto
  moreover have "nth_opt (ms_items (e_tube_order e) @ [tid]) k = Some x"
    if "nth_opt (ms_items (e_tube_order e)) k = Some x" for k x
    using that by (auto simp: nth_opt_def nth_append split: if_splits)
  moreover have "nth_opt (xs @ [tid]) (length xs) = Some tid" for xs by (simp add: nth_opt_def)
  moreover have "\<exists>t. tube e' x = Some t \<and> t_name t = nm" if "e_tube_ids e' nm = Some x" for nm x
  proof (cases "nm = name")
    case True
    with that n show ?thesis by (auto simp: tube_state_new_def)
  next
    case False
    with that n(3) have "e_tube_ids e nm = Some x" by simp
    from slab_idD [OF slab this] n(1,2) show ?thesis by auto
  qed
  moreover have "distinct (e_free_tube_ids e') \<and>
      set (e_free_tube_ids e') = {x. x < length (e_tubes e') \<and> tube e' x = None}"
  proof (cases "e_free_tube_ids e = []")
    case True
    with m None have "e_free_tube_ids e' = []" "tid = length (e_tubes e)" "length (e_tubes e') = Suc tid"
      by (auto simp: made_def)
    with True slab_free [OF slab] show ?thesis by (auto simp: n(2) less_Suc_eq)
  next
    case False
    with m None have "e_free_tube_ids e = e_free_tube_ids e' @ [tid]"
      "length (e_tubes e') = length (e_tubes e)" by (auto simp: made_def)
    moreover have "distinct (e_free_tube_ids e)"
      "set (e_free_tube_ids e) = {x. x < length (e_tubes e) \<and> tube e x = None}"
      using slab by (simp_all add: slab_ok_def)
    ultimately show ?thesis by (auto simp: n(2))
  qed
  ultimately show ?thesis
    using slab n slab_tubeD [OF slab] unfolding slab_ok_def
    by (auto simp: tube_state_new_def ms_len_def)
qed

lemma unref_None:
  assumes inv: "inv L W G e" and "tube e x = None"
  shows "unref e x"
  using assms inv_conn [OF inv] jobs_jobD [OF inv_jobs [OF inv]]
  unfolding unref_def users_def watchers_def tube_jobs_def by blast

lemma inv_more: "inv L W G e \<Longrightarrow> G \<subseteq> G' \<Longrightarrow> inv L W G' e"
proof -
  assume "inv L W G e" "G \<subseteq> G'"
  moreover from this have "refs_ok G' e" unfolding inv_def refs_ok_def by blast
  ultimately show ?thesis by (simp add: inv_def)
qed

lemma made_inv:
  assumes inv: "inv L W G e" and m: "made name tid e e'"
  shows "inv L W (insert tid G) e'"
proof (cases "e_tube_ids e name")
  case (Some tid')
  with m have "e' = e" by (simp add: made_def)
  with inv_more [OF inv, of "insert tid G"] show ?thesis by auto
next
  case None
  have slab: "slab_ok e" and ix: "index_ok e" using inv by (simp_all add: inv_def)
  from m None have n: "tube e tid = None" "tube e' = (tube e)(tid \<mapsto> tube_state_new name (ms_len (e_tube_order e)))"
    and so: "slab_only e' e" by (auto simp: made_def)
  show ?thesis
  proof (rule slab_change_inv [OF inv so made_slab [OF slab m]])
    show "index_ok e'"
      by (rule index_add [OF ix n]) (use m None so in \<open>auto simp: made_def slab_only_def\<close>)
    show "(\<exists>t. tube e x = Some t \<and> t' = t\<lparr>t_pos := t_pos t'\<rparr>) \<or>
        x \<in> insert tid G \<and> unref e x \<and> (\<exists>n p. t' = tube_state_new n p)" if "tube e' x = Some t'" for x t'
      using that n unref_None [OF inv n(1)] by (auto split: if_splits)
    show "unref e x" if "tube e' x = None" "tube e x \<noteq> None" for x
      using that n(2) by (auto split: if_splits)
  qed simp
qed

section \<open>Collecting a tube\<close>

lemma swap_remove_pos:
  assumes "distinct xs" "swap_remove xs i = Some (x, ys)" "nth_opt xs k = Some y" "y \<noteq> x"
    "nth_opt ys i \<noteq> Some y"
  shows "nth_opt ys k = Some y"
proof -
  have i: "i < length xs" "x = xs ! i" and k: "k < length xs" "y = xs ! k"
    using assms(2,3) by (auto simp: swap_remove_def nth_opt_def split: if_splits)
  have len: "length ys = length xs - 1" by (rule length_swap_remove [OF assms(2)])
  note nth = swap_remove_nth [OF assms(2)]
  have ki: "k \<noteq> i" using i k assms(4) by auto
  have "k < length ys"
  proof (rule ccontr)
    assume "\<not> ?thesis"
    with k len have last: "k = length xs - 1" by simp
    with ki i have "i < length ys" using len by simp
    with nth [of i] have "nth_opt ys i = Some (last xs)" by (simp add: nth_opt_def)
    moreover have "last xs = y" using k last by (subst last_conv_nth) auto
    ultimately show False using assms(5) by simp
  qed
  with nth [of k] ki k show ?thesis by (simp add: nth_opt_def)
qed

lemma card_tube_jobs:
  assumes "jobs_ok L e"
  shows "card (tube_jobs e x) \<le> unat (e_next_job_id e)"
proof -
  have "unat ` tube_jobs e x \<subseteq> {..<unat (e_next_job_id e)}"
    using jobs_jobD [OF assms] by (auto simp: tube_jobs_def word_less_nat_alt)
  moreover have "inj_on unat (tube_jobs e x)" by (rule inj_onI) (rule word_unat_eq_iff [THEN iffD2])
  ultimately have "card (tube_jobs e x) \<le> card {..<unat (e_next_job_id e)}"
    by (intro card_inj_on_le) auto
  then show ?thesis by simp
qed

lemma u64_of_u32_of_nat: "n < 2 ^ 32 \<Longrightarrow> u64_of_u32 (of_nat n) = of_nat n"
  by (simp add: u64_of_u32_def unsigned_of_nat take_bit_nat_def)

lemma tube_refs_0:
  assumes inv: "inv L W G e" and t: "tube e x = Some t" and small: "unat (e_next_job_id e) < 2 ^ 63"
  shows "tube_refs t = 0 \<longleftrightarrow> unref e x"
proof -
  have "users e x \<subseteq> dom (e_conns e)" "watchers e x \<subseteq> dom (e_conns e)"
    by (auto simp: users_def watchers_def)
  then have u: "card (users e x) < 2 ^ 32" "card (watchers e x) < 2 ^ 32"
    using card_conns_bound [OF inv] by blast+
  have j: "card (tube_jobs e x) < 2 ^ 63" using card_tube_jobs [OF inv_jobs [OF inv]] small by (rule le_less_trans)
  have "t_using_ct t = of_nat (card (users e x))" "t_watching_ct t = of_nat (card (watchers e x))"
    "t_job_ref_ct t = of_nat (card (tube_jobs e x))"
    using inv t by (simp_all add: inv_def refs_ok_def)
  then have "tube_refs t = of_nat (card (users e x) + card (watchers e x) + card (tube_jobs e x))"
    using u by (simp add: tube_refs_def u64_of_u32_of_nat)
  also have "\<dots> = 0 \<longleftrightarrow> card (users e x) + card (watchers e x) + card (tube_jobs e x) = 0"
    using u j by (intro of_nat_eq_0_small) simp
  finally show ?thesis by (simp add: unref_def)
qed

text \<open>What collecting leaves: the other tubes, up to their position in the tube order.\<close>

definition culled :: "engine \<Rightarrow> engine \<Rightarrow> bool" where
  "culled e' e \<longleftrightarrow>
     slab_only e' e \<and>
     (\<forall>x t'. tube e' x = Some t' \<longrightarrow> (\<exists>t. tube e x = Some t \<and> t' = t\<lparr>t_pos := t_pos t'\<rparr>))"

lemma culled_refl [simp]: "culled e e"
  by (simp add: culled_def slab_only_def)

lemma culled_trans: "culled e'' e' \<Longrightarrow> culled e' e \<Longrightarrow> culled e'' e"
  unfolding culled_def slab_only_def
  by (metis (no_types, lifting) tube_state.surjective tube_state.update_convs(12))

text \<open>The slab after the slot, the name and the place in the tube order are gone and the tube
  that filled the gap knows its new position.\<close>

lemma cull_slab:
  assumes slab: "slab_ok e" and t: "tube e tid = Some t" and nd: "tid \<noteq> DEFAULT_TUBE"
    and sr: "swap_remove (ms_items (e_tube_order e)) (t_pos t) = Some (x, ys)"
    and e': "tube e' = (\<lambda>y. if y = tid then None
        else if nth_opt ys (t_pos t) = Some y then map_option (\<lambda>m. m\<lparr>t_pos := t_pos t\<rparr>) (tube e y) else tube e y)"
      "e_tube_ids e' = (e_tube_ids e)(t_name t := None)" "ms_items (e_tube_order e') = ys"
      "e_free_tube_ids e' = e_free_tube_ids e @ [tid]" "length (e_tubes e') = length (e_tubes e)"
  shows "slab_ok e'"
proof -
  let ?xs = "ms_items (e_tube_order e)"
  note tD = slab_tubeD [OF slab]
  have dist: "distinct ?xs" using slab by (simp add: slab_ok_def)
  have x: "x = tid" and lt: "t_pos t < length ?xs"
    using tD [OF t] sr by (auto simp: swap_remove_def nth_opt_def split: if_splits)
  note ds = distinct_swap_remove [OF dist sr [unfolded x]]
  obtain d where d: "tube e DEFAULT_TUBE = Some d" "t_name d = default_tube" "t_pos d = 0"
    using slab_defaultD [OF slab] by auto
  have d0: "nth_opt ?xs 0 = Some DEFAULT_TUBE" using tD [OF d(1)] d(3) by simp
  have "nth_opt ys (t_pos t) \<noteq> Some DEFAULT_TUBE"
  proof
    assume m: "nth_opt ys (t_pos t) = Some DEFAULT_TUBE"
    then have lt': "t_pos t < length ys" by (simp add: nth_opt_def split: if_splits)
    with swap_remove_nth [OF sr lt'] m have "last ?xs = DEFAULT_TUBE" by (simp add: nth_opt_def)
    then have "?xs ! (length ?xs - 1) = ?xs ! 0" "0 < length ?xs"
      using d0 lt by (auto simp: nth_opt_def last_conv_nth split: if_splits)
    then have "length ?xs - 1 = 0" using dist by (simp add: nth_eq_iff_index_eq)
    with length_swap_remove [OF sr] lt' show False by simp
  qed
  then have "tube e' DEFAULT_TUBE = Some d" using nd d by (simp add: e')
  moreover have names: "y = tid" if "tube e y = Some u" "t_name u = t_name t" for y u
    using tD [OF that(1)] tD [OF t] that(2) by simp
  moreover have "nth_opt ys (t_pos u) = Some y" if "tube e y = Some u" "y \<noteq> tid" "nth_opt ys (t_pos t) \<noteq> Some y" for y u
    by (rule swap_remove_pos [OF dist sr]) (use tD [OF that(1)] that x in auto)
  moreover have "\<exists>u. tube e' y = Some u \<and> t_name u = n" if "e_tube_ids e' n = Some y" for n y
  proof -
    from that have n: "e_tube_ids e n = Some y" "n \<noteq> t_name t" by (auto simp: e' split: if_splits)
    from slab_idD [OF slab n(1)] obtain u where "tube e y = Some u" "t_name u = n" by auto
    with n t show ?thesis by (auto simp: e')
  qed
  moreover have "tube e' y \<noteq> None" if "y \<in> set ys" for y
    using that ds slab by (auto simp: e' slab_ok_def)
  moreover have "distinct (e_free_tube_ids e')"
    "set (e_free_tube_ids e') = {y. y < length (e_tubes e') \<and> tube e' y = None}"
    using slab slab_free [OF slab] t tube_Some_length [OF t] by (auto simp: e' slab_ok_def)
  moreover have "e_tube_ids e' (t_name u) = Some y \<and> nth_opt ys (t_pos u) = Some y"
    if u: "tube e' y = Some u" for y u
  proof -
    from u obtain u0 where u0: "tube e y = Some u0" "t_name u = t_name u0" "y \<noteq> tid"
      "t_pos u = (if nth_opt ys (t_pos t) = Some y then t_pos t else t_pos u0)"
      by (auto simp: e' split: if_splits)
    with names [OF u0(1)] tD [OF u0(1)] swap_remove_pos [OF dist sr, of "t_pos u0" y] x
    show ?thesis by (auto simp: e')
  qed
  ultimately show ?thesis
    using d ds(1) unfolding slab_ok_def e'(3) by simp
qed

lemma gc_tube_if_orphan_inv:
  assumes inv: "inv L W G e" and small: "unat (e_next_job_id e) < 2 ^ 63"
  shows "returns (gc_tube_if_orphan tid e) (\<lambda>e'. inv L W (G - {tid}) e' \<and> culled e' e)"
proof -
  have slab: "slab_ok e" and ix: "index_ok e" using inv by (simp_all add: inv_def)
  have keep: "inv L W (G - {tid}) e" if "tid = DEFAULT_TUBE \<or> tube e tid = None \<or> \<not> unref e tid"
    by (rule slab_change_inv [OF inv _ slab ix]) (use that in \<open>auto simp: slab_only_def\<close>)
  show ?thesis
  proof (cases "tid = DEFAULT_TUBE \<or> tube e tid = None \<or> \<not> unref e tid")
    case True
    moreover have "gc_tube_if_orphan tid e = Some e"
      using True tube_refs_0 [OF inv _ small, of tid]
      by (auto simp: gc_tube_if_orphan_def split: option.splits)
    ultimately show ?thesis using keep by simp
  next
    case False
    then obtain t where nd: "tid \<noteq> DEFAULT_TUBE" and t: "tube e tid = Some t" and un: "unref e tid" by auto
    have r0: "tube_refs t = 0" using tube_refs_0 [OF inv t small] un by simp
    obtain ys where sr: "swap_remove (ms_items (e_tube_order e)) (t_pos t) = Some (tid, ys)"
      using slab_tubeD [OF slab t] by (auto simp: swap_remove_def nth_opt_def split: if_splits)
    define e0 where "e0 = e\<lparr>e_tubes := (e_tubes e)[tid := None], e_tube_ids := (e_tube_ids e)(t_name t := None)\<rparr>"
    define ep where "ep = (if t_pause t > 0
      then e0\<lparr>e_pauses := e_pauses e0 - {(t_unpause_at t, tid)}\<rparr> else e0)"
    define eh where "eh = (case t_delay_head t of
        Some d \<Rightarrow> ep\<lparr>e_delay_heads := e_delay_heads ep - {(d, tid)}\<rparr> | None \<Rightarrow> ep)"
    define ed where "ed = (if t_dispatchable t
      then eh\<lparr>e_dispatchable := e_dispatchable eh - {tid}\<rparr> else eh)"
    define e1 where "e1 = ed\<lparr>e_tube_order := (e_tube_order e)\<lparr>ms_items := ys\<rparr>\<rparr>"
    define e2 where "e2 = (case nth_opt ys (t_pos t) of
        Some moved \<Rightarrow> tube_mut moved (\<lambda>m. m\<lparr>t_pos := t_pos t\<rparr>) e1 | None \<Rightarrow> e1)"
    define e' where "e' = e2\<lparr>e_free_tube_ids := e_free_tube_ids e2 @ [tid]\<rparr>"
    have gc: "gc_tube_if_orphan tid e = Some e'"
      by (cases "nth_opt ys (t_pos t)"; cases "t_delay_head t"; cases "t_dispatchable t"; cases "t_pause t > 0";
          simp add: gc_tube_if_orphan_def nd t r0 ms_remove_at_def sr e1_def e2_def e'_def
          ed_def eh_def ep_def e0_def Let_def)
    have t1: "tube e1 = (tube e)(tid := None)"
      using tube_Some_length [OF t] tube_tubes_update [of tid e None]
      by (cases "t_delay_head t"; cases "t_dispatchable t"; cases "t_pause t > 0"; simp add: e1_def ed_def eh_def ep_def e0_def)
    have t': "tube e' = (\<lambda>y. if y = tid then None
        else if nth_opt ys (t_pos t) = Some y then map_option (\<lambda>m. m\<lparr>t_pos := t_pos t\<rparr>) (tube e y) else tube e y)"
      by (auto simp: e'_def e2_def t1 fun_eq_iff split: option.split)
    have same: "slab_only e' e"
      by (cases "nth_opt ys (t_pos t)"; cases "t_delay_head t"; cases "t_dispatchable t"; cases "t_pause t > 0";
          simp add: e'_def e2_def e1_def ed_def eh_def ep_def e0_def slab_only_def)
    have slab': "slab_ok e'"
      by (rule cull_slab [OF slab t nd sr t'])
        (cases "nth_opt ys (t_pos t)"; cases "t_delay_head t"; cases "t_dispatchable t"; cases "t_pause t > 0";
          simp add: e'_def e2_def e1_def ed_def eh_def ep_def e0_def)+
    have dsp: "e_dispatchable e1 = e_dispatchable e - {tid}"
      using ix t by (cases "t_delay_head t"; cases "t_dispatchable t"; cases "t_pause t > 0";
          auto simp: e1_def ed_def eh_def ep_def e0_def index_ok_def disp_exact_iff)
    have ix1: "index_ok e1"
      by (rule index_drop [OF ix t t1 dsp])
        (cases "t_delay_head t"; cases "t_dispatchable t"; cases "t_pause t > 0"; simp add: e1_def ed_def eh_def ep_def e0_def)+
    have ix': "index_ok e'"
      unfolding index_ok_pre
      by (rule pre_index_frame [OF ix1 [unfolded index_ok_pre]])
        (cases "nth_opt ys (t_pos t)"; simp add: e'_def e2_def view_simps; cases "tube e1 (the (nth_opt ys (t_pos t)))"; simp)+
    have old: "\<exists>u. tube e x = Some u \<and> u' = u\<lparr>t_pos := t_pos u'\<rparr>" if "tube e' x = Some u'" for x u'
      using that by (auto simp: t' split: if_splits)
    have "inv L W (G - {tid}) e'"
    proof (rule slab_change_inv [OF inv same slab' ix'])
      show "unref e x" if "tube e' x = None" "tube e x \<noteq> None" for x
        using that un by (auto simp: t' split: if_splits)
    qed (use old t' in auto)
    with gc old same show ?thesis by (simp add: culled_def)
  qed
qed

end
