(* ===== verification/Engine_Refs.thy ===== *)
theory Engine_Refs
  imports Engine_Slab
begin

text \<open>
  Changes of who refers to a tube: \<open>use\<close>, \<open>watch\<close>, \<open>ignore\<close>, connections that come and go.
  Each keeps the reference counts of the tubes equal to the number of connections that use
  or watch them.
\<close>

section \<open>References of one connection\<close>

definition ref_still :: "engine \<Rightarrow> engine \<Rightarrow> bool" where
  "ref_still e' e \<longleftrightarrow>
     tv t_name e' = tv t_name e \<and> tv t_pos e' = tv t_pos e \<and> tv t_job_ref_ct e' = tv t_job_ref_ct e \<and>
     tv t_ready e' = tv t_ready e \<and> tv t_delayed e' = tv t_delayed e \<and> tv t_buried e' = tv t_buried e \<and>
     tv t_stat e' = tv t_stat e \<and> tv t_waiting_conns e' = tv t_waiting_conns e \<and>
     tv t_pause e' = tv t_pause e \<and> tv t_unpause_at e' = tv t_unpause_at e \<and>
     tv t_delay_head e' = tv t_delay_head e \<and> tv t_dispatchable e' = tv t_dispatchable e \<and>
     cv c_waiting e' = cv c_waiting e \<and> cv c_wait_deadline e' = cv c_wait_deadline e \<and>
     cv c_pending_put e' = cv c_pending_put e \<and> cv c_is_producer e' = cv c_is_producer e \<and>
     cv c_is_worker e' = cv c_is_worker e \<and> cv c_reserved e' = cv c_reserved e \<and>
     cv c_reserved_by_deadline e' = cv c_reserved_by_deadline e \<and> cv c_tick_key e' = cv c_tick_key e \<and>
     cv conn_tickat e' = cv conn_tickat e \<and>
     e_jobs e' = e_jobs e \<and> e_next_job_id e' = e_next_job_id e \<and>
     e_next_list_seq e' = e_next_list_seq e \<and> e_tube_ids e' = e_tube_ids e \<and>
     e_tube_order e' = e_tube_order e \<and> e_free_tube_ids e' = e_free_tube_ids e \<and>
     length (e_tubes e') = length (e_tubes e) \<and> e_ready_ct e' = e_ready_ct e \<and>
     e_urgent_ct e' = e_urgent_ct e \<and> e_delayed_ct e' = e_delayed_ct e \<and>
     e_buried_ct e' = e_buried_ct e \<and> e_reserved_ct e' = e_reserved_ct e \<and>
     e_waiting_ct e' = e_waiting_ct e \<and> e_cur_conns e' = e_cur_conns e \<and>
     e_cur_producers e' = e_cur_producers e \<and> e_cur_workers e' = e_cur_workers e \<and>
     e_dispatchable e' = e_dispatchable e \<and> e_delay_heads e' = e_delay_heads e \<and>
     e_conn_ticks e' = e_conn_ticks e \<and> e_pauses e' = e_pauses e"

lemma tv_stat: "tv t_stat e' = tv t_stat e \<Longrightarrow> tv (\<lambda>t. f (t_stat t)) e' = tv (\<lambda>t. f (t_stat t)) e"
proof -
  assume "tv t_stat e' = tv t_stat e"
  then have "map_option f (tv t_stat e' x) = map_option f (tv t_stat e x)" for x by simp
  then show ?thesis by (simp add: tv_def fun_eq_iff option.map_comp comp_def)
qed

lemma tv_pair: "tv f e' = tv f e \<Longrightarrow> tv g e' = tv g e \<Longrightarrow> tv (\<lambda>t. (f t, g t)) e' = tv (\<lambda>t. (f t, g t)) e"
proof
  fix x
  assume "tv f e' = tv f e" "tv g e' = tv g e"
  then have "tv f e' x = tv f e x" "tv g e' x = tv g e x" by simp_all
  then show "tv (\<lambda>t. (f t, g t)) e' x = tv (\<lambda>t. (f t, g t)) e x"
    by (cases "tube e x"; cases "tube e' x") (simp_all add: tv_def)
qed

lemma inv_refs:
  assumes inv: "inv L W G e" and still: "ref_still e' e"
    and w: "\<And>x. waiters e' x = waiters e x" and refs: "refs_ok G' e'"
  shows "inv L W G' e'"
proof -
  note fr = still [unfolded ref_still_def]
  have st: "jobs_st L e' s = jobs_st L e s" for s using fr by (intro jobs_st_cong) simp
  have stat: "tv (\<lambda>t. f (t_stat t)) e' = tv (\<lambda>t. f (t_stat t)) e" for f :: "tube_stat \<Rightarrow> u64"
    by (rule tv_stat) (use fr in simp)
  have pair: "tv (\<lambda>t. (t_waiting_conns t, t_ready t)) e' = tv (\<lambda>t. (t_waiting_conns t, t_ready t)) e"
    by (rule tv_pair) (use fr in simp_all)
  have "slab_ok e'" by (rule slab_frame [of e]) (use inv fr in \<open>simp_all add: inv_def\<close>)
  moreover have "jobs_ok L e'"
    by (rule jobs_frame [of L e _ t_name c_waiting]) (use inv fr in \<open>simp_all add: inv_def\<close>)
  moreover have "seq_ok L e'" by (rule seq_frame [of L e]) (use inv fr in \<open>simp_all add: inv_def st\<close>)
  moreover have "pending_ok e'" by (rule pending_frame [of e]) (use inv fr in \<open>simp_all add: inv_def st\<close>)
  moreover have "ready_ok L e'" by (rule ready_frame [of L e]) (use inv fr in \<open>simp_all add: inv_def st stat\<close>)
  moreover have "delayed_ok L e'" by (rule delayed_frame [of L e]) (use inv fr in \<open>simp_all add: inv_def st\<close>)
  moreover have "buried_ok L e'" by (rule buried_frame [of L e]) (use inv fr in \<open>simp_all add: inv_def st stat\<close>)
  moreover have "reserved_ok L e'" by (rule reserved_frame [of L e]) (use inv fr in \<open>simp_all add: inv_def st stat\<close>)
  moreover have "conn_counts_ok e'" by (rule conn_counts_frame [of e]) (use inv fr in \<open>simp_all add: inv_def\<close>)
  moreover have "index_ok e'"
    unfolding index_ok_pre
    by (rule pre_index_frame [of "{}" "{}" "{}" e]) (use inv fr pair in \<open>simp_all add: inv_def index_ok_pre\<close>)
  moreover have "wait_ok W e'"
  proof -
    have ok: "wait_ok W e" using inv by (simp add: inv_def)
    have c: "cv c_waiting e' = cv c_waiting e" "cv c_wait_deadline e' = cv c_wait_deadline e"
      and t: "tv t_waiting_conns e' = tv t_waiting_conns e" using fr by simp_all
    have "c_wait_deadline k = None" if "e_conns e' cid = Some k" "\<not> c_waiting k" for cid k
      using cv2_SomeD [OF c that(1)] that(2) wait_connD [OF ok] by metis
    moreover have "distinct (ms_items (t_waiting_conns t)) \<and>
        set (ms_items (t_waiting_conns t)) = {cid \<in> waiters e x. (cid, x) \<notin> W} \<and>
        s_waiting_ct (t_stat t) = of_nat (card (waiters e x))" if "tube e' x = Some t" for x t
      using tv2_SomeD [OF t stat [of s_waiting_ct] that] wait_tubeD [OF ok, of x] by auto
    ultimately show ?thesis
      using ok fr by (simp add: wait_ok_def w waiting_conns_cong [OF c(1)])
  qed
  ultimately show ?thesis using refs by (simp add: inv_def)
qed

lemma refs_tubeD:
  "refs_ok G e \<Longrightarrow> tube e tid = Some t \<Longrightarrow>
   t_using_ct t = of_nat (card (users e tid)) \<and> t_watching_ct t = of_nat (card (watchers e tid)) \<and>
   t_job_ref_ct t = of_nat (card (tube_jobs e tid)) \<and>
   (tid = DEFAULT_TUBE \<or> tid \<in> G \<or> users e tid \<noteq> {} \<or> watchers e tid \<noteq> {} \<or> tube_jobs e tid \<noteq> {})"
  by (simp add: refs_ok_def)

lemma tickat_update [simp]:
  "conn_tickat (c_watch_update f c) = conn_tickat c" "conn_tickat (c_use_tube_update g c) = conn_tickat c"
  "conn_tickat (c_pending_put_update h c) = conn_tickat c" "conn_tickat (c_is_producer_update p c) = conn_tickat c"
  "conn_tickat (c_is_worker_update q c) = conn_tickat c"
  by (simp_all add: conn_tickat_def soonest_reserved_def Let_def split: option.split)

lemma watch_inv:
  assumes inv: "inv L W G e" and c: "e_conns e cid = Some c" "\<not> c_waiting c"
    and t: "tube e tid = Some t" and new: "tid \<notin> set (ms_items (c_watch c))"
  defines "e' \<equiv> tube_mut tid (\<lambda>t. t\<lparr>t_watching_ct := t_watching_ct t + 1\<rparr>)
    (conn_mut cid (\<lambda>c. c\<lparr>c_watch := ms_append tid (c_watch c)\<rparr>) e)"
  shows "inv L W (G - {tid}) e'"
proof (rule inv_refs [OF inv])
  show "ref_still e' e" by (simp add: ref_still_def e'_def) (simp add: view_simps c t)
  have wat: "watchers e' x = (if x = tid then insert cid (watchers e x) else watchers e x)" for x
    using c by (auto simp: watchers_def e'_def split: if_splits)
  have use: "users e' = users e" using c by (auto simp: users_def e'_def fun_eq_iff split: if_splits)
  have jobs: "tube_jobs e' = tube_jobs e" by (simp add: tube_jobs_def e'_def fun_eq_iff)
  have "waiting_conns e' = waiting_conns e" "cid \<notin> waiting_conns e"
    using c by (auto simp: waiting_conns_def e'_def split: if_splits)
  then show "waiters e' x = waiters e x" for x by (auto simp: waiters_def wat)
  have fresh: "cid \<notin> watchers e tid" using c new by (auto simp: watchers_def)
  have ok: "refs_ok G e" using inv by (simp add: inv_def)
  have te: "tube e' x = (if x = tid then Some (t\<lparr>t_watching_ct := t_watching_ct t + 1\<rparr>) else tube e x)" for x
    by (simp add: e'_def t)
  have ce: "e_conns e' x = (if x = cid then Some (c\<lparr>c_watch := ms_append tid (c_watch c)\<rparr>) else e_conns e x)" for x
    by (simp add: e'_def c)
  show "refs_ok (G - {tid}) e'"
    unfolding refs_ok_def
  proof (intro conjI allI impI)
    show "card (dom (e_conns e')) < 2 ^ 32" using ok c by (simp add: refs_ok_def e'_def insert_absorb domI)
  next
    fix x k assume "e_conns e' x = Some k"
    then show "tube e' (c_use_tube k) \<noteq> None" "distinct (ms_items (c_watch k))"
      "\<forall>y \<in> set (ms_items (c_watch k)). tube e' y \<noteq> None"
      using inv_conn [OF inv, of x] inv_conn [OF inv c(1)] new by (auto simp: ce te split: if_splits)
  next
    fix x u assume "tube e' x = Some u"
    then show "t_using_ct u = of_nat (card (users e' x))" "t_watching_ct u = of_nat (card (watchers e' x))"
      "t_job_ref_ct u = of_nat (card (tube_jobs e' x))"
      "x = DEFAULT_TUBE \<or> x \<in> G - {tid} \<or> users e' x \<noteq> {} \<or> watchers e' x \<noteq> {} \<or> tube_jobs e' x \<noteq> {}"
      using refs_tubeD [OF ok, of x] refs_tubeD [OF ok t] fresh
      by (auto simp: te use jobs wat split: if_splits)
  qed
qed

lemma unwatch_inv:
  assumes inv: "inv L W G e" and c: "e_conns e cid = Some c" "\<not> c_waiting c"
    and t: "tube e tid = Some t" and mem: "tid \<in> set (ms_items (c_watch c))"
    and w: "distinct (ms_items w)" "set (ms_items w) = set (ms_items (c_watch c)) - {tid}"
  defines "e' \<equiv> tube_mut tid (\<lambda>t. t\<lparr>t_watching_ct := sat_sub (t_watching_ct t) 1\<rparr>)
    (conn_mut cid (\<lambda>c. c\<lparr>c_watch := w\<rparr>) e)"
  shows "inv L W (insert tid G) e'"
proof (rule inv_refs [OF inv])
  show "ref_still e' e" by (simp add: ref_still_def e'_def) (simp add: view_simps c t)
  have ce: "e_conns e' x = (if x = cid then Some (c\<lparr>c_watch := w\<rparr>) else e_conns e x)" for x
    by (simp add: e'_def c)
  have "y \<in> watchers e' x \<longleftrightarrow> y \<in> (if x = tid then watchers e x - {cid} else watchers e x)" for x y
    by (cases "y = cid") (simp_all add: watchers_def ce c w(2))
  then have wat: "watchers e' x = (if x = tid then watchers e x - {cid} else watchers e x)" for x
    by blast
  have use: "users e' = users e" using c by (auto simp: users_def e'_def fun_eq_iff split: if_splits)
  have jobs: "tube_jobs e' = tube_jobs e" by (simp add: tube_jobs_def e'_def fun_eq_iff)
  have "waiting_conns e' = waiting_conns e" "cid \<notin> waiting_conns e"
    using c by (auto simp: waiting_conns_def e'_def split: if_splits)
  then show "waiters e' x = waiters e x" for x by (auto simp: waiters_def wat)
  have old: "cid \<in> watchers e tid" using c mem by (auto simp: watchers_def)
  have ok: "refs_ok G e" using inv by (simp add: inv_def)
  have te: "tube e' x = (if x = tid then Some (t\<lparr>t_watching_ct := sat_sub (t_watching_ct t) 1\<rparr>) else tube e x)" for x
    by (simp add: e'_def t)
  have "watchers e tid \<subseteq> dom (e_conns e)" by (auto simp: watchers_def)
  with card_conns_bound [OF inv this] have "sat_sub (t_watching_ct t) 1 = of_nat (card (watchers e tid - {cid}))"
    using refs_tubeD [OF ok t] card_minus_1 [OF old, where 'b = 32] by simp
  note dec = this
  show "refs_ok (insert tid G) e'"
    unfolding refs_ok_def
  proof (intro conjI allI impI)
    show "card (dom (e_conns e')) < 2 ^ 32" using ok c by (simp add: refs_ok_def e'_def insert_absorb domI)
  next
    fix x k assume "e_conns e' x = Some k"
    then show "tube e' (c_use_tube k) \<noteq> None" "distinct (ms_items (c_watch k))"
      "\<forall>y \<in> set (ms_items (c_watch k)). tube e' y \<noteq> None"
      using inv_conn [OF inv, of x] inv_conn [OF inv c(1)] w by (auto simp: ce te split: if_splits)
  next
    fix x u assume u: "tube e' x = Some u"
    then obtain v where v: "tube e x = Some v" "t_using_ct u = t_using_ct v" "t_job_ref_ct u = t_job_ref_ct v"
      "t_watching_ct u = (if x = tid then sat_sub (t_watching_ct t) 1 else t_watching_ct v)"
      using t by (auto simp: te split: if_splits)
    note r = refs_tubeD [OF ok v(1)]
    show "t_using_ct u = of_nat (card (users e' x))" "t_job_ref_ct u = of_nat (card (tube_jobs e' x))"
      using r by (simp_all add: v use jobs)
    show "t_watching_ct u = of_nat (card (watchers e' x))"
      using r dec unfolding v(4) wat by (simp split: if_splits)
    show "x = DEFAULT_TUBE \<or> x \<in> insert tid G \<or> users e' x \<noteq> {} \<or> watchers e' x \<noteq> {} \<or> tube_jobs e' x \<noteq> {}"
      using r by (cases "x = tid") (simp_all add: use jobs wat)
  qed
qed

lemma use_inv:
  assumes inv: "inv L W G e" and c: "e_conns e cid = Some c" "c_use_tube c = old"
    and t: "tube e old = Some t" "tube e new = Some u" and ne: "old \<noteq> new"
  defines "e' \<equiv> conn_mut cid (\<lambda>c. c\<lparr>c_use_tube := new\<rparr>)
    (tube_mut new (\<lambda>t. t\<lparr>t_using_ct := t_using_ct t + 1\<rparr>)
      (tube_mut old (\<lambda>t. t\<lparr>t_using_ct := sat_sub (t_using_ct t) 1\<rparr>) e))"
  shows "inv L W (insert old (G - {new})) e'"
proof (rule inv_refs [OF inv])
  show "ref_still e' e" using ne by (simp add: ref_still_def e'_def) (simp add: view_simps c t)
  have ce: "e_conns e' x = (if x = cid then Some (c\<lparr>c_use_tube := new\<rparr>) else e_conns e x)" for x
    by (simp add: e'_def c)
  have te: "tube e' x = (if x = new then Some (u\<lparr>t_using_ct := t_using_ct u + 1\<rparr>)
      else if x = old then Some (t\<lparr>t_using_ct := sat_sub (t_using_ct t) 1\<rparr>) else tube e x)" for x
    using ne by (simp add: e'_def t)
  have "y \<in> users e' x \<longleftrightarrow> y \<in> (if x = new then insert cid (users e x)
      else if x = old then users e x - {cid} else users e x)" for x y
    using c(2) ne by (cases "y = cid") (auto simp: users_def ce c)
  then have use: "users e' x = (if x = new then insert cid (users e x)
      else if x = old then users e x - {cid} else users e x)" for x
    by blast
  have wat: "watchers e' = watchers e" using c by (auto simp: watchers_def ce fun_eq_iff split: if_splits)
  have jobs: "tube_jobs e' = tube_jobs e" by (simp add: tube_jobs_def e'_def fun_eq_iff)
  have "waiting_conns e' = waiting_conns e" using c by (auto simp: waiting_conns_def ce split: if_splits)
  then show "waiters e' x = waiters e x" for x by (simp add: waiters_def wat)
  have mem: "cid \<in> users e old" "cid \<notin> users e new" using c ne by (auto simp: users_def)
  have ok: "refs_ok G e" using inv by (simp add: inv_def)
  have "users e old \<subseteq> dom (e_conns e)" by (auto simp: users_def)
  with card_conns_bound [OF inv this] have dec: "sat_sub (t_using_ct t) 1 = of_nat (card (users e old - {cid}))"
    using refs_tubeD [OF ok t(1)] card_minus_1 [OF mem(1), where 'b = 32] by simp
  show "refs_ok (insert old (G - {new})) e'"
    unfolding refs_ok_def
  proof (intro conjI allI impI)
    show "card (dom (e_conns e')) < 2 ^ 32" using ok c by (simp add: refs_ok_def e'_def insert_absorb domI)
  next
    fix x k assume "e_conns e' x = Some k"
    then show "tube e' (c_use_tube k) \<noteq> None" "distinct (ms_items (c_watch k))"
      "\<forall>y \<in> set (ms_items (c_watch k)). tube e' y \<noteq> None"
      using inv_conn [OF inv, of x] inv_conn [OF inv c(1)] by (auto simp: ce te split: if_splits)
  next
    fix x v' assume "tube e' x = Some v'"
    then obtain v where v: "tube e x = Some v" "t_watching_ct v' = t_watching_ct v" "t_job_ref_ct v' = t_job_ref_ct v"
      "t_using_ct v' = (if x = new then t_using_ct v + 1 else if x = old then sat_sub (t_using_ct t) 1 else t_using_ct v)"
      using t by (auto simp: te split: if_splits)
    note r = refs_tubeD [OF ok v(1)]
    show "t_watching_ct v' = of_nat (card (watchers e' x))" "t_job_ref_ct v' = of_nat (card (tube_jobs e' x))"
      using r by (simp_all add: v wat jobs)
    show "t_using_ct v' = of_nat (card (users e' x))"
      using r dec mem(2) unfolding v(4) use by (simp split: if_splits)
    show "x = DEFAULT_TUBE \<or> x \<in> insert old (G - {new}) \<or> users e' x \<noteq> {} \<or> watchers e' x \<noteq> {} \<or> tube_jobs e' x \<noteq> {}"
      using r by (cases "x = new"; cases "x = old") (simp_all add: use jobs wat)
  qed
qed

section \<open>Fields the invariant does not read\<close>

lemma inv_same:
  assumes "e_tubes e' = e_tubes e" "e_free_tube_ids e' = e_free_tube_ids e" "e_tube_ids e' = e_tube_ids e"
    "e_tube_order e' = e_tube_order e" "e_conns e' = e_conns e" "e_jobs e' = e_jobs e"
    "e_next_job_id e' = e_next_job_id e" "e_next_list_seq e' = e_next_list_seq e"
    "e_conn_ticks e' = e_conn_ticks e" "e_delay_heads e' = e_delay_heads e" "e_pauses e' = e_pauses e"
    "e_dispatchable e' = e_dispatchable e" "e_ready_ct e' = e_ready_ct e" "e_urgent_ct e' = e_urgent_ct e"
    "e_reserved_ct e' = e_reserved_ct e" "e_buried_ct e' = e_buried_ct e" "e_delayed_ct e' = e_delayed_ct e"
    "e_waiting_ct e' = e_waiting_ct e" "e_cur_conns e' = e_cur_conns e"
    "e_cur_producers e' = e_cur_producers e" "e_cur_workers e' = e_cur_workers e"
  shows "inv L W G e' \<longleftrightarrow> inv L W G e"
proof -
  have "tube e' = tube e" using assms(1) by (simp add: tube_def fun_eq_iff)
  with conn_sets_same [OF assms(5)] job_sets_same [OF assms(6)] show ?thesis
    by (simp add: inv_def slab_ok_def refs_ok_def wait_ok_def jobs_ok_def seq_ok_def pending_ok_def
        ready_ok_def delayed_ok_def buried_ok_def reserved_ok_def index_ok_def conn_counts_ok_def
        disp_exact_iff disp.fresh_def dly.exact_def dly.fresh_def tik.exact_def tik.fresh_def
        pauses_ok_def assms)
qed

lemma inv_unread [simp]:
  "inv L W G (e_ops_update f1 e) = inv L W G e"
  "inv L W G (e_journal_update f2 e) = inv L W G e"
  "inv L W G (e_total_jobs_ct_update f3 e) = inv L W G e"
  "inv L W G (e_timeout_ct_update f4 e) = inv L W G e"
  "inv L W G (e_tot_conns_update f5 e) = inv L W G e"
  "inv L W G (e_draining_update f6 e) = inv L W G e"
  "inv L W G (e_binlog_update f7 e) = inv L W G e"
  "inv L W G (e_local_conns_update f8 e) = inv L W G e"
  by (rule inv_same; simp)+

lemma inv_journal [simp]:
  "inv L W G (journal_put jid e) = inv L W G e"
  "inv L W G (journal_update jid e) = inv L W G e"
  "inv L W G (journal_delete jid e) = inv L W G e"
  by (simp_all add: journal_put_def journal_update_def journal_delete_def split: option.split)

section \<open>Connections that come and go\<close>

text \<open>A change of one connection that neither waits nor holds a job, before or after.\<close>

definition idle_at :: "conn_id \<Rightarrow> engine \<Rightarrow> bool" where
  "idle_at cid e \<longleftrightarrow>
     (\<forall>c. e_conns e cid = Some c \<longrightarrow> \<not> c_waiting c \<and> c_wait_deadline c = None \<and>
        c_reserved c = Map.empty \<and> c_reserved_by_deadline c = {})"

definition tubes_still :: "engine \<Rightarrow> engine \<Rightarrow> bool" where
  "tubes_still e' e \<longleftrightarrow>
     tv t_name e' = tv t_name e \<and> tv t_pos e' = tv t_pos e \<and>
     tv t_ready e' = tv t_ready e \<and> tv t_delayed e' = tv t_delayed e \<and> tv t_buried e' = tv t_buried e \<and>
     tv t_stat e' = tv t_stat e \<and> tv t_waiting_conns e' = tv t_waiting_conns e \<and>
     tv t_pause e' = tv t_pause e \<and> tv t_unpause_at e' = tv t_unpause_at e \<and>
     tv t_delay_head e' = tv t_delay_head e \<and> tv t_dispatchable e' = tv t_dispatchable e \<and>
     e_jobs e' = e_jobs e \<and> e_next_job_id e' = e_next_job_id e \<and>
     e_next_list_seq e' = e_next_list_seq e \<and> e_tube_ids e' = e_tube_ids e \<and>
     e_tube_order e' = e_tube_order e \<and> e_free_tube_ids e' = e_free_tube_ids e \<and>
     length (e_tubes e') = length (e_tubes e) \<and> e_ready_ct e' = e_ready_ct e \<and>
     e_urgent_ct e' = e_urgent_ct e \<and> e_delayed_ct e' = e_delayed_ct e \<and>
     e_buried_ct e' = e_buried_ct e \<and> e_reserved_ct e' = e_reserved_ct e \<and>
     e_waiting_ct e' = e_waiting_ct e \<and>
     e_dispatchable e' = e_dispatchable e \<and> e_delay_heads e' = e_delay_heads e \<and>
     e_pauses e' = e_pauses e"

lemma inv_conns:
  assumes inv: "inv L W G e" and still: "tubes_still e' e"
    and other: "\<And>x. x \<noteq> cid \<Longrightarrow> e_conns e' x = e_conns e x"
    and idle: "idle_at cid e" "idle_at cid e'"
    and nores: "\<And>i j. e_jobs e i = Some j \<Longrightarrow> j_reserver j \<noteq> Some cid"
    and pend: "\<And>c. e_conns e' cid = Some c \<Longrightarrow> c_pending_put c = None"
    and tik: "tik.exact e'" "\<And>c. e_conns e' cid = Some c \<Longrightarrow> c_tick_key c = conn_tickat c"
    and cnt: "conn_counts_ok e'" and refs: "refs_ok G' e'"
  shows "inv L W G' e'"
proof -
  note fr = still [unfolded tubes_still_def]
  have st: "jobs_st L e' s = jobs_st L e s" for s using fr by (intro jobs_st_cong) simp
  have stat: "tv (\<lambda>t. f (t_stat t)) e' = tv (\<lambda>t. f (t_stat t)) e" for f :: "tube_stat \<Rightarrow> u64"
    by (rule tv_stat) (use fr in simp)
  have pair: "tv (\<lambda>t. (t_waiting_conns t, t_ready t)) e' = tv (\<lambda>t. (t_waiting_conns t, t_ready t)) e"
    by (rule tv_pair) (use fr in simp_all)
  have none: "tube e' x = None \<longleftrightarrow> tube e x = None" for x by (rule tv_None [of t_name]) (use fr in simp)
  have wcid: "cid \<notin> waiting_conns e" "cid \<notin> waiting_conns e'"
    using idle by (auto simp: waiting_conns_def idle_at_def)
  have wc: "waiting_conns e' = waiting_conns e"
  proof (rule set_eqI)
    fix x show "x \<in> waiting_conns e' \<longleftrightarrow> x \<in> waiting_conns e"
      by (cases "x = cid") (use wcid in simp, use other [of x] in \<open>simp add: waiting_conns_def\<close>)
  qed
  have w: "waiters e' x = waiters e x" for x
  proof (rule set_eqI)
    fix y show "y \<in> waiters e' x \<longleftrightarrow> y \<in> waiters e x"
      by (cases "y = cid") (use wcid in \<open>simp add: waiters_def\<close>,
          use other [of y] in \<open>simp add: waiters_def wc watchers_def\<close>)
  qed
  have slab: "slab_ok e'" by (rule slab_frame [of e]) (use inv fr in \<open>simp_all add: inv_def\<close>)
  have jobs: "jobs_ok L e'"
  proof -
    have "e_conns e' x \<noteq> None" if "e_jobs e i = Some j" "j_reserver j = Some x" for i j x
      using that nores [OF that(1)] other [of x] jobs_jobD [OF inv_jobs [OF inv] that(1)] by auto
    moreover have "e_jobs e' = e_jobs e" "e_next_job_id e' = e_next_job_id e" using fr by simp_all
    ultimately show ?thesis using inv_jobs [OF inv] unfolding jobs_ok_def none by simp
  qed
  have seq: "seq_ok L e'" by (rule seq_frame [of L e]) (use inv fr in \<open>simp_all add: inv_def st\<close>)
  have pending: "pending_ok e'"
  proof -
    have "pending_id e x = Some i" if "pending_id e' x = Some i" for x i
      using that pend other [of x] by (cases "x = cid") (auto simp: pending_id_def bind_eq_Some_conv)
    moreover have "e_jobs e' = e_jobs e" "e_next_job_id e' = e_next_job_id e" "pending_ok e"
      using fr inv by (simp_all add: inv_def)
    ultimately show ?thesis unfolding pending_ok_def by simp blast
  qed
  have ready: "ready_ok L e'" by (rule ready_frame [of L e]) (use inv fr in \<open>simp_all add: inv_def st stat\<close>)
  have delayed: "delayed_ok L e'" by (rule delayed_frame [of L e]) (use inv fr in \<open>simp_all add: inv_def st\<close>)
  have buried: "buried_ok L e'" by (rule buried_frame [of L e]) (use inv fr in \<open>simp_all add: inv_def st stat\<close>)
  have reserved: "reserved_ok L e'"
    unfolding reserved_ok_def
  proof (intro conjI allI impI)
    fix x k
    assume k: "e_conns e' x = Some k"
    have ok: "reserved_ok L e" using inv by (simp add: inv_def)
    have no: "\<not> (\<exists>j. (i, j) \<in> jobs_st L e Reserved \<and> j_reserver j = Some cid \<and> P j)" for i P
      using nores by (auto simp: jobs_st_def)
    show "c_reserved k q = Some i \<longleftrightarrow>
        (\<exists>j. (i, j) \<in> jobs_st L e' Reserved \<and> j_reserver j = Some x \<and> j_list_seq j = q)" for q i
      using k idle(2) no reserved_connD [OF ok, of x] other [of x]
      by (cases "x = cid") (simp_all add: st idle_at_def)
    show "(d, i) \<in> c_reserved_by_deadline k \<longleftrightarrow>
        (\<exists>j. (i, j) \<in> jobs_st L e' Reserved \<and> j_reserver j = Some x \<and> j_deadline_at j = d)" for d i
      using k idle(2) no reserved_connD [OF ok, of x] other [of x]
      by (cases "x = cid") (simp_all add: st idle_at_def)
  next
    fix x t assume "tube e' x = Some t"
    then show "s_reserved_ct (t_stat t) = of_nat (card (jobs_in L e' Reserved (\<lambda>j. j_tube j = x)))"
      using tv_SomeD [OF stat [of s_reserved_ct], of x t] reserved_tubeD [of L e x] inv jobs_in_cong [OF st]
      by (auto simp: inv_def)
  next
    show "e_reserved_ct e' = of_nat (card (jobs_in L e' Reserved (\<lambda>j. True)))"
      using inv fr jobs_in_cong [OF st] by (simp add: inv_def reserved_ok_def)
  qed
  have ix: "index_ok e'"
  proof -
    have ok: "index_ok e" using inv by (simp add: inv_def)
    have "disp.exact e'" "dly.exact e'" "pauses_ok e'"
      using ok fr disp_frame [of e' e] dly_frame [of e' e] pauses_frame [of e e'] by (simp_all add: index_ok_def)
    moreover have "disp.fresh {} e'" "dly.fresh {} e'"
      using ok fr pair disp_fresh_frame [of "{}" e e'] dly_fresh_frame [of "{}" e e'] by (simp_all add: index_ok_def)
    moreover have "c_tick_key c = conn_tickat c" if "e_conns e' x = Some c" for x c
      using that tik(2) ok other [of x] by (cases "x = cid") (auto simp: index_ok_def tik.fresh_def)
    ultimately show ?thesis using tik(1) by (simp add: index_ok_def tik.fresh_def)
  qed
  have wait: "wait_ok W e'"
  proof -
    have ok: "wait_ok W e" using inv by (simp add: inv_def)
    have t: "tv t_waiting_conns e' = tv t_waiting_conns e" using fr by simp
    have "c_wait_deadline k = None" if "e_conns e' x = Some k" "\<not> c_waiting k" for x k
      using that idle(2) wait_connD [OF ok, of x] other [of x] by (cases "x = cid") (auto simp: idle_at_def)
    moreover have "distinct (ms_items (t_waiting_conns t)) \<and>
        set (ms_items (t_waiting_conns t)) = {cid \<in> waiters e x. (cid, x) \<notin> W} \<and>
        s_waiting_ct (t_stat t) = of_nat (card (waiters e x))" if "tube e' x = Some t" for x t
      using tv2_SomeD [OF t stat [of s_waiting_ct] that] wait_tubeD [OF ok, of x] by auto
    ultimately show ?thesis using ok fr by (simp add: wait_ok_def w wc)
  qed
  show ?thesis unfolding inv_def
    using slab refs wait jobs seq pending ready delayed buried reserved ix cnt by blast
qed

lemma no_reserver:
  assumes inv: "inv {} W G e" and none: "\<And>c. e_conns e cid = Some c \<Longrightarrow> c_reserved c = Map.empty"
    and j: "e_jobs e i = Some j"
  shows "j_reserver j \<noteq> Some cid"
proof
  assume r: "j_reserver j = Some cid"
  with jobs_jobD [OF inv_jobs [OF inv] j] obtain c where c: "e_conns e cid = Some c" "j_state j = Reserved" by auto
  from inv have "reserved_ok {} e" by (simp add: inv_def)
  from reserved_connD [OF this c(1)] r j c(2) none [OF c(1)] show False by (auto simp: jobs_st_def)
qed

lemma connect_inv:
  assumes inv: "inv {} W G e" and new: "e_conns e cid = None" and room: "card (dom (e_conns e)) < 2 ^ 32 - 1"
  shows "inv {} W G (connect now cid e)" (is "inv _ _ _ ?e")
proof (rule inv_conns [OF inv, where cid = cid])
  have slab: "slab_ok e" and ok: "refs_ok G e" using inv by (simp_all add: inv_def)
  from slab_defaultD [OF slab] obtain t where t: "tube e DEFAULT_TUBE = Some t" by auto
  have ce: "e_conns ?e = (e_conns e)(cid \<mapsto> conn_state_new DEFAULT_TUBE)"
    by (simp add: connect_def Let_def new)
  have te: "tube ?e = (tube e)(DEFAULT_TUBE \<mapsto> t\<lparr>t_using_ct := t_using_ct t + 1, t_watching_ct := t_watching_ct t + 1\<rparr>)"
    by (simp add: connect_def Let_def new t)
  show "tubes_still ?e e" by (simp add: tubes_still_def connect_def Let_def new) (simp add: view_simps t)
  show "e_conns ?e x = e_conns e x" if "x \<noteq> cid" for x using that by (simp add: ce)
  show "idle_at cid e" "idle_at cid ?e" by (simp_all add: idle_at_def new ce conn_state_new_def)
  show "j_reserver j \<noteq> Some cid" if "e_jobs e i = Some j" for i j
    by (rule no_reserver [OF inv _ that]) (simp add: new)
  have tick: "conn_tickat (conn_state_new DEFAULT_TUBE) = None"
    by (simp add: conn_tickat_def conn_state_new_def soonest_reserved_def)
  show "c_pending_put c = None" "c_tick_key c = conn_tickat c" if "e_conns ?e cid = Some c" for c
    using that tick by (auto simp: ce conn_state_new_def)
  have "(\<exists>c. e_conns ?e x = Some c \<and> c_tick_key c = Some k) \<longleftrightarrow> (\<exists>c. e_conns e x = Some c \<and> c_tick_key c = Some k)" for x k
    using new by (simp add: ce conn_state_new_def)
  moreover have "e_conn_ticks ?e = e_conn_ticks e" by (simp add: connect_def Let_def new)
  ultimately show "tik.exact ?e" using inv by (simp add: inv_def index_ok_def tik.exact_def)
  have "{x. \<exists>c. e_conns ?e x = Some c \<and> P c} = {x. \<exists>c. e_conns e x = Some c \<and> P c}"
    if "\<not> P (conn_state_new DEFAULT_TUBE)" for P
    using that new by (auto simp: ce)
  from this [of c_is_producer] this [of c_is_worker] show "conn_counts_ok ?e"
    using inv by (simp add: inv_def conn_counts_ok_def)
      (simp add: ce conn_state_new_def connect_def Let_def new domIff)
  have use: "users ?e x = (if x = DEFAULT_TUBE then insert cid (users e x) else users e x)"
    and wat: "watchers ?e x = (if x = DEFAULT_TUBE then insert cid (watchers e x) else watchers e x)" for x
    using new by (auto simp: users_def watchers_def ce conn_state_new_def ms_new_def split: if_splits)
  have fresh: "cid \<notin> users e x" "cid \<notin> watchers e x" for x using new by (auto simp: users_def watchers_def)
  have jobs: "tube_jobs ?e = tube_jobs e" by (simp add: tube_jobs_def connect_def Let_def new fun_eq_iff)
  show "refs_ok G ?e"
    unfolding refs_ok_def
  proof (intro conjI allI impI)
    show "card (dom (e_conns ?e)) < 2 ^ 32" using room new by (simp add: ce domIff)
  next
    fix x k assume "e_conns ?e x = Some k"
    then show "tube ?e (c_use_tube k) \<noteq> None" "distinct (ms_items (c_watch k))"
      "\<forall>y \<in> set (ms_items (c_watch k)). tube ?e y \<noteq> None"
      using inv_conn [OF inv, of x] by (auto simp: ce te conn_state_new_def ms_new_def split: if_splits)
  next
    fix x v' assume "tube ?e x = Some v'"
    then obtain v where v: "tube e x = Some v" "t_job_ref_ct v' = t_job_ref_ct v"
      "t_using_ct v' = (if x = DEFAULT_TUBE then t_using_ct v + 1 else t_using_ct v)"
      "t_watching_ct v' = (if x = DEFAULT_TUBE then t_watching_ct v + 1 else t_watching_ct v)"
      using t by (auto simp: te split: if_splits)
    note r = refs_tubeD [OF ok v(1)]
    show "t_watching_ct v' = of_nat (card (watchers ?e x))" "t_job_ref_ct v' = of_nat (card (tube_jobs ?e x))"
      "t_using_ct v' = of_nat (card (users ?e x))"
      using r fresh by (simp_all add: v wat use jobs)
    show "x = DEFAULT_TUBE \<or> x \<in> G \<or> users ?e x \<noteq> {} \<or> watchers ?e x \<noteq> {} \<or> tube_jobs ?e x \<noteq> {}"
      using r by (cases "x = DEFAULT_TUBE") (simp_all add: use jobs wat)
  qed
qed

text \<open>The fields of the engine that belong to connections, set all at once.\<close>

definition with_conns ::
  "(conn_id \<rightharpoonup> conn_state) \<Rightarrow> (nanos \<times> conn_id) set \<Rightarrow> u32 \<Rightarrow> u32 \<Rightarrow> u32 \<Rightarrow> engine \<Rightarrow> engine" where
  "with_conns cs ticks n p w e =
     e\<lparr>e_conns := cs, e_conn_ticks := ticks, e_cur_conns := n, e_cur_producers := p, e_cur_workers := w\<rparr>"

lemma drop_conn_eq:
  assumes c: "e_conns e cid = Some c"
  shows "drop_conn cid e = with_conns ((e_conns e)(cid := None))
    (e_conn_ticks e - (\<lambda>k. (k, cid)) ` set_option (c_tick_key c)) (sat_sub (e_cur_conns e) 1)
    (if c_is_producer c then sat_sub (e_cur_producers e) 1 else e_cur_producers e)
    (if c_is_worker c then sat_sub (e_cur_workers e) 1 else e_cur_workers e) e"
  by (rule engine.equality)
    (cases "c_tick_key c"; cases "c_is_producer c"; cases "c_is_worker c";
      simp add: drop_conn_def with_conns_def c Let_def)+

lemma drop_conn_obs:
  assumes c: "e_conns e cid = Some c"
  shows "e_conns (drop_conn cid e) = (e_conns e)(cid := None)"
    "e_conn_ticks (drop_conn cid e) = e_conn_ticks e - (\<lambda>k. (k, cid)) ` set_option (c_tick_key c)"
    "e_cur_conns (drop_conn cid e) = sat_sub (e_cur_conns e) 1"
    "e_cur_producers (drop_conn cid e) = (if c_is_producer c then sat_sub (e_cur_producers e) 1 else e_cur_producers e)"
    "e_cur_workers (drop_conn cid e) = (if c_is_worker c then sat_sub (e_cur_workers e) 1 else e_cur_workers e)"
    "tube (drop_conn cid e) = tube e" "length (e_tubes (drop_conn cid e)) = length (e_tubes e)"
    "e_jobs (drop_conn cid e) = e_jobs e"
  by (simp_all add: drop_conn_eq [OF c] with_conns_def)

lemma count_drop:
  assumes c: "e_conns e cid = Some c" and e': "e_conns e' = (e_conns e)(cid := None)"
    and small: "card (dom (e_conns e)) < 2 ^ 32"
  shows "(of_nat (card {x. \<exists>c. e_conns e' x = Some c \<and> P c}) :: u32) =
    (if P c then sat_sub (of_nat (card {x. \<exists>c. e_conns e x = Some c \<and> P c})) 1
     else of_nat (card {x. \<exists>c. e_conns e x = Some c \<and> P c}))"
proof -
  let ?A = "{x. \<exists>c. e_conns e x = Some c \<and> P c}"
  have eq: "{x. \<exists>c. e_conns e' x = Some c \<and> P c} = ?A - {cid}" by (auto simp: e' split: if_splits)
  have "card ?A \<le> card (dom (e_conns e))" by (rule card_mono) auto
  with small have "card ?A < 2 ^ LENGTH(32)" by simp
  moreover have "cid \<in> ?A \<longleftrightarrow> P c" using c by simp
  ultimately show ?thesis
    using card_minus_1 [of cid ?A, where 'b = 32] unfolding eq by (cases "P c") simp_all
qed

lemma leave_inv:
  assumes inv: "inv {} W G e" and c: "e_conns e cid = Some c" "\<not> c_waiting c" "c_reserved c = Map.empty"
    "ms_items (c_watch c) = []" "c_use_tube c = u"
  defines "e' \<equiv> tube_mut u (\<lambda>t. t\<lparr>t_using_ct := sat_sub (t_using_ct t) 1\<rparr>) (drop_conn cid e)"
  shows "inv {} W (insert u G) e'"
proof (rule inv_conns [OF inv, where cid = cid])
  have ok: "refs_ok G e" using inv by (simp add: inv_def)
  from inv_conn(1) [OF inv c(1)] c(5) obtain t where t: "tube e u = Some t" by auto
  note obs = drop_conn_obs [OF c(1)]
  have ce: "e_conns e' = (e_conns e)(cid := None)" by (simp add: e'_def obs)
  have te: "tube e' = (tube e)(u \<mapsto> t\<lparr>t_using_ct := sat_sub (t_using_ct t) 1\<rparr>)" by (simp add: e'_def obs t)
  show nores: "j_reserver j \<noteq> Some cid" if "e_jobs e i = Some j" for i j
    by (rule no_reserver [OF inv _ that]) (simp add: c)
  have "reserved_ok {} e" using inv by (simp add: inv_def)
  from reserved_connD [OF this c(1)] nores have rbd: "c_reserved_by_deadline c = {}"
    by (auto simp: jobs_st_def)
  show "tubes_still e' e"
    by (simp add: tubes_still_def e'_def drop_conn_eq [OF c(1)] with_conns_def) (simp add: view_simps t)
  show "e_conns e' x = e_conns e x" if "x \<noteq> cid" for x using that by (simp add: ce)
  have "c_wait_deadline c = None" using wait_connD [of W e cid c] inv c by (simp add: inv_def)
  then show "idle_at cid e" "idle_at cid e'" by (simp_all add: idle_at_def ce c rbd)
  show "c_pending_put k = None" "c_tick_key k = conn_tickat k" if "e_conns e' cid = Some k" for k
    using that by (simp_all add: ce)
  show "tik.exact e'"
    using inv c(1) by (auto simp: inv_def index_ok_def tik.exact_def e'_def obs split: if_splits)
  have small: "card (dom (e_conns e)) < 2 ^ 32" using ok by (simp add: refs_ok_def)
  have all: "{x. \<exists>c. e_conns f x = Some c \<and> True} = dom (e_conns f)" for f :: engine by auto
  show "conn_counts_ok e'"
    using inv count_drop [OF c(1) ce small, of c_is_producer] count_drop [OF c(1) ce small, of c_is_worker]
      count_drop [OF c(1) ce small, of "\<lambda>_. True", unfolded all]
    by (simp add: inv_def conn_counts_ok_def e'_def obs)
  have use: "users e' x = (if x = u then users e x - {cid} else users e x)"
    and wat: "watchers e' x = watchers e x" for x
    using c by (auto simp: users_def watchers_def ce split: if_splits)
  have mem: "cid \<in> users e u" using c by (auto simp: users_def)
  have "users e u \<subseteq> dom (e_conns e)" by (auto simp: users_def)
  with card_conns_bound [OF inv this] have dec: "sat_sub (t_using_ct t) 1 = of_nat (card (users e u - {cid}))"
    using refs_tubeD [OF ok t] card_minus_1 [OF mem, where 'b = 32] by simp
  have jobs: "tube_jobs e' = tube_jobs e" by (simp add: tube_jobs_def e'_def obs fun_eq_iff)
  show "refs_ok (insert u G) e'"
    unfolding refs_ok_def
  proof (intro conjI allI impI)
    have "card (dom (e_conns e')) \<le> card (dom (e_conns e))" by (rule card_mono) (auto simp: ce)
    with small show "card (dom (e_conns e')) < 2 ^ 32" by simp
  next
    fix x k assume "e_conns e' x = Some k"
    then show "tube e' (c_use_tube k) \<noteq> None" "distinct (ms_items (c_watch k))"
      "\<forall>y \<in> set (ms_items (c_watch k)). tube e' y \<noteq> None"
      using inv_conn [OF inv, of x] by (auto simp: ce te split: if_splits)
  next
    fix x v' assume "tube e' x = Some v'"
    then obtain v where v: "tube e x = Some v" "t_job_ref_ct v' = t_job_ref_ct v" "t_watching_ct v' = t_watching_ct v"
      "t_using_ct v' = (if x = u then sat_sub (t_using_ct t) 1 else t_using_ct v)"
      using t by (auto simp: te split: if_splits)
    note r = refs_tubeD [OF ok v(1)]
    show "t_watching_ct v' = of_nat (card (watchers e' x))" "t_job_ref_ct v' = of_nat (card (tube_jobs e' x))"
      using r by (simp_all add: v wat jobs)
    show "t_using_ct v' = of_nat (card (users e' x))"
      using r dec unfolding v(4) use by (simp split: if_splits)
    show "x = DEFAULT_TUBE \<or> x \<in> insert u G \<or> users e' x \<noteq> {} \<or> watchers e' x \<noteq> {} \<or> tube_jobs e' x \<noteq> {}"
      using r by (cases "x = u") (simp_all add: use jobs wat)
  qed
qed

end
