(* ===== verification/Engine_Conns.thy ===== *)
theory Engine_Conns
  imports Engine_Refs
begin

text \<open>
  The connection operations return and keep the invariant: \<open>connect\<close>, \<open>disconnect\<close>,
  \<open>half_close\<close>, \<open>put_started\<close>, \<open>put_rejected\<close>, and the commands that change what a connection
  uses or watches.
\<close>

section \<open>Collecting a tube does not look at connections\<close>

lemma with_conns_fields:
  "e_tubes (with_conns cs ticks n p w e) = e_tubes e"
  "e_free_tube_ids (with_conns cs ticks n p w e) = e_free_tube_ids e"
  "e_tube_ids (with_conns cs ticks n p w e) = e_tube_ids e"
  "e_tube_order (with_conns cs ticks n p w e) = e_tube_order e"
  "e_pauses (with_conns cs ticks n p w e) = e_pauses e"
  "e_delay_heads (with_conns cs ticks n p w e) = e_delay_heads e"
  "e_dispatchable (with_conns cs ticks n p w e) = e_dispatchable e"
  "e_tubes_update g0 (with_conns cs ticks n p w e) = with_conns cs ticks n p w (e_tubes_update g0 e)"
  "e_free_tube_ids_update g1 (with_conns cs ticks n p w e) = with_conns cs ticks n p w (e_free_tube_ids_update g1 e)"
  "e_tube_ids_update g2 (with_conns cs ticks n p w e) = with_conns cs ticks n p w (e_tube_ids_update g2 e)"
  "e_tube_order_update g3 (with_conns cs ticks n p w e) = with_conns cs ticks n p w (e_tube_order_update g3 e)"
  "e_pauses_update g4 (with_conns cs ticks n p w e) = with_conns cs ticks n p w (e_pauses_update g4 e)"
  "e_delay_heads_update g5 (with_conns cs ticks n p w e) = with_conns cs ticks n p w (e_delay_heads_update g5 e)"
  "e_dispatchable_update g6 (with_conns cs ticks n p w e) = with_conns cs ticks n p w (e_dispatchable_update g6 e)"
  by (simp_all add: with_conns_def)

lemma tube_with_conns [simp]: "tube (with_conns cs ticks n p w e) = tube e"
  by (simp add: with_conns_def)

lemma tube_mut_with_conns:
  "tube_mut x f (with_conns cs ticks n p w e) = with_conns cs ticks n p w (tube_mut x f e)"
  by (simp add: tube_mut_def with_conns_fields split: option.split)

lemma gc_with_conns:
  "gc_tube_if_orphan tid (with_conns cs ticks n p w e) =
     map_option (with_conns cs ticks n p w) (gc_tube_if_orphan tid e)"
proof (cases "tube e tid")
  case None
  then show ?thesis by (simp add: gc_tube_if_orphan_def)
next
  case (Some t)
  define r where "r = ms_remove_at (t_pos t) (e_tube_order e)"
  have ord: "ms_remove_at (t_pos t) (e_tube_order e) = r" by (simp add: r_def)
  note d = gc_tube_if_orphan_def Some with_conns_fields tube_mut_with_conns Let_def ord
  consider "tid = DEFAULT_TUBE \<or> tube_refs t \<noteq> 0" | "tid \<noteq> DEFAULT_TUBE" "tube_refs t = 0" "r = None"
    | x ms where "tid \<noteq> DEFAULT_TUBE" "tube_refs t = 0" "r = Some (x, ms)"
    by (cases r) auto
  then show ?thesis
  proof cases
    case 1
    then show ?thesis by (auto simp: gc_tube_if_orphan_def Some)
  next
    case 2
    then show ?thesis
      by (cases "t_delay_head t"; cases "t_dispatchable t"; cases "t_pause t > 0"; simp add: d)
  next
    case 3
    then show ?thesis
      by (cases "t_delay_head t"; cases "t_dispatchable t"; cases "t_pause t > 0";
          cases "nth_opt (ms_items ms) (t_pos t)"; simp add: d)
  qed
qed

lemma tube_mut_fields:
  "tube_mut x f (e_tube_ids_update g e) = e_tube_ids_update g (tube_mut x f e)"
  "tube_mut x f (e_pauses_update h1 e) = e_pauses_update h1 (tube_mut x f e)"
  "tube_mut x f (e_delay_heads_update h2 e) = e_delay_heads_update h2 (tube_mut x f e)"
  "tube_mut x f (e_dispatchable_update h3 e) = e_dispatchable_update h3 (tube_mut x f e)"
  "tube_mut x f (e_tube_order_update h4 e) = e_tube_order_update h4 (tube_mut x f e)"
  "tube_mut x f (e_free_tube_ids_update h5 e) = e_free_tube_ids_update h5 (tube_mut x f e)"
  by (simp_all add: tube_mut_def split: option.split)

lemma tube_mut_swap:
  assumes "x \<noteq> y \<or> (\<forall>t. f (g t) = g (f t))"
  shows "tube_mut x f (tube_mut y g e) = tube_mut y g (tube_mut x f e)"
proof (cases "tube e x")
  case None
  then show ?thesis by (cases "tube e y"; cases "x = y") (simp_all add: tube_mut_def tube_tubes_update tube_Some_length)
next
  case (Some t)
  show ?thesis
  proof (cases "tube e y")
    case None
    with Some show ?thesis by (cases "x = y") (auto simp: tube_mut_def tube_tubes_update tube_Some_length)
  next
    case (Some u)
    with \<open>tube e x = Some t\<close> assms show ?thesis
      by (cases "x = y") (auto simp: tube_mut_def tube_tubes_update tube_Some_length list_update_swap)
  qed
qed

lemma tube_mut_clear:
  "x \<noteq> y \<Longrightarrow>
   (tube_mut x f e)\<lparr>e_tubes := (e_tubes (tube_mut x f e))[y := None]\<rparr> =
     tube_mut x f (e\<lparr>e_tubes := (e_tubes e)[y := None]\<rparr>)"
  by (cases "tube e x")
    (auto simp: tube_mut_def tube_def nth_opt_def list_update_swap split: option.splits if_splits)

lemma gc_tube_mut:
  assumes ne: "x \<noteq> tid" and f: "\<And>t p. f (t\<lparr>t_pos := p\<rparr>) = (f t)\<lparr>t_pos := p\<rparr>"
  shows "gc_tube_if_orphan tid (tube_mut x f e) = map_option (tube_mut x f) (gc_tube_if_orphan tid e)"
proof (cases "tube e tid")
  case None
  with ne show ?thesis by (simp add: gc_tube_if_orphan_def)
next
  case (Some t)
  define r where "r = ms_remove_at (t_pos t) (e_tube_order e)"
  have ord: "ms_remove_at (t_pos t) (e_tube_order e) = r" by (simp add: r_def)
  have swap: "tube_mut y (\<lambda>m. m\<lparr>t_pos := p\<rparr>) (tube_mut x f e) = tube_mut x f (tube_mut y (\<lambda>m. m\<lparr>t_pos := p\<rparr>) e)" for y p e
    by (rule tube_mut_swap) (simp add: f)
  note d = gc_tube_if_orphan_def Some ne ne [symmetric] tube_mut_fields [symmetric] tube_mut_clear [OF ne] swap Let_def ord
  consider "tid = DEFAULT_TUBE \<or> tube_refs t \<noteq> 0" | "tid \<noteq> DEFAULT_TUBE" "tube_refs t = 0" "r = None"
    | y ms where "tid \<noteq> DEFAULT_TUBE" "tube_refs t = 0" "r = Some (y, ms)"
    by (cases r) auto
  then show ?thesis
  proof cases
    case 1
    then show ?thesis using ne by (auto simp: gc_tube_if_orphan_def Some)
  next
    case 2
    then show ?thesis
      by (cases "t_delay_head t"; cases "t_dispatchable t"; cases "t_pause t > 0"; simp add: d)
  next
    case 3
    then show ?thesis
      by (cases "t_delay_head t"; cases "t_dispatchable t"; cases "t_pause t > 0";
          cases "nth_opt (ms_items ms) (t_pos t)"; simp add: d)
  qed
qed

lemma conn_mut_with_conns:
  "conn_mut cid f e = with_conns ((e_conns e)(cid := map_option f (e_conns e cid))) (e_conn_ticks e)
     (e_cur_conns e) (e_cur_producers e) (e_cur_workers e) e"
  by (rule engine.equality) (cases "e_conns e cid"; simp add: conn_mut_def with_conns_def fun_upd_idem)+

lemma gc_conns:
  assumes "gc_tube_if_orphan tid e = Some e'"
  shows "e_conns e' = e_conns e" "e_conn_ticks e' = e_conn_ticks e" "e_cur_conns e' = e_cur_conns e"
    "e_cur_producers e' = e_cur_producers e" "e_cur_workers e' = e_cur_workers e"
proof -
  let ?w = "with_conns (e_conns e) (e_conn_ticks e) (e_cur_conns e) (e_cur_producers e) (e_cur_workers e)"
  have "?w e = e" by (simp add: with_conns_def)
  with gc_with_conns [of tid "e_conns e" "e_conn_ticks e" "e_cur_conns e" "e_cur_producers e" "e_cur_workers e" e] assms
  have eq: "e' = ?w e'" by simp
  show "e_conns e' = e_conns e" "e_conn_ticks e' = e_conn_ticks e" "e_cur_conns e' = e_cur_conns e"
    "e_cur_producers e' = e_cur_producers e" "e_cur_workers e' = e_cur_workers e"
    by (subst eq, simp add: with_conns_def)+
qed

lemma gc_conn_mut:
  "gc_tube_if_orphan tid (conn_mut cid f e) = map_option (conn_mut cid f) (gc_tube_if_orphan tid e)"
proof (cases "gc_tube_if_orphan tid e")
  case None
  then show ?thesis by (simp add: conn_mut_with_conns gc_with_conns)
next
  case (Some e')
  with gc_conns [OF Some] show ?thesis by (simp add: conn_mut_with_conns gc_with_conns)
qed

section \<open>Good states\<close>

text \<open>Between two inputs the engine is in a good state: the invariant holds with nothing in
  flight, no unpaused tube has both ready jobs and waiting connections, and every connection
  watches at least one tube.\<close>

definition watching :: "engine \<Rightarrow> bool" where
  "watching e \<longleftrightarrow> (\<forall>cid c. e_conns e cid = Some c \<longrightarrow> ms_items (c_watch c) \<noteq> [])"

definition good :: "engine \<Rightarrow> bool" where
  "good e \<longleftrightarrow> inv {} {} {} e \<and> quiet e \<and> watching e"

text \<open>One input consumes at most one job id, one list key and one connection slot.\<close>

definition grows :: "engine \<Rightarrow> engine \<Rightarrow> bool" where
  "grows e e' \<longleftrightarrow>
     pot e' \<le> Suc (pot e) \<and> unat (e_next_job_id e') \<le> Suc (unat (e_next_job_id e)) \<and>
     card (dom (e_conns e')) \<le> Suc (card (dom (e_conns e)))"

lemma watching_frame: "watching e \<Longrightarrow> cv c_watch e' = cv c_watch e \<Longrightarrow> watching e'"
  using cv_SomeD [of c_watch e' e] unfolding watching_def by metis

text \<open>No tube of the new state has more to dispatch than it had.\<close>

definition shrunk :: "engine \<Rightarrow> engine \<Rightarrow> bool" where
  "shrunk e' e \<longleftrightarrow>
     (\<forall>x t'. tube e' x = Some t' \<longrightarrow> wants_dispatch t' \<longrightarrow>
        (\<exists>t. tube e x = Some t \<and> wants_dispatch t \<and> t_pause t' = t_pause t))"

lemma shrunk_quiet: "shrunk e' e \<Longrightarrow> quiet e \<Longrightarrow> quiet e'"
  unfolding shrunk_def quiet_def by metis

lemma shrunk_trans: "shrunk e'' e' \<Longrightarrow> shrunk e' e \<Longrightarrow> shrunk e'' e"
  unfolding shrunk_def by metis

lemma shrunk_views:
  assumes t: "tv t_ready e' = tv t_ready e" "tv t_waiting_conns e' = tv t_waiting_conns e" "tv t_pause e' = tv t_pause e"
  shows "shrunk e' e"
  unfolding shrunk_def
proof (intro allI impI)
  fix x t' assume t': "tube e' x = Some t'" and w: "wants_dispatch t'"
  from tv2_SomeD [OF t(1,2) t'] tv_SomeD [OF t(3) t'] obtain t where
    "tube e x = Some t" "t_ready t = t_ready t'" "t_waiting_conns t = t_waiting_conns t'" "t_pause t = t_pause t'"
    by auto
  with w show "\<exists>t. tube e x = Some t \<and> wants_dispatch t \<and> t_pause t' = t_pause t"
    by (auto simp: wants_dispatch_def)
qed

lemma culled_tube:
  assumes "culled e' e" "tube e' x = Some t'"
  obtains t p where "tube e x = Some t" "t' = t\<lparr>t_pos := p\<rparr>"
  using assms unfolding culled_def by blast

lemma shrunk_culled:
  assumes "culled e' e"
  shows "shrunk e' e"
  unfolding shrunk_def
proof (intro allI impI)
  fix x t' assume t': "tube e' x = Some t'" and w: "wants_dispatch t'"
  from culled_tube [OF assms t'] obtain t p where "tube e x = Some t" "t' = t\<lparr>t_pos := p\<rparr>" .
  with w show "\<exists>t. tube e x = Some t \<and> wants_dispatch t \<and> t_pause t' = t_pause t"
    by (auto simp: wants_dispatch_def)
qed

lemma shrunk_made: "made name tid e e' \<Longrightarrow> shrunk e' e"
  by (auto simp: made_def shrunk_def tube_state_new_def wants_dispatch_def split: if_splits)

lemma shrunk_still: "ref_still e' e \<Longrightarrow> shrunk e' e"
  by (rule shrunk_views) (simp_all add: ref_still_def)

lemma inv_fewer:
  assumes inv: "inv L W G e" and "\<And>x. x \<in> G \<Longrightarrow> x \<notin> G' \<Longrightarrow> x = DEFAULT_TUBE \<or> \<not> unref e x"
  shows "inv L W G' e"
  by (rule slab_change_inv [OF inv, of e])
    (use inv assms(2) in \<open>auto simp: inv_def slab_only_def\<close>)

lemma reply_eq: "reply cid r (e, out) = (e, if wants_reply e cid then out @ [(cid, r)] else out)"
  by (simp add: reply_def)

lemma reply_with_eq: "reply_with cid b (e, out) = (e, if wants_reply e cid then out @ [(cid, b e)] else out)"
  by (simp add: reply_with_def)

lemma made_conns:
  assumes "made name tid e e'"
  shows "e_conns e' = e_conns e" "e_jobs e' = e_jobs e" "e_next_job_id e' = e_next_job_id e"
    "e_next_list_seq e' = e_next_list_seq e" "pot e' = pot e"
proof -
  have "e' = e \<or> slab_only e' e" using assms unfolding made_def by blast
  then show "e_conns e' = e_conns e" "e_jobs e' = e_jobs e" "e_next_job_id e' = e_next_job_id e"
    "e_next_list_seq e' = e_next_list_seq e" unfolding slab_only_def by metis+
  then show "pot e' = pot e" by (simp add: pot_def conn_sets_same(3) [of e' e])
qed

lemma made_tube:
  assumes slab: "slab_ok e" and m: "made name tid e e'"
  obtains t where "tube e' tid = Some t"
  using assms slab_idD [OF slab, of name tid] by (auto simp: made_def)

lemma culled_conns:
  assumes "culled e' e"
  shows "e_conns e' = e_conns e" "e_jobs e' = e_jobs e" "e_next_job_id e' = e_next_job_id e"
    "e_next_list_seq e' = e_next_list_seq e" "pot e' = pot e"
proof -
  from assms show "e_conns e' = e_conns e" "e_jobs e' = e_jobs e" "e_next_job_id e' = e_next_job_id e"
    "e_next_list_seq e' = e_next_list_seq e" by (simp_all add: culled_def slab_only_def)
  then show "pot e' = pot e" by (simp add: pot_def conn_sets_same(3) [of e' e])
qed

section \<open>Use, watch and ignore\<close>

text \<open>Closing a step: what has to be shown of the final state.\<close>

lemma good_grows:
  assumes "good e" "inv {} {} {} e'" "shrunk e' e" "watching e'" "pot e' \<le> Suc (pot e)"
    "unat (e_next_job_id e') \<le> Suc (unat (e_next_job_id e))" "dom (e_conns e') = dom (e_conns e)"
  shows "good e' \<and> grows e e'"
  using assms shrunk_quiet [of e' e] by (simp add: good_def grows_def)

lemma good_unread [simp]:
  "good (e_ops_update f1 e) = good e" "good (e_journal_update f2 e) = good e"
  "good (e_total_jobs_ct_update f3 e) = good e" "good (e_timeout_ct_update f4 e) = good e"
  "good (e_draining_update f5 e) = good e" "good (e_tot_conns_update f6 e) = good e"
  by (simp_all add: good_def quiet_def watching_def)

lemma grows_unread [simp]:
  "grows (e_ops_update f1 e) e' = grows e e'" "grows e (e_ops_update f2 e') = grows e e'"
  "grows e (e_total_jobs_ct_update f3 e') = grows e e'" "grows e (e_draining_update f4 e') = grows e e'"
  "grows e (e_timeout_ct_update f5 e') = grows e e'"
  by (simp_all add: grows_def pot_def waiting_conns_def)

lemma grows_refl [simp]: "grows e e"
  by (simp add: grows_def)

lemma pot_conns:
  assumes "cv c_waiting e' = cv c_waiting e" "e_next_list_seq e' = e_next_list_seq e"
  shows "pot e' = pot e"
  using waiting_conns_cong [OF assms(1)] assms(2) by (simp add: pot_def)

lemma dom_cv: "cv pr e' = cv pr e \<Longrightarrow> dom (e_conns e') = dom (e_conns e)"
  by (rule cv_dom)

lemma use_tubes_inv:
  assumes g: "good e" and c: "e_conns e cid = Some c" and small: "unat (e_next_job_id e) < 2 ^ 63"
    and m: "made name new e e1" and ne: "c_use_tube c \<noteq> new"
  shows "returns (gc_tube_if_orphan (c_use_tube c)
      (tube_mut (c_use_tube c) (\<lambda>t. t\<lparr>t_using_ct := sat_sub (t_using_ct t) 1\<rparr>) e1))
    (\<lambda>e2. let e3 = conn_mut cid (\<lambda>c. c\<lparr>c_use_tube := new\<rparr>)
        (tube_mut new (\<lambda>t. t\<lparr>t_using_ct := t_using_ct t + 1\<rparr>) e2) in good e3 \<and> grows e e3)"
proof -
  let ?old = "c_use_tube c"
  let ?f = "\<lambda>c :: conn_state. c\<lparr>c_use_tube := new\<rparr>" and ?g = "\<lambda>t :: tube_state. t\<lparr>t_using_ct := t_using_ct t + 1\<rparr>"
  have inv: "inv {} {} {} e" and q: "quiet e" and w: "watching e" using g by (simp_all add: good_def)
  have inv1: "inv {} {} {new} e1" using made_inv [OF inv m] by simp
  note mc = made_conns [OF m]
  have c1: "e_conns e1 cid = Some c" by (simp add: mc c)
  obtain u where u: "tube e1 new = Some u" using made_tube [OF _ m] inv by (auto simp: inv_def)
  from inv_conn(1) [OF inv1 c1] obtain t where t: "tube e1 ?old = Some t" by auto
  let ?e0 = "tube_mut ?old (\<lambda>t. t\<lparr>t_using_ct := sat_sub (t_using_ct t) 1\<rparr>) e1"
  let ?e2 = "conn_mut cid ?f (tube_mut new ?g ?e0)"
  have inv2: "inv {} {} {?old} ?e2"
    using use_inv [OF inv1 c1 refl t u ne] by simp
  have sh2: "shrunk ?e2 e1"
    by (rule shrunk_views) (use ne in \<open>simp_all add: view_simps t u\<close>)
  have cw: "cv c_watch ?e2 = cv c_watch e" "cv c_waiting ?e2 = cv c_waiting e"
    using c by (simp_all add: view_simps mc)
  have comm: "gc_tube_if_orphan ?old ?e2 =
      map_option (\<lambda>e. conn_mut cid ?f (tube_mut new ?g e)) (gc_tube_if_orphan ?old ?e0)"
    by (simp add: gc_conn_mut gc_tube_mut ne [symmetric] option.map_comp comp_def)
  have "unat (e_next_job_id ?e2) < 2 ^ 63" using small by (simp add: mc conn_mut_with_conns with_conns_def)
  from gc_tube_if_orphan_inv [OF inv2 this, of ?old] obtain e2 where
    e2: "gc_tube_if_orphan ?old ?e0 = Some e2" and i3: "inv {} {} {} (conn_mut cid ?f (tube_mut new ?g e2))"
    and cu: "culled (conn_mut cid ?f (tube_mut new ?g e2)) ?e2"
    unfolding comm returns_def by auto
  let ?e3 = "conn_mut cid ?f (tube_mut new ?g e2)"
  note cc = culled_conns [OF cu]
  have "good ?e3 \<and> grows e ?e3"
  proof (rule good_grows [OF g i3])
    show "shrunk ?e3 e"
      using shrunk_trans [OF shrunk_culled [OF cu] shrunk_trans [OF sh2 shrunk_made [OF m]]] .
    have cv3: "cv c_watch ?e3 = cv c_watch ?e2" "cv c_waiting ?e3 = cv c_waiting ?e2"
      by (rule cv_same [OF cc(1)])+
    show "watching ?e3" by (rule watching_frame [OF w]) (simp only: cv3 cw)
    show "dom (e_conns ?e3) = dom (e_conns e)" by (rule dom_cv [of c_watch]) (simp only: cv3 cw)
    have "e_next_list_seq ?e2 = e_next_list_seq e" "e_next_job_id ?e2 = e_next_job_id e"
      by (simp_all add: mc conn_mut_with_conns with_conns_def)
    with pot_conns [OF cw(2)] show "pot ?e3 \<le> Suc (pot e)"
      "unat (e_next_job_id ?e3) \<le> Suc (unat (e_next_job_id e))" unfolding cc by simp_all
  qed
  with e2 show ?thesis by simp
qed

lemma cmd_use_good:
  assumes g: "good e" and c: "e_conns e cid = Some c" and small: "unat (e_next_job_id e) < 2 ^ 63"
  shows "returns (cmd_use cid name (e, out)) (\<lambda>(e', out'). good e' \<and> grows e e')"
proof -
  define e0 where "e0 = count_op (\<lambda>c. c\<lparr>o_use := o_use c + 1\<rparr>) e"
  have g0: "good e0" "e_conns e0 cid = Some c" "unat (e_next_job_id e0) < 2 ^ 63" and gr: "\<And>e'. grows e0 e' = grows e e'"
    using g c small by (simp_all add: e0_def)
  from g0(1) have "slab_ok e0" "inv {} {} {} e0" by (simp_all add: good_def inv_def)
  from find_or_make_tube_made [OF this(1), of name] obtain new e1 where
    f: "find_or_make_tube name e0 = Some (new, e1)" and m: "made name new e0 e1" by (auto simp: returns_def)
  note mc = made_conns [OF m]
  have old: "use_tube_of cid e1 = c_use_tube c" by (simp add: use_tube_of_def mc g0)
  show ?thesis
  proof (cases "c_use_tube c = new")
    case True
    have "\<not> unref e1 new" using True g0(2) by (auto simp: unref_def users_def mc)
    then have "inv {} {} {} e1"
      by (intro inv_fewer [OF made_inv [OF \<open>inv {} {} {} e0\<close> m]]) auto
    moreover have "watching e1" using g0(1) by (simp add: good_def watching_def mc)
    ultimately have "good e1 \<and> grows e0 e1"
      by (intro good_grows [OF g0(1)] shrunk_made [OF m]) (simp_all add: mc)
    with True show ?thesis by (simp add: cmd_use_def e0_def [symmetric] f old reply_eq gr)
  next
    case False
    from use_tubes_inv [OF g0 m False] obtain e2 where
      "gc_tube_if_orphan (c_use_tube c) (tube_mut (c_use_tube c) (\<lambda>t. t\<lparr>t_using_ct := sat_sub (t_using_ct t) 1\<rparr>) e1) = Some e2"
      "good (conn_mut cid (\<lambda>c. c\<lparr>c_use_tube := new\<rparr>) (tube_mut new (\<lambda>t. t\<lparr>t_using_ct := t_using_ct t + 1\<rparr>) e2))"
      "grows e0 (conn_mut cid (\<lambda>c. c\<lparr>c_use_tube := new\<rparr>) (tube_mut new (\<lambda>t. t\<lparr>t_using_ct := t_using_ct t + 1\<rparr>) e2))"
      by (auto simp: returns_def Let_def)
    with False show ?thesis by (simp add: cmd_use_def e0_def [symmetric] f old reply_eq gr)
  qed
qed

lemma cmd_watch_good:
  assumes g: "good e" and c: "e_conns e cid = Some c" "\<not> c_waiting c"
  shows "returns (cmd_watch cid name (e, out)) (\<lambda>(e', out'). good e' \<and> grows e e')"
proof -
  define e0 where "e0 = count_op (\<lambda>c. c\<lparr>o_watch := o_watch c + 1\<rparr>) e"
  have g0: "good e0" "e_conns e0 cid = Some c" and gr: "\<And>e'. grows e0 e' = grows e e'"
    using g c by (simp_all add: e0_def)
  from g0(1) have slab: "slab_ok e0" and inv: "inv {} {} {} e0" and w: "watching e0" by (simp_all add: good_def inv_def)
  from find_or_make_tube_made [OF slab, of name] obtain tid e1 where
    f: "find_or_make_tube name e0 = Some (tid, e1)" and m: "made name tid e0 e1" by (auto simp: returns_def)
  note mc = made_conns [OF m]
  have c1: "e_conns e1 cid = Some c" by (simp add: mc g0)
  note inv1 = made_inv [OF inv m]
  show ?thesis
  proof (cases "tid \<in> set (ms_items (c_watch c))")
    case True
    then have "\<not> unref e1 tid" using c1 by (auto simp: unref_def watchers_def)
    then have "inv {} {} {} e1" by (intro inv_fewer [OF inv1]) auto
    moreover have "watching e1" using w by (simp add: watching_def mc)
    ultimately have "good e1 \<and> grows e0 e1"
      by (intro good_grows [OF g0(1)] shrunk_made [OF m]) (simp_all add: mc)
    with True show ?thesis by (simp add: cmd_watch_def e0_def [symmetric] f c1 reply_eq gr)
  next
    case False
    obtain t where t: "tube e1 tid = Some t" using made_tube [OF slab m] .
    let ?e2 = "tube_mut tid (\<lambda>t. t\<lparr>t_watching_ct := t_watching_ct t + 1\<rparr>)
      (conn_mut cid (\<lambda>c. c\<lparr>c_watch := ms_append tid (c_watch c)\<rparr>) e1)"
    have "good ?e2 \<and> grows e0 ?e2"
    proof (rule good_grows [OF g0(1)])
      show "inv {} {} {} ?e2" using watch_inv [OF inv1 c1 c(2) t False] by simp
      have "shrunk ?e2 e1" by (rule shrunk_views) (simp_all add: view_simps t)
      then show "shrunk ?e2 e0" by (rule shrunk_trans [OF _ shrunk_made [OF m]])
      show "watching ?e2" using w c1 by (simp add: watching_def mc)
      have "cv c_waiting ?e2 = cv c_waiting e0" using c1 by (simp add: view_simps mc)
      from pot_conns [OF this] dom_cv [OF this] show "pot ?e2 \<le> Suc (pot e0)" "dom (e_conns ?e2) = dom (e_conns e0)"
        by (simp_all add: mc)
    qed (simp add: mc)
    with False show ?thesis by (simp add: cmd_watch_def e0_def [symmetric] f c1 reply_eq gr Let_def)
  qed
qed

lemma cmd_ignore_good:
  assumes g: "good e" and c: "e_conns e cid = Some c" "\<not> c_waiting c" and small: "unat (e_next_job_id e) < 2 ^ 63"
  shows "returns (cmd_ignore cid name (e, out)) (\<lambda>(e', out'). good e' \<and> grows e e')"
proof -
  define e0 where "e0 = count_op (\<lambda>c. c\<lparr>o_ignore := o_ignore c + 1\<rparr>) e"
  have g0: "good e0" "e_conns e0 cid = Some c" "unat (e_next_job_id e0) < 2 ^ 63" and gr: "\<And>e'. grows e0 e' = grows e e'"
    using g c small by (simp_all add: e0_def)
  from g0(1) have inv: "inv {} {} {} e0" and w: "watching e0" by (simp_all add: good_def)
  show ?thesis
  proof (cases "\<exists>tid. e_tube_ids e0 name = Some tid \<and> tid \<in> set (ms_items (c_watch c)) \<and> \<not> ms_len (c_watch c) < 2")
    case False
    then consider "e_tube_ids e name = None" | tid where "e_tube_ids e name = Some tid" "tid \<notin> set (ms_items (c_watch c))"
      | tid where "e_tube_ids e name = Some tid" "tid \<in> set (ms_items (c_watch c))" "ms_len (c_watch c) < 2"
      by (cases "e_tube_ids e name") (auto simp: e0_def)
    then show ?thesis
      by cases (use g c in \<open>simp_all add: cmd_ignore_def watch_count_def reply_eq Let_def\<close>)
  next
    case True
    then obtain tid where tid: "e_tube_ids e0 name = Some tid" "tid \<in> set (ms_items (c_watch c))"
      "\<not> ms_len (c_watch c) < 2" by blast
    let ?w = "snd (ms_remove tid (c_watch c))"
    note dist = inv_conn(2) [OF inv g0(2)]
    note rm = ms_remove_distinct [OF dist]
    from inv_conn(3) [OF inv g0(2)] tid(2) obtain t where t: "tube e0 tid = Some t" by auto
    let ?e2 = "tube_mut tid (\<lambda>t. t\<lparr>t_watching_ct := sat_sub (t_watching_ct t) 1\<rparr>)
      (conn_mut cid (\<lambda>c. c\<lparr>c_watch := snd (ms_remove tid (c_watch c))\<rparr>) e0)"
    have conv: "conn_mut cid (\<lambda>c. c\<lparr>c_watch := snd (ms_remove tid (c_watch c))\<rparr>) e0 =
        conn_mut cid (\<lambda>c. c\<lparr>c_watch := ?w\<rparr>) e0" by (simp add: conn_mut_def g0)
    have inv2: "inv {} {} {tid} ?e2"
      unfolding conv using unwatch_inv [OF inv g0(2) c(2) t tid(2), of ?w] rm by simp
    have "unat (e_next_job_id ?e2) < 2 ^ 63" using g0(3) by simp
    from gc_tube_if_orphan_inv [OF inv2 this, of tid] obtain e3 where
      gc: "gc_tube_if_orphan tid ?e2 = Some e3" and i3: "inv {} {} {} e3" and cu: "culled e3 ?e2"
      unfolding returns_def by auto
    note cc = culled_conns [OF cu]
    have "good e3 \<and> grows e0 e3"
    proof (rule good_grows [OF g0(1) i3])
      have "shrunk ?e2 e0" by (rule shrunk_views) (simp_all add: view_simps t)
      then show "shrunk e3 e0" by (rule shrunk_trans [OF shrunk_culled [OF cu]])
      have "ms_items ?w \<noteq> []"
      proof
        assume "ms_items ?w = []"
        with rm(2) [of tid] have "set (ms_items (c_watch c)) \<subseteq> {tid}" by auto
        then have "card (set (ms_items (c_watch c))) \<le> card {tid}" by (rule card_mono [rotated]) simp
        with distinct_card [OF dist] tid(3) show False by (simp add: ms_len_def)
      qed
      then show "watching e3" using w by (simp add: watching_def cc g0)
      have "cv c_waiting e3 = cv c_waiting e0" using g0 by (simp add: view_simps cc)
      from pot_conns [OF this] dom_cv [OF this] show "pot e3 \<le> Suc (pot e0)" "dom (e_conns e3) = dom (e_conns e0)"
        by (simp_all add: cc)
    qed (simp add: cc)
    then have fin: "good e3 \<and> grows e e3" using gr by simp
    from tid gc have "e_tube_ids e name = Some tid"
      "gc_tube_if_orphan tid (tube_mut tid (\<lambda>t. t\<lparr>t_watching_ct := sat_sub (t_watching_ct t) 1\<rparr>)
        (conn_mut cid (\<lambda>c. c\<lparr>c_watch := snd (ms_remove tid (c_watch c))\<rparr>)
          (count_op (\<lambda>c. c\<lparr>o_ignore := o_ignore c + 1\<rparr>) e))) = Some e3"
      by (simp_all add: e0_def)
    with tid(2,3) c(1) fin show ?thesis
      by (simp add: cmd_ignore_def watch_count_def reply_eq Let_def)
  qed
qed

end
