(* ===== verification/Engine_Sessions.thy ===== *)
theory Engine_Sessions
  imports Engine_Conns
begin

text \<open>
  Connections come and go: \<open>connect\<close>, \<open>half_close\<close>, \<open>put_started\<close>, \<open>put_rejected\<close> and
  \<open>disconnect\<close> return and take a good state to a good state.
\<close>

section \<open>Flags and pending puts\<close>

text \<open>Nothing but the role flags and the pending puts of connections and the next job id differs.\<close>

definition meta_still :: "engine \<Rightarrow> engine \<Rightarrow> bool" where
  "meta_still e' e \<longleftrightarrow>
     e_tubes e' = e_tubes e \<and>
     cv c_use_tube e' = cv c_use_tube e \<and> cv c_watch e' = cv c_watch e \<and>
     cv c_waiting e' = cv c_waiting e \<and> cv c_wait_deadline e' = cv c_wait_deadline e \<and>
     cv c_reserved e' = cv c_reserved e \<and>
     cv c_reserved_by_deadline e' = cv c_reserved_by_deadline e \<and> cv c_tick_key e' = cv c_tick_key e \<and>
     cv conn_tickat e' = cv conn_tickat e \<and>
     e_jobs e' = e_jobs e \<and>
     e_next_list_seq e' = e_next_list_seq e \<and> e_tube_ids e' = e_tube_ids e \<and>
     e_tube_order e' = e_tube_order e \<and> e_free_tube_ids e' = e_free_tube_ids e \<and>
     e_ready_ct e' = e_ready_ct e \<and>
     e_urgent_ct e' = e_urgent_ct e \<and> e_delayed_ct e' = e_delayed_ct e \<and>
     e_buried_ct e' = e_buried_ct e \<and> e_reserved_ct e' = e_reserved_ct e \<and>
     e_waiting_ct e' = e_waiting_ct e \<and>
     e_dispatchable e' = e_dispatchable e \<and> e_delay_heads e' = e_delay_heads e \<and>
     e_conn_ticks e' = e_conn_ticks e \<and> e_pauses e' = e_pauses e"

lemma inv_meta:
  assumes inv: "inv L W G e" and still: "meta_still e' e"
    and pend: "pending_ok e'" and cnt: "conn_counts_ok e'" and nxt: "e_next_job_id e \<le> e_next_job_id e'"
  shows "inv L W G e'"
proof -
  note fr = still [unfolded meta_still_def]
  have tube: "tube e' = tube e" using fr by (simp add: tube_def fun_eq_iff)
  have tv: "tv pr e' = tv pr e" for pr :: "tube_state \<Rightarrow> 'b" by (rule tv_cong [OF tube])
  have st: "jobs_st L e' s = jobs_st L e s" for s using fr by (intro jobs_st_cong) simp
  have jv: "jv pr e' = jv pr e" for pr :: "job_rec \<Rightarrow> 'c" using fr by (simp add: jv_def fun_eq_iff)
  have "slab_ok e'" by (rule slab_frame [of e]) (use inv fr in \<open>simp_all add: inv_def tv\<close>)
  moreover have "refs_ok G e'" by (rule refs_frame [of G e]) (use inv fr in \<open>simp_all add: inv_def tv jv\<close>)
  moreover have "wait_ok W e'" by (rule wait_frame [of W e]) (use inv fr in \<open>simp_all add: inv_def tv\<close>)
  moreover have "jobs_ok L e'"
  proof -
    have cn: "e_conns e' x = None \<longleftrightarrow> e_conns e x = None" for x using fr by (intro cv_None [of c_waiting]) simp
    have "jobs_ok L e" "e_jobs e' = e_jobs e" using inv fr by (simp_all add: inv_def)
    then show ?thesis using nxt unfolding jobs_ok_def tube cn by (auto intro: order_trans less_le_trans)
  qed
  moreover have "seq_ok L e'" by (rule seq_frame [of L e]) (use inv fr in \<open>simp_all add: inv_def st\<close>)
  moreover have "ready_ok L e'" by (rule ready_frame [of L e]) (use inv fr in \<open>simp_all add: inv_def st tv\<close>)
  moreover have "delayed_ok L e'" by (rule delayed_frame [of L e]) (use inv fr in \<open>simp_all add: inv_def st tv\<close>)
  moreover have "buried_ok L e'" by (rule buried_frame [of L e]) (use inv fr in \<open>simp_all add: inv_def st tv\<close>)
  moreover have "reserved_ok L e'" by (rule reserved_frame [of L e]) (use inv fr in \<open>simp_all add: inv_def st tv\<close>)
  moreover have "index_ok e'"
    unfolding index_ok_pre
    by (rule pre_index_frame [of "{}" "{}" "{}" e]) (use inv fr in \<open>simp_all add: inv_def index_ok_pre tv\<close>)
  ultimately show ?thesis using pend cnt by (simp add: inv_def)
qed

lemma shrunk_tubes: "e_tubes e' = e_tubes e \<Longrightarrow> shrunk e' e"
  by (simp add: shrunk_def tube_def)

lemma good_meta:
  assumes g: "good e" and still: "meta_still e' e"
    and "pending_ok e'" "conn_counts_ok e'" "e_next_job_id e \<le> e_next_job_id e'"
    and "unat (e_next_job_id e') \<le> Suc (unat (e_next_job_id e))"
  shows "good e' \<and> grows e e'"
proof (rule good_grows [OF g])
  note fr = still [unfolded meta_still_def]
  show "inv {} {} {} e'" by (rule inv_meta [OF _ still]) (use g assms in \<open>simp_all add: good_def\<close>)
  show "shrunk e' e" using fr by (simp add: shrunk_tubes)
  show "watching e'" by (rule watching_frame [of e]) (use g fr in \<open>simp_all add: good_def\<close>)
  have cw: "cv c_waiting e' = cv c_waiting e" using fr by simp
  from pot_conns [OF this] dom_cv [OF this] fr show "pot e' \<le> Suc (pot e)" "dom (e_conns e') = dom (e_conns e)"
    by simp_all
qed fact

lemma meta_still_refl [simp]: "meta_still e e"
  by (simp add: meta_still_def)

lemma meta_still_trans: "meta_still e3 e2 \<Longrightarrow> meta_still e2 e1 \<Longrightarrow> meta_still e3 e1"
  by (simp add: meta_still_def)

lemma meta_still_steps:
  "meta_still (e_ops_update f1 e) e" "meta_still (e_next_job_id_update f2 e) e"
  "meta_still (connsetproducer cid e) e" "meta_still (connsetworker cid e) e"
  "meta_still (conn_mut cid (\<lambda>c. c\<lparr>c_pending_put := p\<rparr>) e) e"
proof -
  show "meta_still (e_ops_update f1 e) e" "meta_still (e_next_job_id_update f2 e) e"
    by (simp_all add: meta_still_def view_simps)
  show "meta_still (connsetproducer cid e) e"
    by (cases "e_conns e cid") (simp_all add: connsetproducer_def meta_still_def view_simps)
  show "meta_still (connsetworker cid e) e"
    by (cases "e_conns e cid") (simp_all add: connsetworker_def meta_still_def view_simps)
  show "meta_still (conn_mut cid (\<lambda>c. c\<lparr>c_pending_put := p\<rparr>) e) e"
    by (cases "e_conns e cid") (simp_all add: meta_still_def view_simps)
qed

text \<open>What each of these steps does to the pending ids and the role counters.\<close>

lemma pending_id_steps [simp]:
  "pending_id (e_ops_update f1 e) = pending_id e" "pending_id (e_next_job_id_update f2 e) = pending_id e"
  "pending_id (connsetproducer cid e) = pending_id e" "pending_id (connsetworker cid e) = pending_id e"
  "pending_id (conn_mut cid (\<lambda>c. c\<lparr>c_pending_put := p\<rparr>) e) =
     (pending_id e)(cid := (if e_conns e cid = None then None else p \<bind> pp_id))"
proof -
  show "pending_id (e_ops_update f1 e) = pending_id e" "pending_id (e_next_job_id_update f2 e) = pending_id e"
    by (simp_all add: pending_id_def fun_eq_iff)
  show "pending_id (connsetproducer cid e) = pending_id e"
    by (cases "e_conns e cid") (simp_all add: connsetproducer_def pending_id_def fun_eq_iff)
  show "pending_id (connsetworker cid e) = pending_id e"
    by (cases "e_conns e cid") (simp_all add: connsetworker_def pending_id_def fun_eq_iff)
  show "pending_id (conn_mut cid (\<lambda>c. c\<lparr>c_pending_put := p\<rparr>) e) =
     (pending_id e)(cid := (if e_conns e cid = None then None else p \<bind> pp_id))"
    by (cases "e_conns e cid") (simp_all add: pending_id_def fun_eq_iff)
qed

lemma conn_flag_count:
  assumes c: "e_conns e cid = Some c" and e': "e_conns e' = (e_conns e)(cid \<mapsto> c')" and P: "\<not> P c" "P c'"
  shows "of_nat (card {x. \<exists>c. e_conns e' x = Some c \<and> P c}) =
    (of_nat (card {x. \<exists>c. e_conns e x = Some c \<and> P c}) + 1 :: u32)"
proof -
  have "{x. \<exists>c. e_conns e' x = Some c \<and> P c} = insert cid {x. \<exists>c. e_conns e x = Some c \<and> P c}"
    using P by (auto simp: e')
  then show ?thesis using c P by (simp add: card_plus_1)
qed

lemma conn_flag_same:
  assumes c: "e_conns e cid = Some c" and e': "e_conns e' = (e_conns e)(cid \<mapsto> c')" and P: "P c' \<longleftrightarrow> P c"
  shows "{x. \<exists>c. e_conns e' x = Some c \<and> P c} = {x. \<exists>c. e_conns e x = Some c \<and> P c}"
  using c P by (auto simp: e')

lemma conn_counts_steps:
  assumes ok: "conn_counts_ok e"
  shows "conn_counts_ok (e_ops_update f1 e)" "conn_counts_ok (e_next_job_id_update f2 e)"
    "conn_counts_ok (connsetproducer cid e)" "conn_counts_ok (connsetworker cid e)"
    "conn_counts_ok (conn_mut cid (\<lambda>c. c\<lparr>c_pending_put := p\<rparr>) e)"
proof -
  show "conn_counts_ok (e_ops_update f1 e)" "conn_counts_ok (e_next_job_id_update f2 e)"
    using ok by (simp_all add: conn_counts_ok_def)
  have upd: "insert cid (dom (e_conns e)) = dom (e_conns e)" if "e_conns e cid = Some c" for c
    using that by (simp add: insert_absorb domI)
  show "conn_counts_ok (connsetproducer cid e)"
  proof (cases "\<exists>c. e_conns e cid = Some c \<and> \<not> c_is_producer c")
    case True
    then obtain c where c: "e_conns e cid = Some c" "\<not> c_is_producer c" by blast
    let ?e = "connsetproducer cid e"
    have e': "e_conns ?e = (e_conns e)(cid \<mapsto> c\<lparr>c_is_producer := True\<rparr>)"
      and ct: "e_cur_producers ?e = e_cur_producers e + 1" "e_cur_workers ?e = e_cur_workers e" "e_cur_conns ?e = e_cur_conns e"
      using c by (simp_all add: connsetproducer_def)
    show ?thesis
      using ok conn_flag_count [OF c(1) e', of c_is_producer] conn_flag_same [OF c(1) e', of c_is_worker] c
      by (simp add: conn_counts_ok_def ct) (simp add: e' upd)
  next
    case False
    then have "connsetproducer cid e = e" by (cases "e_conns e cid") (simp_all add: connsetproducer_def)
    then show ?thesis using ok by simp
  qed
  show "conn_counts_ok (connsetworker cid e)"
  proof (cases "\<exists>c. e_conns e cid = Some c \<and> \<not> c_is_worker c")
    case True
    then obtain c where c: "e_conns e cid = Some c" "\<not> c_is_worker c" by blast
    let ?e = "connsetworker cid e"
    have e': "e_conns ?e = (e_conns e)(cid \<mapsto> c\<lparr>c_is_worker := True\<rparr>)"
      and ct: "e_cur_producers ?e = e_cur_producers e" "e_cur_workers ?e = e_cur_workers e + 1" "e_cur_conns ?e = e_cur_conns e"
      using c by (simp_all add: connsetworker_def)
    show ?thesis
      using ok conn_flag_count [OF c(1) e', of c_is_worker] conn_flag_same [OF c(1) e', of c_is_producer] c
      by (simp add: conn_counts_ok_def ct) (simp add: e' upd)
  next
    case False
    then have "connsetworker cid e = e" by (cases "e_conns e cid") (simp_all add: connsetworker_def)
    then show ?thesis using ok by simp
  qed
  show "conn_counts_ok (conn_mut cid (\<lambda>c. c\<lparr>c_pending_put := p\<rparr>) e)"
    by (rule conn_counts_frame [OF ok]; cases "e_conns e cid") (simp_all add: view_simps)
qed

lemma next_job_id_flags [simp]:
  "e_next_job_id (connsetproducer cid e) = e_next_job_id e" "e_next_job_id (connsetworker cid e) = e_next_job_id e"
  by (simp_all add: connsetproducer_def connsetworker_def split: option.split)

lemma conns_flags_None [simp]:
  "e_conns (connsetproducer cid e) x = None \<longleftrightarrow> e_conns e x = None"
  "e_conns (connsetworker cid e) x = None \<longleftrightarrow> e_conns e x = None"
  by (simp_all add: connsetproducer_def connsetworker_def split: option.split)

section \<open>The put protocol\<close>

lemma id_room:
  fixes w :: u64
  assumes "unat w < 2 ^ 63"
  shows "unat (w + 1) = Suc (unat w)" "w < w + 1" "w \<le> w + 1"
proof -
  have "w \<noteq> - 1" using assms by (auto simp: unsigned_minus_1_eq_mask mask_eq_exp_minus_1)
  then show "unat (w + 1) = Suc (unat w)" by (simp add: unat_inc)
  then show "w < w + 1" "w \<le> w + 1" by (simp_all add: word_less_nat_alt word_le_nat_alt)
qed

lemma pending_ok_change:
  assumes ok: "pending_ok e" and jobs: "jobs_ok L e" and "e_jobs e' = e_jobs e"
    and p: "pending_id e' = (pending_id e)(cid := p)" and nxt: "e_next_job_id e \<le> e_next_job_id e'"
    and new: "p = None \<or> p = Some (e_next_job_id e) \<and> e_next_job_id e < e_next_job_id e'"
  shows "pending_ok e'"
proof -
  have old: "i < e_next_job_id e \<and> e_jobs e i = None" if "pending_id e k = Some i" for k i
    using ok that by (simp add: pending_ok_def)
  have fresh: "e_jobs e (e_next_job_id e) = None"
    using jobs by (auto simp: jobs_ok_def intro: option.exhaust [of "e_jobs e (e_next_job_id e)"])
  have "i < e_next_job_id e' \<and> e_jobs e i = None" if "pending_id e' k = Some i" for k i
    using that new old [of k i] fresh nxt by (auto simp: p split: if_splits)
  moreover have "k = k'" if "pending_id e' k = Some i" "pending_id e' k' = Some i" for k k' i
    using that new old [of k i] old [of k' i] ok by (auto simp: p pending_ok_def split: if_splits)
  ultimately show ?thesis using assms(3) by (auto simp: pending_ok_def)
qed

lemma put_started_good:
  assumes g: "good e" and small: "unat (e_next_job_id e) < 2 ^ 63"
  shows "good (put_started now cid too_big e) \<and> grows e (put_started now cid too_big e)"
proof (cases "e_conns e cid")
  case None
  with g show ?thesis by (simp add: put_started_def)
next
  case (Some c)
  define e1 where "e1 = count_op (\<lambda>c. c\<lparr>o_put := o_put c + 1\<rparr>) e"
  define e2 where "e2 = (if too_big then e1
    else (connsetproducer cid e1)\<lparr>e_next_job_id := e_next_job_id (connsetproducer cid e1) + 1\<rparr>)"
  let ?p = "Some \<lparr>pp_id = (if too_big then None else Some (e_next_job_id e)), pp_created_at = now\<rparr>"
  let ?e = "conn_mut cid (\<lambda>c. c\<lparr>c_pending_put := ?p\<rparr>) e2"
  have e: "put_started now cid too_big e = ?e"
    using Some by (simp add: put_started_def e1_def e2_def Let_def)
  have inv: "inv {} {} {} e" using g by (simp add: good_def)
  note room = id_room [OF small]
  have m1: "meta_still e1 e" "conn_counts_ok e1"
    using inv by (simp_all add: e1_def meta_still_steps conn_counts_steps inv_def)
  have m2: "meta_still e2 e" "conn_counts_ok e2"
    using m1 meta_still_trans [OF _ m1(1)] meta_still_trans [OF meta_still_steps(2)] meta_still_steps(3)
    by (auto simp: e2_def intro!: conn_counts_steps)
  have "e_jobs e2 = e_jobs e" "cv c_waiting e2 = cv c_waiting e" using m2(1) by (simp_all add: meta_still_def)
  with cv_None [of c_waiting e2 e cid] Some have j2: "e_jobs e2 = e_jobs e" "e_conns e2 cid \<noteq> None" by simp_all
  have n2: "e_next_job_id e2 = e_next_job_id e + (if too_big then 0 else 1)" "pending_id e2 = pending_id e"
    by (simp_all add: e2_def e1_def)
  show ?thesis
    unfolding e
  proof (rule good_meta [OF g])
    show "meta_still ?e e" by (rule meta_still_trans [OF meta_still_steps(5) m2(1)])
    show "conn_counts_ok ?e" by (rule conn_counts_steps [OF m2(2)])
    show le: "e_next_job_id e \<le> e_next_job_id ?e" using room(3) by (simp add: n2)
    show "unat (e_next_job_id ?e) \<le> Suc (unat (e_next_job_id e))" using room(1) by (simp add: n2)
    show "pending_ok ?e"
      by (rule pending_ok_change [of e "{}"])
        (use inv le room n2 j2 in \<open>auto simp: inv_def\<close>)
  qed
qed

lemma put_rejected_good:
  assumes g: "good e" and small: "unat (e_next_job_id e) < 2 ^ 63"
    and r: "put_rejected now cid why (e, out) = (e', out')"
  shows "good e' \<and> grows e e'"
proof (cases "e_conns e cid")
  case None
  with g r show ?thesis by (simp add: put_rejected_def)
next
  case (Some c)
  define e1 where "e1 = conn_mut cid (\<lambda>c. c\<lparr>c_pending_put := None\<rparr>) e"
  define e2 where "e2 = count_op (\<lambda>c. c\<lparr>o_put := o_put c + 1\<rparr>) e1"
  define e3 where "e3 = (connsetproducer cid e2)\<lparr>e_next_job_id := e_next_job_id (connsetproducer cid e2) + 1\<rparr>"
  have inv: "inv {} {} {} e" using g by (simp add: good_def)
  note room = id_room [OF small]
  have m1: "meta_still e1 e" "conn_counts_ok e1"
    using inv by (simp_all add: e1_def meta_still_steps conn_counts_steps inv_def)
  have m2: "meta_still e2 e" "conn_counts_ok e2"
    using m1 meta_still_trans [OF meta_still_steps(1) m1(1)] by (simp_all add: e2_def conn_counts_steps)
  have m3: "meta_still e3 e" "conn_counts_ok e3"
    using meta_still_trans [OF meta_still_steps(2) meta_still_trans [OF meta_still_steps(3) m2(1)]] m2(2)
    by (auto simp: e3_def intro!: conn_counts_steps)
  have e': "e' = e1 \<or> e' = e2 \<or> e' = e3"
    using r Some by (auto simp: put_rejected_def reply_def e1_def e2_def e3_def Let_def split: if_splits)
  have j: "e_jobs e1 = e_jobs e" "e_jobs e2 = e_jobs e" "e_jobs e3 = e_jobs e"
    using m1(1) m2(1) m3(1) by (simp_all add: meta_still_def)
  have p: "pending_id e1 = (pending_id e)(cid := None)" "pending_id e2 = (pending_id e)(cid := None)"
    "pending_id e3 = (pending_id e)(cid := None)"
    and n: "e_next_job_id e1 = e_next_job_id e" "e_next_job_id e2 = e_next_job_id e"
      "e_next_job_id e3 = e_next_job_id e + 1"
    by (simp_all add: e3_def e2_def e1_def)
  have pend: "pending_ok e1" "pending_ok e2" "pending_ok e3"
    using pending_ok_change [of e "{}" e1 cid None] pending_ok_change [of e "{}" e2 cid None]
      pending_ok_change [of e "{}" e3 cid None] inv room(3) p j n by (simp_all add: inv_def)
  from good_meta [OF g m1(1) pend(1) m1(2)] good_meta [OF g m2(1) pend(2) m2(2)] good_meta [OF g m3(1) pend(3) m3(2)]
    e' n room show ?thesis by auto
qed

section \<open>Connect and half close\<close>

lemma connect_good:
  assumes g: "good e" and new: "e_conns e cid = None" and room: "card (dom (e_conns e)) < 2 ^ 32 - 1"
  shows "good (connect now cid e) \<and> grows e (connect now cid e)"
proof -
  let ?e = "connect now cid e"
  have inv: "inv {} {} {} e" and q: "quiet e" and w: "watching e" using g by (simp_all add: good_def)
  from inv slab_defaultD [of e] obtain t where t: "tube e DEFAULT_TUBE = Some t" by (auto simp: inv_def)
  have ce: "e_conns ?e = (e_conns e)(cid \<mapsto> conn_state_new DEFAULT_TUBE)" by (simp add: connect_def Let_def new)
  have te: "tube ?e = (tube e)(DEFAULT_TUBE \<mapsto> t\<lparr>t_using_ct := t_using_ct t + 1, t_watching_ct := t_watching_ct t + 1\<rparr>)"
    by (simp add: connect_def Let_def new t)
  have "shrunk ?e e" by (rule shrunk_views) (simp_all add: view_simps te t)
  then have "quiet ?e" using q by (rule shrunk_quiet)
  moreover have "watching ?e" using w by (simp add: watching_def ce conn_state_new_def ms_new_def ms_append_def)
  moreover have "waiting_conns ?e = waiting_conns e"
    using new by (auto simp: waiting_conns_def ce conn_state_new_def split: if_splits)
  then have "pot ?e = pot e" by (simp add: pot_def connect_def Let_def new)
  moreover have "e_next_job_id ?e = e_next_job_id e" by (simp add: connect_def Let_def new)
  moreover have "card (dom (e_conns ?e)) = Suc (card (dom (e_conns e)))" using new by (simp add: ce domIff)
  ultimately show ?thesis using connect_inv [OF inv new room, of now] by (simp add: good_def grows_def)
qed

lemma remove_waiting_shrunk:
  assumes c: "e_conns e cid = Some c" "c_waiting c" and inv: "inv L W G e"
  shows "shrunk (do_remove_waiting_conn cid e) e"
  unfolding shrunk_def
proof (intro allI impI)
  let ?e = "do_remove_waiting_conn cid e"
  fix x t' assume t': "tube ?e x = Some t'" and w: "wants_dispatch t'"
  have dist: "distinct (ms_items (c_watch c))" by (rule inv_conn(2) [OF inv c(1)])
  from t' obtain t where t: "tube e x = Some t" "t' = t \<or> t' = left cid t"
    by (auto simp: tube_do_remove [OF c] tube_fold_unwait [OF dist] split: if_splits)
  have "ms_items (t_waiting_conns t) \<noteq> []" if "ms_items (snd (ms_remove cid (t_waiting_conns t))) \<noteq> []"
    using that by (auto simp: ms_remove_def Let_def split: option.splits if_splits)
  then have "wants_dispatch t \<and> t_pause t' = t_pause t"
    using w t(2) by (auto simp: wants_dispatch_def left_def Let_def ms_is_empty_def)
  with t(1) show "\<exists>t. tube e x = Some t \<and> wants_dispatch t \<and> t_pause t' = t_pause t" by blast
qed

lemma remove_waiting_good:
  assumes g: "good e"
  shows "good (do_remove_waiting_conn cid e) \<and> pot (do_remove_waiting_conn cid e) \<le> pot e \<and>
    still (do_remove_waiting_conn cid e) e \<and>
    waiting_conns (do_remove_waiting_conn cid e) = waiting_conns e - {cid}"
proof (cases "\<exists>c. e_conns e cid = Some c \<and> c_waiting c")
  case False
  then have "do_remove_waiting_conn cid e = e"
    by (cases "e_conns e cid") (simp_all add: do_remove_waiting_conn_def)
  moreover have "cid \<notin> waiting_conns e" using False by (auto simp: waiting_conns_def)
  ultimately show ?thesis using g by (simp add: still_def)
next
  case True
  then obtain c where c: "e_conns e cid = Some c" "c_waiting c" by blast
  let ?e = "do_remove_waiting_conn cid e"
  have inv: "inv {} {} {} e" and q: "quiet e" and w: "watching e" using g by (simp_all add: good_def)
  have inv': "inv {} {} {} ?e" by (rule do_remove_waiting_conn_inv [OF inv c]) simp
  note st = do_remove_still [OF c]
  have "quiet ?e" by (rule shrunk_quiet [OF remove_waiting_shrunk [OF c inv] q])
  moreover have "watching ?e" by (rule watching_frame [OF w]) (use st in \<open>simp add: still_def\<close>)
  moreover have wc: "waiting_conns ?e = waiting_conns e - {cid}"
    by (auto simp: waiting_conns_def do_remove_waiting_conn_obs [OF c] split: if_splits)
  moreover have "pot ?e \<le> pot e"
    unfolding pot_def wc using st by (simp add: still_def card_Diff1_le)
  ultimately show ?thesis using inv' st by (simp add: good_def)
qed

end
