(* ===== verification/Engine_Jobs.thy ===== *)
theory Engine_Jobs
  imports Engine_Sessions
begin

text \<open>
  The job commands return and take a good state to a good state: \<open>put\<close>, \<open>reserve\<close>,
  \<open>reserve-job\<close>, \<open>delete\<close>, \<open>release\<close>, \<open>bury\<close>, \<open>touch\<close>, \<open>kick\<close>, \<open>kick-job\<close>, \<open>pause-tube\<close>; and so does
  \<open>disconnect\<close>, which gives back every reserved job.
\<close>

section \<open>What a move leaves alone\<close>

lemma unmoved_refl [simp]: "unmoved e e"
  by (simp add: unmoved_def)

lemma unmoved_trans: "unmoved e3 e2 \<Longrightarrow> unmoved e2 e1 \<Longrightarrow> unmoved e3 e1"
  by (simp add: unmoved_def)

lemma unmoved_facts:
  assumes "unmoved e' e"
  shows "waiting_conns e' = waiting_conns e" "watching e' \<longleftrightarrow> watching e" "dom (e_conns e') = dom (e_conns e)"
    "e_next_job_id e' = e_next_job_id e" "dom (e_jobs e') = dom (e_jobs e)"
    "e_next_list_seq e' = e_next_list_seq e \<Longrightarrow> pot e' = pot e"
proof -
  have c: "cv c_waiting e' = cv c_waiting e" "cv c_watch e' = cv c_watch e" "jv j_tube e' = jv j_tube e"
    using assms by (simp_all add: unmoved_def)
  show w: "waiting_conns e' = waiting_conns e" by (rule waiting_conns_cong [OF c(1)])
  show "watching e' \<longleftrightarrow> watching e" using watching_frame [OF _ c(2)] watching_frame [OF _ c(2) [symmetric]] by blast
  show "dom (e_conns e') = dom (e_conns e)" by (rule cv_dom [OF c(1)])
  show "dom (e_jobs e') = dom (e_jobs e)" by (rule jv_dom [OF c(3)])
  show "e_next_job_id e' = e_next_job_id e" using assms by (simp add: unmoved_def)
  show "pot e' = pot e" if "e_next_list_seq e' = e_next_list_seq e" using that w by (simp add: pot_def)
qed

lemma insert_ready_unmoved:
  assumes "e_jobs e jid = Some j" "tube e tid = Some t"
  shows "unmoved (insert_ready tid jid e) e"
  by (simp add: unmoved_def view_simps insert_ready_obs [OF assms] assms)

lemma remove_ready_unmoved:
  assumes "e_jobs e jid = Some j" "tube e tid = Some t"
  shows "unmoved (remove_ready tid jid e) e"
  by (simp add: unmoved_def view_simps remove_ready_obs [OF assms] assms)

lemma insert_delayed_unmoved:
  assumes "e_jobs e jid = Some j" "tube e tid = Some t" "(d, jid) \<notin> t_delayed t"
  shows "unmoved (insert_delayed tid jid d e) e"
  by (simp add: unmoved_def view_simps insert_delayed_obs [OF assms] assms)

lemma remove_delayed_unmoved:
  assumes "e_jobs e jid = Some j" "tube e tid = Some t" "(j_deadline_at j, jid) \<in> t_delayed t"
  shows "unmoved (remove_delayed tid jid e) e"
  by (simp add: unmoved_def view_simps remove_delayed_obs [OF assms] assms)

lemma insert_buried_unmoved:
  assumes "e_jobs e jid = Some j" "tube e tid = Some t"
  shows "unmoved (insert_buried tid jid e) e"
  by (simp add: unmoved_def view_simps insert_buried_obs [OF assms] assms)

lemma remove_buried_unmoved:
  assumes "e_jobs e jid = Some j" "tube e tid = Some t" "t_buried t (j_list_seq j) = Some jid"
  shows "unmoved (snd (remove_buried tid jid e)) e"
  by (simp add: unmoved_def view_simps remove_buried_obs [OF assms] assms)

lemma do_reserve_unmoved:
  assumes "e_jobs e jid = Some j" "tube e (j_tube j) = Some t" "e_conns e cid = Some c"
  shows "unmoved (do_reserve cid jid now e) e"
  by (simp add: unmoved_def view_simps do_reserve_obs [OF assms] assms)

lemma do_unreserve_unmoved:
  assumes "e_jobs e jid = Some j" "tube e (j_tube j) = Some t" "e_conns e cid = Some c"
    "c_reserved c (j_list_seq j) = Some jid"
  shows "unmoved (do_unreserve cid jid e) e"
  by (simp add: unmoved_def view_simps do_unreserve_obs [OF assms] assms)

text \<open>Changing the fields of a job in limbo that say nothing about where it belongs.\<close>

lemma limbo_mut:
  assumes inv: "inv {jid} W G e" and j: "e_jobs e jid = Some j"
    and f: "j_id (f j) = j_id j" "j_tube (f j) = j_tube j" "j_ttr (f j) = j_ttr j" "j_reserver (f j) = None"
  shows "inv {jid} W G (job_mut jid f e)" and "unmoved (job_mut jid f e) e"
proof -
  let ?e = "job_mut jid f e"
  have jobs: "e_jobs ?e = (e_jobs e)(jid \<mapsto> f j)" by (simp add: j)
  show p: "unmoved ?e e" by (simp add: unmoved_def view_simps j f)
  have same: "k \<noteq> jid \<Longrightarrow> e_jobs ?e k = e_jobs e k" for k by simp
  note st = jobs_st_limbo_same [OF same]
  show "inv {jid} W G ?e"
  proof (rule inv_move [OF inv p])
    show "jobs_ok {jid} ?e" by (rule jobs_ok_change [OF inv_jobs [OF inv] p jobs j]) (simp_all add: f)
    show "seq_ok {jid} ?e" by (rule seq_frame [of "{jid}" e]) (use inv in \<open>simp_all add: inv_def st\<close>)
    show "ready_ok {jid} ?e" by (rule ready_frame [of "{jid}" e]) (use inv in \<open>simp_all add: inv_def st view_simps\<close>)
    show "delayed_ok {jid} ?e" by (rule delayed_frame [of "{jid}" e]) (use inv in \<open>simp_all add: inv_def st view_simps\<close>)
    show "buried_ok {jid} ?e" by (rule buried_frame [of "{jid}" e]) (use inv in \<open>simp_all add: inv_def st view_simps\<close>)
    show "reserved_ok {jid} ?e" by (rule reserved_frame [of "{jid}" e]) (use inv in \<open>simp_all add: inv_def st view_simps\<close>)
    show "index_ok ?e"
      unfolding index_ok_pre
      by (rule pre_index_frame [of "{}" "{}" "{}" e]) (use inv in \<open>simp_all add: inv_def index_ok_pre view_simps\<close>)
  qed
qed

section \<open>Dispatching\<close>

lemma process_queue_good:
  assumes "inv {} {} {} e" "watching e" "pot e < 2 ^ 64"
  shows "returns (process_queue now (e, out))
    (\<lambda>(e', out'). good e' \<and> dispatched now e e' \<and> hands_out e e' out out')"
  using process_queue_correct [OF assms(1,3), of now out]
proof (rule returns_mono, clarify)
  fix e' out' assume *: "inv {} {} {} e'" "quiet e'" "dispatched now e e'" "hands_out e e' out out'"
  then have "watching e'" by (intro watching_frame [OF assms(2)]) (simp add: dispatched_def)
  with * show "good e' \<and> dispatched now e e' \<and> hands_out e e' out out'" by (simp add: good_def)
qed

lemma dispatched_facts:
  assumes "dispatched now e e'"
  shows "pot e' \<le> pot e" "e_next_job_id e' = e_next_job_id e" "dom (e_conns e') = dom (e_conns e)"
    "\<And>cid. cid \<notin> waiting_conns e \<Longrightarrow> e_conns e' cid = e_conns e cid" "waiting_conns e' \<subseteq> waiting_conns e"
    "grows e e'"
proof -
  show f: "pot e' \<le> pot e" "e_next_job_id e' = e_next_job_id e" "waiting_conns e' \<subseteq> waiting_conns e"
    "\<And>cid. cid \<notin> waiting_conns e \<Longrightarrow> e_conns e' cid = e_conns e cid"
    using assms by (simp_all add: dispatched_def)
  have "cv c_watch e' = cv c_watch e" using assms by (simp add: dispatched_def)
  then show d: "dom (e_conns e') = dom (e_conns e)" by (rule cv_dom)
  show "grows e e'" using f d by (simp add: grows_def)
qed

lemma dispatched_reserved:
  assumes "dispatched now e e'" "e_jobs e' i = Some j'" "j_state j' \<noteq> Reserved \<or> j_reserver j' = Some cid \<and> cid \<notin> waiting_conns e"
  shows "e_jobs e i = Some j'"
proof -
  from assms(1,2) obtain j where j: "e_jobs e i = Some j" unfolding dispatched_def by (metis option.exhaust option.distinct(1))
  with assms(1,2) have d: "job_dispatched now j j'"
    and w: "j' \<noteq> j \<Longrightarrow> \<exists>cid \<in> waiters e (j_tube j). j_reserver j' = Some cid"
    unfolding dispatched_def by blast+
  have "j' = j"
  proof (rule ccontr)
    assume "j' \<noteq> j"
    with d w assms(3) show False by (auto simp: job_dispatched_def waiters_def)
  qed
  with j show ?thesis by simp
qed

lemma dispatched_keeps:
  assumes "dispatched now e e'" "e_jobs e i = Some j" "j_state j \<noteq> Ready"
  shows "e_jobs e' i = Some j"
  using dispatched_job [OF assms(1,2)] assms(3) by (metis job_dispatched_def)

section \<open>Out of a queue, into a queue\<close>

text \<open>Each primitive move: the invariant it establishes, the job map, and what it leaves alone.\<close>

definition takes_out :: "job_id \<Rightarrow> tube_id set \<Rightarrow> (conn_id \<times> tube_id) set \<Rightarrow> job_rec \<Rightarrow> engine \<Rightarrow> engine \<Rightarrow> bool" where
  "takes_out jid G W j e e' \<longleftrightarrow>
     inv {jid} W G e' \<and> unmoved e' e \<and> shrunk e' e \<and> e_next_list_seq e' = e_next_list_seq e \<and>
     e_jobs e' = (e_jobs e)(jid \<mapsto> j)"

definition puts_in :: "job_id \<Rightarrow> tube_id set \<Rightarrow> (conn_id \<times> tube_id) set \<Rightarrow> job_rec \<Rightarrow> engine \<Rightarrow> engine \<Rightarrow> bool" where
  "puts_in jid G W j e e' \<longleftrightarrow>
     inv {} W G e' \<and> unmoved e' e \<and> e_next_list_seq e' = e_next_list_seq e \<and> e_jobs e' = (e_jobs e)(jid \<mapsto> j)"

lemma do_unreserve_step:
  assumes inv: "inv {} W G e" and j: "e_jobs e jid = Some j" and r: "j_reserver j = Some cid"
  shows "takes_out jid G W (j\<lparr>j_reserver := None\<rparr>) e (do_unreserve cid jid e)"
proof -
  from inv_tube [OF inv j] obtain t where t: "tube e (j_tube j) = Some t" .
  from reserved_entry [OF inv j r] obtain c where c: "e_conns e cid = Some c"
    and q: "c_reserved c (j_list_seq j) = Some jid" by blast
  note obs = do_unreserve_obs [OF j t c q]
  have "shrunk (do_unreserve cid jid e) e" by (rule shrunk_views) (simp_all add: view_simps obs t)
  then show ?thesis
    using do_unreserve_inv [OF inv j r] do_unreserve_unmoved [OF j t c q] by (simp add: takes_out_def obs(1))
qed

lemma remove_ready_step:
  assumes inv: "inv {} W G e" and j: "e_jobs e jid = Some j" "j_state j = Ready"
  shows "takes_out jid G W j e (remove_ready (j_tube j) jid e)"
proof -
  from inv_tube [OF inv j(1)] obtain t where t: "tube e (j_tube j) = Some t" .
  note obs = remove_ready_obs [OF j(1) t]
  have "shrunk (remove_ready (j_tube j) jid e) e"
    using t by (auto simp: shrunk_def obs(1) wants_dispatch_def split: if_splits)
  then show ?thesis
    using remove_ready_inv [OF inv j] remove_ready_unmoved [OF j(1) t] j(1) by (simp add: takes_out_def fun_upd_idem)
qed

lemma remove_delayed_step:
  assumes inv: "inv {} W G e" and j: "e_jobs e jid = Some j" "j_state j = Delayed"
  shows "takes_out jid G W j e (remove_delayed (j_tube j) jid e)"
proof -
  from inv_tube [OF inv j(1)] obtain t where t: "tube e (j_tube j) = Some t" .
  have "(j_deadline_at j, jid) \<in> t_delayed t"
    using inv delayed_tubeD [of "{}" e, OF _ t] j by (auto simp: inv_def jobs_st_def)
  note d = j(1) t this
  have "shrunk (remove_delayed (j_tube j) jid e) e"
    by (rule shrunk_views) (simp_all add: view_simps remove_delayed_obs [OF d] t)
  then show ?thesis
    using remove_delayed_inv [OF inv j] remove_delayed_unmoved [OF d] j(1) by (simp add: takes_out_def fun_upd_idem)
qed

lemma remove_buried_step:
  assumes inv: "inv {} W G e" and j: "e_jobs e jid = Some j" "j_state j = Buried"
  shows "takes_out jid G W j e (snd (remove_buried (j_tube j) jid e))"
proof -
  from inv_tube [OF inv j(1)] obtain t where t: "tube e (j_tube j) = Some t" .
  note d = j(1) t buried_entry [OF inv j t]
  have "shrunk (snd (remove_buried (j_tube j) jid e)) e"
    by (rule shrunk_views) (simp_all add: view_simps remove_buried_obs [OF d] t)
  then show ?thesis
    using remove_buried_inv [OF inv j] remove_buried_unmoved [OF d] j(1) by (simp add: takes_out_def fun_upd_idem)
qed

lemma insert_ready_step:
  assumes inv: "inv {jid} W G e" and j: "e_jobs e jid = Some j"
  shows "puts_in jid G W (j\<lparr>j_state := Ready, j_reserver := None\<rparr>) e (insert_ready (j_tube j) jid e)"
proof -
  from inv_tube [OF inv j] obtain t where t: "tube e (j_tube j) = Some t" .
  show ?thesis
    using insert_ready_inv [OF inv j] insert_ready_unmoved [OF j t] by (simp add: puts_in_def insert_ready_obs [OF j t])
qed

lemma insert_delayed_step:
  assumes inv: "inv {jid} W G e" and j: "e_jobs e jid = Some j"
  shows "puts_in jid G W (j\<lparr>j_state := Delayed, j_reserver := None, j_deadline_at := d\<rparr>) e
    (insert_delayed (j_tube j) jid d e)"
proof -
  from inv_tube [OF inv j] obtain t where t: "tube e (j_tube j) = Some t" .
  note n = j t limbo_not_delayed [OF inv t]
  show ?thesis
    using insert_delayed_inv [OF inv j] insert_delayed_unmoved [OF n] by (simp add: puts_in_def insert_delayed_obs [OF n])
qed

lemma takes_out_mut:
  assumes o: "takes_out jid G W j e e'"
    and f: "j_id (f j) = j_id j" "j_tube (f j) = j_tube j" "j_ttr (f j) = j_ttr j" "j_reserver (f j) = None"
  shows "takes_out jid G W (f j) e (job_mut jid f e')"
proof -
  have j: "e_jobs e' jid = Some j" and i: "inv {jid} W G e'" using o by (simp_all add: takes_out_def)
  note m = limbo_mut [where f = f, OF i j f]
  have "shrunk (job_mut jid f e') e'" by (rule shrunk_views) (simp_all add: view_simps)
  with o m show ?thesis
    by (auto simp: takes_out_def fun_upd_idem intro: unmoved_trans shrunk_trans)
qed

lemma takes_out_puts_in:
  assumes o: "takes_out jid G W j e e'" and p: "puts_in jid G W j' e' e''"
  shows "inv {} W G e''" "unmoved e'' e" "e_next_list_seq e'' = e_next_list_seq e" "e_jobs e'' = (e_jobs e)(jid \<mapsto> j')"
  using o p unmoved_trans by (auto simp: takes_out_def puts_in_def)

lemma takes_outD:
  assumes "takes_out jid G W j e e'"
  shows "inv {jid} W G e'" "e_jobs e' jid = Some j" "unmoved e' e" "shrunk e' e"
    "e_next_list_seq e' = e_next_list_seq e" "e_jobs e' = (e_jobs e)(jid \<mapsto> j)"
  using assms by (simp_all add: takes_out_def)

section \<open>Disconnect\<close>

lemma give_back:
  assumes inv: "inv {} W G e" and j: "e_jobs e jid = Some j" "j_reserver j = Some cid"
  defines "e' \<equiv> insert_ready (j_tube j) jid (do_unreserve cid jid e)"
  shows "inv {} W G e'" "unmoved e' e" "e_next_list_seq e' = e_next_list_seq e"
    "e_jobs e' = (e_jobs e)(jid \<mapsto> j\<lparr>j_state := Ready, j_reserver := None\<rparr>)"
proof -
  note o = do_unreserve_step [OF inv j]
  from insert_ready_step [OF takes_outD(1,2) [OF o]] have
    p: "puts_in jid G W (j\<lparr>j_state := Ready, j_reserver := None\<rparr>) (do_unreserve cid jid e) e'"
    by (simp add: e'_def)
  from takes_out_puts_in [OF o p] show "inv {} W G e'" "unmoved e' e" "e_next_list_seq e' = e_next_list_seq e"
    "e_jobs e' = (e_jobs e)(jid \<mapsto> j\<lparr>j_state := Ready, j_reserver := None\<rparr>)" .
qed

text \<open>The jobs a connection holds.\<close>

definition held :: "conn_id \<Rightarrow> engine \<Rightarrow> job_id set" where
  "held cid e = {i. \<exists>j. e_jobs e i = Some j \<and> j_reserver j = Some cid}"

lemma release_reserved_good:
  assumes "good e" "pot e < 2 ^ 64" "cid \<notin> waiting_conns e" "distinct jids" "set jids \<subseteq> held cid e"
  shows "returns (release_reserved now cid jids (e, out))
    (\<lambda>(e', out'). good e' \<and> pot e' \<le> pot e \<and> e_next_job_id e' = e_next_job_id e \<and>
       dom (e_conns e') = dom (e_conns e) \<and> cid \<notin> waiting_conns e' \<and> held cid e' = held cid e - set jids)"
  using assms
proof (induction jids arbitrary: e out)
  case (Cons jid jids)
  from Cons.prems(5) obtain j where j: "e_jobs e jid = Some j" "j_reserver j = Some cid" by (auto simp: held_def)
  have inv: "inv {} {} {} e" and w: "watching e" using Cons.prems(1) by (simp_all add: good_def)
  define e1 where "e1 = insert_ready (j_tube j) jid (do_unreserve cid jid e)"
  note gb = give_back [OF inv j, folded e1_def]
  note um = unmoved_facts [OF gb(2)]
  have pot1: "pot e1 = pot e" by (rule um(6) [OF gb(3)])
  have jobs: "e_jobs (do_unreserve cid jid e) jid = Some (j\<lparr>j_reserver := None\<rparr>)"
    using takes_outD(2) [OF do_unreserve_step [OF inv j]] .
  from process_queue_good [OF gb(1), of now out] w Cons.prems(2)
  have "returns (process_queue now (e1, out)) (\<lambda>(e2, out2). good e2 \<and> dispatched now e1 e2)"
    by (auto simp: um pot1 elim: returns_mono)
  then obtain e2 out2 where q: "process_queue now (e1, out) = Some (e2, out2)" "good e2" "dispatched now e1 e2"
    by (auto simp: returns_def)
  note df = dispatched_facts [OF q(3)]
  have cid1: "cid \<notin> waiting_conns e1" using Cons.prems(3) by (simp add: um)
  then have cid2: "cid \<notin> waiting_conns e2" using df(5) by blast
  have res: "j_state k = Reserved" if "e_jobs e i = Some k" "j_reserver k = Some cid" for i k
    using inv jobs_jobD [OF inv_jobs [OF inv] that(1)] that(2) by auto
  have "held cid e2 = held cid e1"
  proof (intro set_eqI iffI)
    fix i assume "i \<in> held cid e2"
    then show "i \<in> held cid e1" using dispatched_reserved [OF q(3)] cid1 by (fastforce simp: held_def)
  next
    fix i assume "i \<in> held cid e1"
    then obtain k where k: "e_jobs e1 i = Some k" "j_reserver k = Some cid" by (auto simp: held_def)
    then have "j_state k = Reserved" using jobs_jobD [OF inv_jobs [OF gb(1)] k(1)] by auto
    with dispatched_keeps [OF q(3) k(1)] k(2) show "i \<in> held cid e2" by (simp add: held_def)
  qed
  also have "held cid e1 = held cid e - {jid}" by (auto simp: held_def gb(4))
  finally have held2: "held cid e2 = held cid e - {jid}" .
  have "set jids \<subseteq> held cid e2" using Cons.prems(4,5) by (auto simp: held2)
  moreover have "pot e2 < 2 ^ 64" using df(1) pot1 Cons.prems(2) by simp
  moreover have "distinct jids" using Cons.prems(4) by simp
  ultimately have "returns (release_reserved now cid jids (e2, out2))
    (\<lambda>(e', out'). good e' \<and> pot e' \<le> pot e2 \<and> e_next_job_id e' = e_next_job_id e2 \<and>
       dom (e_conns e') = dom (e_conns e2) \<and> cid \<notin> waiting_conns e' \<and> held cid e' = held cid e2 - set jids)"
    by (intro Cons.IH q(2) cid2)
  then have "returns (release_reserved now cid jids (e2, out2))
    (\<lambda>(e', out'). good e' \<and> pot e' \<le> pot e \<and> e_next_job_id e' = e_next_job_id e \<and>
       dom (e_conns e') = dom (e_conns e) \<and> cid \<notin> waiting_conns e' \<and> held cid e' = held cid e - set (jid # jids))"
    by (rule returns_mono) (use df(1-3) pot1 um(3,4) held2 in auto)
  then show ?case using q(1) jobs by (simp add: e1_def)
qed simp

text \<open>Dropping the watched tubes one by one. The connection's watch list is already empty when this
  starts; seen with the tubes still to drop on it, the engine satisfies the invariant at every step.\<close>

lemma shrunk_conn_mut [simp]: "shrunk (conn_mut cid f e') (conn_mut cid g e) = shrunk e' e"
  by (simp add: shrunk_def)

lemma tube_mut_conn_mut: "tube_mut x f (conn_mut cid g e) = conn_mut cid g (tube_mut x f e)"
  by (simp add: conn_mut_with_conns tube_mut_with_conns)

lemma conn_mut_twice: "conn_mut cid g (conn_mut cid f e) = conn_mut cid (\<lambda>c. g (f c)) e"
  by (cases "e_conns e cid") (simp_all add: conn_mut_def)

abbreviation watch_list :: "conn_id \<Rightarrow> tube_id list \<Rightarrow> engine \<Rightarrow> engine" where
  "watch_list cid ws e \<equiv> conn_mut cid (\<lambda>c. c\<lparr>c_watch := \<lparr>ms_items = ws, ms_last = 0\<rparr>\<rparr>) e"

lemma unwatch_all_inv:
  assumes "inv {} W {} (watch_list cid ws e)" "e_conns e cid = Some c" "\<not> c_waiting c"
    and "unat (e_next_job_id e) < 2 ^ 63" "distinct ws"
  shows "returns (unwatch_all ws e) (\<lambda>e'. inv {} W {} (watch_list cid [] e') \<and> e_conns e' = e_conns e \<and>
    e_conn_ticks e' = e_conn_ticks e \<and> shrunk e' e \<and> e_next_job_id e' = e_next_job_id e \<and>
    e_next_list_seq e' = e_next_list_seq e)"
  using assms
proof (induction ws arbitrary: e)
  case Nil
  then show ?case by (simp add: shrunk_tubes)
next
  case (Cons x ws)
  let ?dec = "\<lambda>t. t\<lparr>t_watching_ct := sat_sub (t_watching_ct t) 1\<rparr>"
  let ?v = "watch_list cid (x # ws) e"
  define e1 where "e1 = tube_mut x ?dec e"
  have cv: "e_conns ?v cid = Some (c\<lparr>c_watch := \<lparr>ms_items = x # ws, ms_last = 0\<rparr>\<rparr>)" by (simp add: Cons.prems(2))
  from inv_conn(3) [OF Cons.prems(1) cv] obtain t where t: "tube ?v x = Some t" by auto
  have "inv {} W (insert x {}) (tube_mut x ?dec (conn_mut cid (\<lambda>c. c\<lparr>c_watch := \<lparr>ms_items = ws, ms_last = 0\<rparr>\<rparr>) ?v))"
    by (rule unwatch_inv [OF Cons.prems(1) cv _ t]) (use Cons.prems(3,5) in auto)
  then have i1: "inv {} W {x} (watch_list cid ws e1)"
    by (simp add: e1_def conn_mut_twice tube_mut_conn_mut)
  have "unat (e_next_job_id (watch_list cid ws e1)) < 2 ^ 63" using Cons.prems(4) by (simp add: e1_def)
  from gc_tube_if_orphan_inv [OF i1 this, of x] obtain e2 where gc: "gc_tube_if_orphan x e1 = Some e2"
    and i2: "inv {} W {} (watch_list cid ws e2)" and cu: "culled (watch_list cid ws e2) (watch_list cid ws e1)"
    unfolding gc_conn_mut returns_def by auto
  note gcc = gc_conns [OF gc]
  have "shrunk e1 e" unfolding e1_def by (rule shrunk_views) (use t in \<open>simp_all add: view_simps\<close>)
  moreover have "shrunk e2 e1" using shrunk_culled [OF cu] by simp
  ultimately have sh: "shrunk e2 e" by (blast intro: shrunk_trans)
  have n: "e_next_job_id e2 = e_next_job_id e" "e_next_list_seq e2 = e_next_list_seq e"
    using culled_conns(3,4) [OF cu] by (simp_all add: e1_def)
  have cc: "e_conns e2 = e_conns e" "e_conn_ticks e2 = e_conn_ticks e" using gcc by (simp_all add: e1_def)
  have "returns (unwatch_all ws e2) (\<lambda>e'. inv {} W {} (watch_list cid [] e') \<and> e_conns e' = e_conns e2 \<and>
    e_conn_ticks e' = e_conn_ticks e2 \<and> shrunk e' e2 \<and> e_next_job_id e' = e_next_job_id e2 \<and>
    e_next_list_seq e' = e_next_list_seq e2)"
    by (rule Cons.IH) (use i2 cc n Cons.prems in simp_all)
  then have "returns (unwatch_all ws e2) (\<lambda>e'. inv {} W {} (watch_list cid [] e') \<and> e_conns e' = e_conns e \<and>
    e_conn_ticks e' = e_conn_ticks e \<and> shrunk e' e \<and> e_next_job_id e' = e_next_job_id e \<and>
    e_next_list_seq e' = e_next_list_seq e)"
    by (rule returns_mono) (use cc n shrunk_trans [OF _ sh] in simp)
  then show ?case by (simp add: e1_def [symmetric] gc Let_def)
qed

lemma with_conns_same:
  "e_conns e' = e_conns e \<Longrightarrow> e_conn_ticks e' = e_conn_ticks e \<Longrightarrow> e_cur_conns e' = e_cur_conns e \<Longrightarrow>
   e_cur_producers e' = e_cur_producers e \<Longrightarrow> e_cur_workers e' = e_cur_workers e \<Longrightarrow> e_conns e cid = Some c \<Longrightarrow>
   drop_conn cid e' = with_conns ((e_conns e)(cid := None))
    (e_conn_ticks e - (\<lambda>k. (k, cid)) ` set_option (c_tick_key c)) (sat_sub (e_cur_conns e) 1)
    (if c_is_producer c then sat_sub (e_cur_producers e) 1 else e_cur_producers e)
    (if c_is_worker c then sat_sub (e_cur_workers e) 1 else e_cur_workers e) e'"
  by (simp add: drop_conn_eq)

lemma drop_use_inv:
  assumes inv: "inv {} W {} e" and c: "e_conns e cid = Some c" "\<not> c_waiting c" "c_reserved c = Map.empty"
    "ms_items (c_watch c) = []" and small: "unat (e_next_job_id e) < 2 ^ 63"
  shows "returns (drop_use cid e) (\<lambda>e'. inv {} W {} (drop_conn cid e') \<and> shrunk (drop_conn cid e') e \<and>
    e_conns (drop_conn cid e') = (e_conns e)(cid := None) \<and> e_next_job_id (drop_conn cid e') = e_next_job_id e \<and>
    e_next_list_seq (drop_conn cid e') = e_next_list_seq e)"
proof -
  let ?u = "c_use_tube c" and ?dec = "\<lambda>t. t\<lparr>t_using_ct := sat_sub (t_using_ct t) 1\<rparr>"
  let ?w = "with_conns ((e_conns e)(cid := None))
    (e_conn_ticks e - (\<lambda>k. (k, cid)) ` set_option (c_tick_key c)) (sat_sub (e_cur_conns e) 1)
    (if c_is_producer c then sat_sub (e_cur_producers e) 1 else e_cur_producers e)
    (if c_is_worker c then sat_sub (e_cur_workers e) 1 else e_cur_workers e)"
  define e1 where "e1 = tube_mut ?u ?dec e"
  from inv_conn(1) [OF inv c(1)] obtain t where t: "tube e ?u = Some t" by auto
  have "inv {} W (insert ?u {}) (tube_mut ?u ?dec (drop_conn cid e))"
    by (rule leave_inv [OF inv c refl])
  then have i1: "inv {} W {?u} (?w e1)" by (simp add: drop_conn_eq [OF c(1)] tube_mut_with_conns e1_def)
  have "unat (e_next_job_id (?w e1)) < 2 ^ 63" using small by (simp add: with_conns_def e1_def)
  from gc_tube_if_orphan_inv [OF i1 this, of ?u] obtain e2 where gc: "gc_tube_if_orphan ?u e1 = Some e2"
    and i2: "inv {} W {} (?w e2)" and cu: "culled (?w e2) (?w e1)"
    unfolding gc_with_conns returns_def by auto
  note gcc = gc_conns [OF gc]
  have d: "drop_conn cid e2 = ?w e2" by (rule with_conns_same) (use gcc c in \<open>simp_all add: e1_def\<close>)
  have "shrunk e1 e" unfolding e1_def by (rule shrunk_views) (use t in \<open>simp_all add: view_simps\<close>)
  moreover have "shrunk (?w e2) e1" using shrunk_culled [OF cu] by (simp add: shrunk_def)
  ultimately have "shrunk (?w e2) e" by (blast intro: shrunk_trans)
  moreover have "e_next_job_id (?w e2) = e_next_job_id e" "e_next_list_seq (?w e2) = e_next_list_seq e"
    using culled_conns(3,4) [OF cu] by (simp_all add: e1_def with_conns_def)
  ultimately show ?thesis using gc i2 by (simp add: drop_use_def c e1_def [symmetric] d) (simp add: with_conns_def)
qed

lemma watch_perm_inv:
  assumes inv: "inv L W G e" and c: "e_conns e cid = Some c"
    and ws: "set ws = set (ms_items (c_watch c))" "distinct ws"
  shows "inv L W G (watch_list cid ws e)" (is "inv _ _ _ ?e")
proof (rule inv_refs [OF inv])
  have ce: "e_conns ?e = (e_conns e)(cid \<mapsto> c\<lparr>c_watch := \<lparr>ms_items = ws, ms_last = 0\<rparr>\<rparr>)" by (simp add: c)
  have wat: "watchers ?e x = watchers e x" for x
  proof -
    have "y \<in> watchers ?e x \<longleftrightarrow> y \<in> watchers e x" for y
      by (cases "y = cid") (simp_all add: watchers_def c ws(1))
    then show ?thesis by blast
  qed
  have use: "users ?e x = users e x" for x
  proof -
    have "y \<in> users ?e x \<longleftrightarrow> y \<in> users e x" for y by (cases "y = cid") (simp_all add: users_def c)
    then show ?thesis by blast
  qed
  show "ref_still ?e e" using c by (simp add: ref_still_def view_simps)
  have "waiting_conns ?e = waiting_conns e" by (rule waiting_conns_cong) (simp add: view_simps c)
  then show "waiters ?e x = waiters e x" for x by (simp add: waiters_def wat)
  have ok: "refs_ok G e" using inv by (simp add: inv_def)
  have dom: "dom (e_conns ?e) = dom (e_conns e)" unfolding ce using c by auto
  have jobs: "tube_jobs ?e = tube_jobs e" by (simp add: tube_jobs_def fun_eq_iff)
  have "tube e (c_use_tube k) \<noteq> None \<and> distinct (ms_items (c_watch k)) \<and> (\<forall>x \<in> set (ms_items (c_watch k)). tube e x \<noteq> None)"
    if "e_conns ?e x = Some k" for x k
  proof (cases "x = cid")
    case True
    with that have "k = c\<lparr>c_watch := \<lparr>ms_items = ws, ms_last = 0\<rparr>\<rparr>" by (simp add: c)
    with inv_conn [OF inv c] ws show ?thesis by simp
  next
    case False
    with that have "e_conns e x = Some k" by simp
    from inv_conn [OF inv this] show ?thesis by simp
  qed
  with ok show "refs_ok G ?e" unfolding refs_ok_def wat use dom jobs by simp
qed

lemma values_of_held:
  assumes inv: "inv {} W G e" and c: "e_conns e cid = Some c"
  shows "set (values_of (c_reserved c)) = held cid e" "distinct (values_of (c_reserved c))"
    "c_reserved c = Map.empty \<longleftrightarrow> held cid e = {}"
proof -
  have ok: "reserved_ok {} e" using inv by (simp add: inv_def)
  have r: "c_reserved c q = Some i \<longleftrightarrow> (\<exists>j. e_jobs e i = Some j \<and> j_reserver j = Some cid \<and> j_list_seq j = q)" for q i
    using reserved_connD [OF ok c] jobs_jobD [OF inv_jobs [OF inv], of i] by (auto simp: jobs_st_def)
  show *: "set (values_of (c_reserved c)) = held cid e"
    using r by (force simp: values_of_def keys_of_def held_def)
  have "inj_on (\<lambda>k. the (c_reserved c k)) (dom (c_reserved c))"
    using r by (intro inj_onI) fastforce
  then show "distinct (values_of (c_reserved c))"
    by (simp add: values_of_def keys_of_def distinct_map)
  have "c_reserved c q = None" if "held cid e = {}" for q
  proof (rule ccontr)
    assume "c_reserved c q \<noteq> None"
    then obtain i where "c_reserved c q = Some i" by blast
    with r that show False by (auto simp: held_def)
  qed
  moreover have "held cid e = {}" if "c_reserved c = Map.empty"
    using * that by (simp add: values_of_def keys_of_def)
  ultimately show "c_reserved c = Map.empty \<longleftrightarrow> held cid e = {}" by auto
qed

lemma drop_watches_inv:
  assumes g: "good e" and c: "e_conns e cid = Some c" "\<not> c_waiting c" and small: "unat (e_next_job_id e) < 2 ^ 63"
  shows "returns (drop_watches cid e) (\<lambda>e'. inv {} {} {} e' \<and>
    e_conns e' = (e_conns e)(cid \<mapsto> c\<lparr>c_watch := ms_new\<rparr>) \<and> shrunk e' e \<and>
    e_next_job_id e' = e_next_job_id e \<and> e_next_list_seq e' = e_next_list_seq e \<and> held cid e' = held cid e)"
proof -
  have inv: "inv {} {} {} e" using g by (simp add: good_def)
  obtain ws where cl: "ms_clear_in_delete_order (c_watch c) = (ws, ms_new)"
    and ws: "set ws = set (ms_items (c_watch c))" "distinct ws"
    using inv_conn(2) [OF inv c(1)] by (cases "ms_items (c_watch c)") (auto simp: ms_clear_in_delete_order_eq)
  define e0 where "e0 = conn_mut cid (\<lambda>c. c\<lparr>c_watch := ms_new\<rparr>) e"
  have "inv {} {} {} (watch_list cid ws e0)"
    using watch_perm_inv [OF inv c(1) ws] by (simp add: e0_def conn_mut_twice)
  moreover have "e_conns e0 cid = Some (c\<lparr>c_watch := ms_new\<rparr>)" by (simp add: e0_def c)
  moreover have "unat (e_next_job_id e0) < 2 ^ 63" using small by (simp add: e0_def)
  ultimately have "returns (unwatch_all ws e0) (\<lambda>e'. inv {} {} {} (watch_list cid [] e') \<and> e_conns e' = e_conns e0 \<and>
    e_conn_ticks e' = e_conn_ticks e0 \<and> shrunk e' e0 \<and> e_next_job_id e' = e_next_job_id e0 \<and>
    e_next_list_seq e' = e_next_list_seq e0)"
    using unwatch_all_inv [of "{}" cid ws e0 "c\<lparr>c_watch := ms_new\<rparr>"] c(2) ws(2) by simp
  then obtain e' where u: "unwatch_all ws e0 = Some e'" and i: "inv {} {} {} (watch_list cid [] e')"
    and f: "e_conns e' = e_conns e0" "shrunk e' e0" "e_next_job_id e' = e_next_job_id e0"
    "e_next_list_seq e' = e_next_list_seq e0" by (auto simp: returns_def)
  have same: "watch_list cid [] e' = e'"
    by (rule engine.equality) (simp_all add: f e0_def c ms_new_def fun_upd_idem)
  with i have i': "inv {} {} {} e'" by simp
  have c': "e_conns e' cid = Some (c\<lparr>c_watch := ms_new\<rparr>)" by (simp add: f e0_def c)
  have "held cid e' = set (values_of (c_reserved c))" using values_of_held(1) [OF i' c'] by simp
  then have "held cid e' = held cid e" using values_of_held(1) [OF inv c(1)] by simp
  moreover have "shrunk e' e" using f(2) by (simp add: e0_def shrunk_def)
  ultimately show ?thesis
    using u f i' by (simp add: drop_watches_def c(1) cl e0_def [symmetric]) (simp add: e0_def c)
qed

lemma disconnect_good:
  assumes g: "good e" and pot: "pot e < 2 ^ 64" and small: "unat (e_next_job_id e) < 2 ^ 63"
  shows "returns (disconnect now cid (e, out)) (\<lambda>(e', out'). good e' \<and> grows e e')"
proof (cases "e_conns e cid")
  case None
  with g show ?thesis by (simp add: disconnect_def)
next
  case (Some c)
  define e1 where "e1 = do_remove_waiting_conn cid e"
  note rw = remove_waiting_good [OF g, of cid, folded e1_def]
  have g1: "good e1" "pot e1 \<le> pot e" "cid \<notin> waiting_conns e1" "e_next_job_id e1 = e_next_job_id e"
    using rw by (simp_all add: still_def)
  have dom1: "dom (e_conns e1) = dom (e_conns e)" using rw by (intro cv_dom [of c_watch]) (simp add: still_def)
  then obtain c1 where c1: "e_conns e1 cid = Some c1" using Some by (metis domD domI)
  have inv1: "inv {} {} {} e1" using g1 by (simp add: good_def)
  note vh = values_of_held [OF inv1 c1]
  from release_reserved_good [of e1 cid "values_of (c_reserved c1)" now out] g1 pot vh
  have "returns (release_reserved now cid (values_of (c_reserved c1)) (e1, out))
    (\<lambda>(e', out'). good e' \<and> pot e' \<le> pot e1 \<and> e_next_job_id e' = e_next_job_id e1 \<and>
       dom (e_conns e') = dom (e_conns e1) \<and> cid \<notin> waiting_conns e' \<and> held cid e' = {})" by simp
  then obtain e2 out2 where r: "release_reserved now cid (values_of (c_reserved c1)) (e1, out) = Some (e2, out2)"
    and g2: "good e2" "pot e2 \<le> pot e1" "e_next_job_id e2 = e_next_job_id e1" "dom (e_conns e2) = dom (e_conns e1)"
      "cid \<notin> waiting_conns e2" "held cid e2 = {}" by (auto simp: returns_def)
  from g2(4) c1 obtain c2 where c2: "e_conns e2 cid = Some c2" by (metis domD domI)
  have nw: "\<not> c_waiting c2" using g2(5) c2 by (auto simp: waiting_conns_def)
  have small2: "unat (e_next_job_id e2) < 2 ^ 63" using small by (simp add: g2 g1)
  from drop_watches_inv [OF g2(1) c2 nw small2] obtain e3 where d: "drop_watches cid e2 = Some e3" and
    i3: "inv {} {} {} e3" and c3: "e_conns e3 = (e_conns e2)(cid \<mapsto> c2\<lparr>c_watch := ms_new\<rparr>)" and
    f3: "shrunk e3 e2" "e_next_job_id e3 = e_next_job_id e2" "e_next_list_seq e3 = e_next_list_seq e2" "held cid e3 = {}"
    by (auto simp: returns_def g2)
  have c3': "e_conns e3 cid = Some (c2\<lparr>c_watch := ms_new\<rparr>)" by (simp add: c3)
  have "c_reserved (c2\<lparr>c_watch := ms_new\<rparr>) = Map.empty" using values_of_held(3) [OF i3 c3'] f3(4) by simp
  from drop_use_inv [OF i3 c3' _ this] nw small2 f3(2) obtain e4 where u: "drop_use cid e3 = Some e4" and
    i4: "inv {} {} {} (drop_conn cid e4)" and f4: "shrunk (drop_conn cid e4) e3"
      "e_conns (drop_conn cid e4) = (e_conns e3)(cid := None)"
      "e_next_job_id (drop_conn cid e4) = e_next_job_id e3" "e_next_list_seq (drop_conn cid e4) = e_next_list_seq e3"
    by (auto simp: returns_def ms_new_def)
  let ?e = "drop_conn cid e4"
  have "quiet ?e" using g2(1) f3(1) f4(1) shrunk_quiet unfolding good_def by (meson shrunk_trans)
  moreover have "watching ?e" using g2(1) by (auto simp: good_def watching_def f4(2) c3 split: if_splits)
  moreover have "waiting_conns ?e \<subseteq> waiting_conns e2" by (auto simp: waiting_conns_def f4(2) c3 split: if_splits)
  then have "card (waiting_conns ?e) \<le> card (waiting_conns e2)" by (rule card_mono [rotated]) simp
  then have "pot ?e \<le> pot e2" by (simp add: pot_def f4 f3)
  moreover have "card (dom (e_conns ?e)) \<le> card (dom (e_conns e2))"
    by (rule card_mono) (auto simp: f4(2) c3 split: if_splits)
  ultimately have "good ?e \<and> grows e ?e"
    using i4 g2(2-4) g1 dom1 f3 f4 by (simp add: good_def grows_def)
  then show ?thesis
    using Some r d u c1 by (simp add: disconnect_def e1_def [symmetric] Let_def)
qed

lemma half_close_good:
  assumes g: "good e" and r: "half_close now cid (e, out) = (e', out')"
  shows "good e' \<and> grows e e'"
proof -
  have "e' = e \<or> e' = do_remove_waiting_conn cid e"
    using r by (auto simp: half_close_def reply_def split: if_splits)
  moreover have "good (do_remove_waiting_conn cid e) \<and> grows e (do_remove_waiting_conn cid e)"
    using remove_waiting_good [OF g, of cid] cv_dom [of c_watch "do_remove_waiting_conn cid e" e]
    by (simp add: grows_def still_def)
  ultimately show ?thesis using g by auto
qed

end
