(* ===== verification/Engine_Handlers.thy ===== *)
theory Engine_Handlers
  imports Engine_Jobs
begin

text \<open>
  Every command handler returns and takes a good state to a good state.
\<close>

section \<open>Jobs come and go\<close>

lemma new_job_inv:
  assumes inv: "inv {} W G e" and t: "tube e (j_tube j) = Some t"
    and new: "e_jobs e jid = None" "jid < e_next_job_id e" "\<And>x. pending_id e x \<noteq> Some jid"
    and j: "j_id j = jid" "1 \<le> j_ttr j" "j_reserver j = None"
  defines "e' \<equiv> tube_mut (j_tube j) (\<lambda>t. t\<lparr>t_job_ref_ct := t_job_ref_ct t + 1\<rparr>) (e\<lparr>e_jobs := (e_jobs e)(jid \<mapsto> j)\<rparr>)"
  shows "inv {jid} W G e'"
proof -
  have jobs: "e_jobs e' = (e_jobs e)(jid \<mapsto> j)" and conns: "e_conns e' = e_conns e"
    and te: "tube e' = (tube e)(j_tube j \<mapsto> t\<lparr>t_job_ref_ct := t_job_ref_ct t + 1\<rparr>)"
    by (simp_all add: e'_def t)
  have tv: "tv pr e' = tv pr e" if "pr (t\<lparr>t_job_ref_ct := t_job_ref_ct t + 1\<rparr>) = pr t" for pr :: "tube_state \<Rightarrow> 'b"
    using that t by (auto simp: view_simps te)
  have cv: "cv pr e' = cv pr e" for pr :: "conn_state \<Rightarrow> 'c" by (rule cv_same [OF conns])
  have st: "jobs_st {jid} e' s = jobs_st {} e s" for s
    using new(1) by (auto simp: jobs_st_def jobs)
  have "slab_ok e'" by (rule slab_frame [of e]) (use inv in \<open>simp_all add: inv_def tv\<close>, simp_all add: e'_def)
  moreover have "refs_ok G e'"
  proof -
    have ok: "refs_ok G e" using inv by (simp add: inv_def)
    have tj: "tube_jobs e' x = (if x = j_tube j then insert jid (tube_jobs e x) else tube_jobs e x)" for x
      using new(1) by (auto simp: tube_jobs_def jobs)
    have fresh: "jid \<notin> tube_jobs e x" for x using new(1) by (simp add: tube_jobs_def)
    note cs = conn_sets_same [OF conns]
    have old: "\<exists>v. tube e x = Some v \<and> t_using_ct v' = t_using_ct v \<and> t_watching_ct v' = t_watching_ct v \<and>
        t_job_ref_ct v' = (if x = j_tube j then t_job_ref_ct v + 1 else t_job_ref_ct v)"
      if "tube e' x = Some v'" for x v'
      using that t by (auto simp: te split: if_splits)
    show ?thesis
      unfolding refs_ok_def conns cs
    proof (intro conjI allI impI)
      show "card (dom (e_conns e)) < 2 ^ 32" using ok by (simp add: refs_ok_def)
    next
      fix x k assume k: "e_conns e x = Some k"
      show "tube e' (c_use_tube k) \<noteq> None" "distinct (ms_items (c_watch k))"
        "\<forall>y \<in> set (ms_items (c_watch k)). tube e' y \<noteq> None"
        using inv_conn [OF inv k] by (auto simp: te)
    next
      fix x v' assume "tube e' x = Some v'"
      from old [OF this] obtain v where v: "tube e x = Some v" "t_using_ct v' = t_using_ct v"
        "t_watching_ct v' = t_watching_ct v"
        "t_job_ref_ct v' = (if x = j_tube j then t_job_ref_ct v + 1 else t_job_ref_ct v)" by blast
      note r = refs_tubeD [OF ok v(1)]
      show "t_using_ct v' = of_nat (card (users e x))" "t_watching_ct v' = of_nat (card (watchers e x))"
        "t_job_ref_ct v' = of_nat (card (tube_jobs e' x))"
        using r by (simp_all add: v tj card_plus_1 fresh)
      show "x = DEFAULT_TUBE \<or> x \<in> G \<or> users e x \<noteq> {} \<or> watchers e x \<noteq> {} \<or> tube_jobs e' x \<noteq> {}"
        using r by (auto simp: tj)
    qed
  qed
  moreover have "wait_ok W e'" by (rule wait_frame [of W e]) (use inv in \<open>simp_all add: inv_def tv cv\<close>, simp add: e'_def)
  moreover have "jobs_ok {jid} e'"
    using inv_jobs [OF inv] new(2) j t by (auto simp: jobs_ok_def jobs conns te e'_def split: if_splits)
  moreover have "seq_ok {jid} e'" by (rule seq_frame [of "{}" e]) (use inv in \<open>simp_all add: inv_def st\<close>, simp add: e'_def)
  moreover have "pending_ok e'"
  proof -
    have "pending_id e' = pending_id e" by (rule conn_sets_same(5) [OF conns])
    with inv new(3) show ?thesis by (simp add: inv_def pending_ok_def jobs) (simp add: e'_def)
  qed
  moreover have "ready_ok {jid} e'" by (rule ready_frame [of "{}" e]) (use inv in \<open>simp_all add: inv_def st tv\<close>, simp_all add: e'_def)
  moreover have "delayed_ok {jid} e'" by (rule delayed_frame [of "{}" e]) (use inv in \<open>simp_all add: inv_def st tv\<close>, simp_all add: e'_def)
  moreover have "buried_ok {jid} e'" by (rule buried_frame [of "{}" e]) (use inv in \<open>simp_all add: inv_def st tv\<close>, simp_all add: e'_def)
  moreover have "reserved_ok {jid} e'" by (rule reserved_frame [of "{}" e]) (use inv in \<open>simp_all add: inv_def st tv cv\<close>, simp_all add: e'_def)
  moreover have "conn_counts_ok e'" by (rule conn_counts_frame [of e]) (use inv in \<open>simp_all add: inv_def cv\<close>, simp_all add: e'_def)
  moreover have "index_ok e'"
    unfolding index_ok_pre
    by (rule pre_index_frame [of "{}" "{}" "{}" e])
      (use inv in \<open>simp_all add: inv_def index_ok_pre tv cv\<close>, simp_all add: e'_def)
  ultimately show ?thesis by (simp add: inv_def)
qed

lemma del_job_inv:
  assumes inv: "inv {jid} W G e" and j: "e_jobs e jid = Some j"
    and f: "t_name (f t) = t_name t" "t_pos (f t) = t_pos t" "t_using_ct (f t) = t_using_ct t"
      "t_watching_ct (f t) = t_watching_ct t" "t_job_ref_ct (f t) = sat_sub (t_job_ref_ct t) 1"
      "t_ready (f t) = t_ready t" "t_delayed (f t) = t_delayed t" "t_buried (f t) = t_buried t"
      "t_waiting_conns (f t) = t_waiting_conns t" "s_urgent_ct (t_stat (f t)) = s_urgent_ct (t_stat t)"
      "s_buried_ct (t_stat (f t)) = s_buried_ct (t_stat t)" "s_reserved_ct (t_stat (f t)) = s_reserved_ct (t_stat t)"
      "s_waiting_ct (t_stat (f t)) = s_waiting_ct (t_stat t)" "t_pause (f t) = t_pause t"
      "t_unpause_at (f t) = t_unpause_at t" "t_delay_head (f t) = t_delay_head t"
      "t_dispatchable (f t) = t_dispatchable t"
    and t: "tube e (j_tube j) = Some t"
  defines "e' \<equiv> (tube_mut (j_tube j) f e)\<lparr>e_jobs := (e_jobs e)(jid := None)\<rparr>"
  shows "inv {} W (insert (j_tube j) G) e'"
proof -
  have jobs: "e_jobs e' = (e_jobs e)(jid := None)" and conns: "e_conns e' = e_conns e"
    and te: "tube e' = (tube e)(j_tube j \<mapsto> f t)"
    by (simp_all add: e'_def t)
  have tv: "tv pr e' = tv pr e" if "pr (f t) = pr t" for pr :: "tube_state \<Rightarrow> 'b"
    using that t by (auto simp: view_simps te)
  have cv: "cv pr e' = cv pr e" for pr :: "conn_state \<Rightarrow> 'c" by (rule cv_same [OF conns])
  have st: "jobs_st {} e' s = jobs_st {jid} e s" for s by (auto simp: jobs_st_def jobs split: if_splits)
  have "slab_ok e'" by (rule slab_frame [of e]) (use inv in \<open>simp_all add: inv_def tv f\<close>, simp_all add: e'_def)
  moreover have "refs_ok (insert (j_tube j) G) e'"
  proof -
    have ok: "refs_ok G e" using inv by (simp add: inv_def)
    have tj: "tube_jobs e' x = (if x = j_tube j then tube_jobs e x - {jid} else tube_jobs e x)" for x
      using j by (auto simp: tube_jobs_def jobs)
    have mem: "jid \<in> tube_jobs e (j_tube j)" using j by (simp add: tube_jobs_def)
    have dec: "sat_sub (of_nat (card (tube_jobs e (j_tube j)))) 1 = (of_nat (card (tube_jobs e (j_tube j) - {jid})) :: u64)"
      by (rule card_minus_1 [OF mem]) (use card_jobs_bound [OF inv_jobs [OF inv], of "tube_jobs e (j_tube j)"] in
        \<open>auto simp: tube_jobs_def\<close>)
    note cs = conn_sets_same [OF conns]
    have old: "\<exists>v. tube e x = Some v \<and> t_using_ct v' = t_using_ct v \<and> t_watching_ct v' = t_watching_ct v \<and>
        t_job_ref_ct v' = (if x = j_tube j then sat_sub (t_job_ref_ct v) 1 else t_job_ref_ct v)"
      if "tube e' x = Some v'" for x v'
      using that t f by (auto simp: te split: if_splits)
    show ?thesis
      unfolding refs_ok_def conns cs
    proof (intro conjI allI impI)
      show "card (dom (e_conns e)) < 2 ^ 32" using ok by (simp add: refs_ok_def)
    next
      fix x k assume k: "e_conns e x = Some k"
      show "tube e' (c_use_tube k) \<noteq> None" "distinct (ms_items (c_watch k))"
        "\<forall>y \<in> set (ms_items (c_watch k)). tube e' y \<noteq> None"
        using inv_conn [OF inv k] by (auto simp: te)
    next
      fix x v' assume "tube e' x = Some v'"
      from old [OF this] obtain v where v: "tube e x = Some v" "t_using_ct v' = t_using_ct v"
        "t_watching_ct v' = t_watching_ct v"
        "t_job_ref_ct v' = (if x = j_tube j then sat_sub (t_job_ref_ct v) 1 else t_job_ref_ct v)" by blast
      note r = refs_tubeD [OF ok v(1)]
      show "t_using_ct v' = of_nat (card (users e x))" "t_watching_ct v' = of_nat (card (watchers e x))"
        using r by (simp_all add: v)
      show "t_job_ref_ct v' = of_nat (card (tube_jobs e' x))"
        unfolding v(4) tj using r dec by (simp split: if_splits)
      show "x = DEFAULT_TUBE \<or> x \<in> insert (j_tube j) G \<or> users e x \<noteq> {} \<or> watchers e x \<noteq> {} \<or> tube_jobs e' x \<noteq> {}"
        using r by (auto simp: tj)
    qed
  qed
  moreover have "wait_ok W e'" by (rule wait_frame [of W e]) (use inv in \<open>simp_all add: inv_def tv cv f\<close>, simp add: e'_def)
  moreover have "jobs_ok {} e'"
    using inv_jobs [OF inv] t unfolding jobs_ok_def jobs conns te by (auto simp: e'_def split: if_splits)
  moreover have "seq_ok {} e'" by (rule seq_frame [of "{jid}" e]) (use inv in \<open>simp_all add: inv_def st\<close>, simp add: e'_def)
  moreover have "pending_ok e'"
  proof -
    have "pending_id e' = pending_id e" by (rule conn_sets_same(5) [OF conns])
    with inv show ?thesis by (simp add: inv_def pending_ok_def jobs) (simp add: e'_def)
  qed
  moreover have "ready_ok {} e'" by (rule ready_frame [of "{jid}" e]) (use inv in \<open>simp_all add: inv_def st tv f\<close>, simp_all add: e'_def)
  moreover have "delayed_ok {} e'" by (rule delayed_frame [of "{jid}" e]) (use inv in \<open>simp_all add: inv_def st tv f\<close>, simp_all add: e'_def)
  moreover have "buried_ok {} e'" by (rule buried_frame [of "{jid}" e]) (use inv in \<open>simp_all add: inv_def st tv f\<close>, simp_all add: e'_def)
  moreover have "reserved_ok {} e'" by (rule reserved_frame [of "{jid}" e]) (use inv in \<open>simp_all add: inv_def st tv cv f\<close>, simp_all add: e'_def)
  moreover have "conn_counts_ok e'" by (rule conn_counts_frame [of e]) (use inv in \<open>simp_all add: inv_def cv\<close>, simp_all add: e'_def)
  moreover have "index_ok e'"
    unfolding index_ok_pre
    by (rule pre_index_frame [of "{}" "{}" "{}" e])
      (use inv in \<open>simp_all add: inv_def index_ok_pre tv cv f\<close>, simp_all add: e'_def)
  ultimately show ?thesis by (simp add: inv_def)
qed

section \<open>Put\<close>

lemma meta_pot: "meta_still e' e \<Longrightarrow> pot e' = pot e"
  by (rule pot_conns) (simp_all add: meta_still_def)

lemma total_jobs_inv:
  assumes "inv L W G e"
  shows "inv L W G (tube_mut tid (stat_mut (\<lambda>s. s\<lparr>s_total_jobs_ct := s_total_jobs_ct s + 1\<rparr>)) e)" (is "inv _ _ _ ?e")
proof -
  have tv: "tv pr ?e = tv pr e" if "\<And>t. pr (stat_mut (\<lambda>s. s\<lparr>s_total_jobs_ct := s_total_jobs_ct s + 1\<rparr>) t) = pr t"
    for pr :: "tube_state \<Rightarrow> 'b"
    using that by (cases "tube e tid") (auto simp: view_simps)
  have cv: "cv pr ?e = cv pr e" for pr :: "conn_state \<Rightarrow> 'c" by (rule cv_same) simp
  show ?thesis
  proof (rule inv_still [OF assms])
    show "still ?e e" by (simp add: still_def tv cv)
    show "wait_ok W ?e" by (rule wait_frame [of W e]) (use assms in \<open>simp_all add: inv_def tv cv\<close>)
    show "index_ok ?e" unfolding index_ok_pre
      by (rule pre_index_frame [of "{}" "{}" "{}" e]) (use assms in \<open>simp_all add: inv_def index_ok_pre tv cv\<close>)
  qed
qed

lemma total_jobs_good:
  assumes g: "good e"
  shows "good (tube_mut tid (stat_mut (\<lambda>s. s\<lparr>s_total_jobs_ct := s_total_jobs_ct s + 1\<rparr>)) e)" (is "good ?e")
proof -
  have "shrunk ?e e" by (cases "tube e tid") (auto simp: shrunk_def wants_dispatch_def)
  moreover have "watching ?e = watching e" by (simp add: watching_def)
  ultimately show ?thesis using g total_jobs_inv shrunk_quiet by (simp add: good_def)
qed

lemma take_pending_put_good:
  assumes g: "good e" and c: "e_conns e cid = Some c" and small: "unat (e_next_job_id e) < 2 ^ 63"
    and tp: "take_pending_put now cid e = ((jid, created), e1)"
  shows "good e1 \<and> grows e e1 \<and> meta_still e1 e \<and> e_jobs e1 jid = None \<and> jid < e_next_job_id e1 \<and>
    (\<forall>x. pending_id e1 x \<noteq> Some jid)"
proof -
  have inv: "inv {} {} {} e" using g by (simp add: good_def)
  then have po: "pending_ok e" and jo: "jobs_ok {} e" and cc: "conn_counts_ok e" by (simp_all add: inv_def)
  define e0 where "e0 = conn_mut cid (\<lambda>c. c\<lparr>c_pending_put := None\<rparr>) e"
  have m0: "meta_still e0 e" "conn_counts_ok e0" "pending_id e0 = (pending_id e)(cid := None)"
    "e_next_job_id e0 = e_next_job_id e" "e_jobs e0 = e_jobs e"
    by (simp_all add: e0_def meta_still_steps conn_counts_steps [OF cc])
  have p0: "pending_ok e0" by (rule pending_ok_change [OF po jo m0(5,3)]) (simp_all add: m0)
  have pid: "pending_id e cid = c_pending_put c \<bind> pp_id" by (simp add: pending_id_def c)
  show ?thesis
  proof (cases "pending_id e cid")
    case (Some i)
    then obtain p where p: "c_pending_put c = Some p" "pp_id p = Some i" using pid by (auto simp: bind_eq_Some_conv)
    with tp c have eq: "jid = i" "e1 = e0" by (simp_all add: take_pending_put_def e0_def Let_def)
    have "i < e_next_job_id e \<and> e_jobs e i = None" "pending_id e x = Some i \<Longrightarrow> x = cid" for x
      using po Some by (auto simp: pending_ok_def)
    with good_meta [OF g m0(1) p0 m0(2)] m0 show ?thesis by (auto simp: eq)
  next
    case None
    define e2 where "e2 = connsetproducer cid (count_op (\<lambda>c. c\<lparr>o_put := o_put c + 1\<rparr>) e0)"
    let ?e1 = "e2\<lparr>e_next_job_id := e_next_job_id e2 + 1\<rparr>"
    have n2: "e_next_job_id e2 = e_next_job_id e" by (simp add: e2_def m0)
    from None pid tp c have eq: "jid = e_next_job_id e" "e1 = ?e1"
      by (auto simp: take_pending_put_def e0_def [symmetric] e2_def [symmetric] n2 m0(4) Let_def split: option.splits)
    have m1: "meta_still ?e1 e" and c1: "conn_counts_ok ?e1"
      unfolding e2_def
      by (auto intro!: conn_counts_steps m0(2) meta_still_trans [OF meta_still_steps(2)]
          meta_still_trans [OF meta_still_steps(3)] meta_still_trans [OF meta_still_steps(1)] m0(1))
    have j1: "e_jobs ?e1 = e_jobs e" using m1 by (simp add: meta_still_def)
    have p1: "pending_id ?e1 = (pending_id e)(cid := None)" by (simp add: e2_def m0)
    note room = id_room [OF small]
    have "pending_ok ?e1" by (rule pending_ok_change [OF po jo j1 p1]) (use room in \<open>simp_all add: n2\<close>)
    from good_meta [OF g m1 this c1] room have "good ?e1 \<and> grows e ?e1" by (simp add: n2)
    moreover have "e_jobs e (e_next_job_id e) = None"
      using jo by (auto simp: jobs_ok_def intro: option.exhaust [of "e_jobs e (e_next_job_id e)"])
    moreover have "pending_id e x \<noteq> Some (e_next_job_id e)" for x using po by (auto simp: pending_ok_def)
    ultimately show ?thesis using m1 j1 p1 room(2) by (simp add: eq n2)
  qed
qed

lemma grows_trans_same:
  "grows e e' \<Longrightarrow> pot e' = pot e \<Longrightarrow> grows e' e'' \<Longrightarrow> e_next_job_id e'' = e_next_job_id e' \<Longrightarrow>
   dom (e_conns e'') = dom (e_conns e') \<Longrightarrow> grows e e''"
  by (simp add: grows_def)

lemma cmd_put_good:
  assumes g: "good e" and c: "e_conns e cid = Some c" and small: "unat (e_next_job_id e) < 2 ^ 63"
    and pot: "pot e < 2 ^ 64"
  shows "returns (cmd_put now cid pri delay ttr body (e, out)) (\<lambda>(e', out'). good e' \<and> grows e e')"
proof -
  obtain jid created e1 where tp: "take_pending_put now cid e = ((jid, created), e1)" by (metis surj_pair)
  from take_pending_put_good [OF g c small tp] have g1: "good e1" "grows e e1" "meta_still e1 e" "e_jobs e1 jid = None"
    "jid < e_next_job_id e1" "\<And>x. pending_id e1 x \<noteq> Some jid" by simp_all
  have inv1: "inv {} {} {} e1" and w1: "watching e1" using g1(1) by (simp_all add: good_def)
  show ?thesis
  proof (cases "e_draining e1")
    case True
    with g1 show ?thesis by (simp add: cmd_put_def tp reply_eq)
  next
    case False
    have "cv c_waiting e1 = cv c_waiting e" using g1(3) by (simp add: meta_still_def)
    with cv_None [of c_waiting e1 e cid] c obtain c1 where c1: "e_conns e1 cid = Some c1" by auto
    define tid where "tid = use_tube_of cid e1"
    from inv_conn(1) [OF inv1 c1] obtain t where t: "tube e1 tid = Some t" by (auto simp: tid_def use_tube_of_def c1)
    define job where "job = \<lparr>j_id = jid, j_tube = tid, j_pri = pri, j_delay = delay, j_ttr = max ttr 1,
      j_body = body, j_created_at = created, j_deadline_at = 0, j_state = Ready, j_reserver = None, j_list_seq = 0,
      j_reserve_ct = 0, j_timeout_ct = 0, j_release_ct = 0, j_bury_ct = 0, j_kick_ct = 0,
      j_file = (if cfg_journal (e_cfg e1) then bl_current_index (e_binlog e1) else 0)\<rparr>"
    define e2 where "e2 = tube_mut tid (\<lambda>t. t\<lparr>t_job_ref_ct := t_job_ref_ct t + 1\<rparr>) (e1\<lparr>e_jobs := (e_jobs e1)(jid \<mapsto> job)\<rparr>)"
    define e3 where "e3 = (if delay > 0 then insert_delayed tid jid (sat_add now (secs delay)) e2 else insert_ready tid jid e2)"
    define e4 where "e4 = journal_put jid e3"
    have job: "j_tube job = tid" "j_id job = jid" "1 \<le> j_ttr job" "j_reserver job = None" by (simp_all add: job_def)
    have i2: "inv {jid} {} {} e2"
      using new_job_inv [OF inv1, of job t jid] t g1(4-6) job by (simp add: e2_def)
    have j2: "e_jobs e2 jid = Some job" by (simp add: e2_def)
    have same2: "e_conns e2 = e_conns e1" "e_next_list_seq e2 = e_next_list_seq e1" "e_next_job_id e2 = e_next_job_id e1"
      by (simp_all add: e2_def)
    from insert_ready_step [OF i2 j2] insert_delayed_step [OF i2 j2, of "sat_add now (secs delay)"]
    have p3: "inv {} {} {} e3" "unmoved e3 e2" "e_next_list_seq e3 = e_next_list_seq e2"
      by (simp_all add: e3_def puts_in_def job)
    note um = unmoved_facts [OF p3(2)]
    have w2: "waiting_conns e2 = waiting_conns e1" by (rule conn_sets_same(3)) (simp add: same2)
    have pot2: "pot e2 = pot e1" by (simp add: pot_def same2 w2)
    have pot3: "pot e3 = pot e1" using um(6) [OF p3(3)] pot2 by simp
    have pe: "pot e1 = pot e" by (rule meta_pot [OF g1(3)])
    have same4: "e_conns e4 = e_conns e3" "e_next_list_seq e4 = e_next_list_seq e3" "e_next_job_id e4 = e_next_job_id e3"
      "e_jobs e4 = e_jobs e3"
      by (simp_all add: e4_def journal_put_def split: option.split)
    have w4: "waiting_conns e4 = waiting_conns e3" by (rule conn_sets_same(3)) (simp add: same4)
    have pot4: "pot e4 = pot e1" using pot3 by (simp add: pot_def same4 w4)
    have i4: "inv {} {} {} e4" using p3(1) by (simp add: e4_def)
    have wt: "watching e4" using w1 um(2) by (simp add: watching_def same4 same2)
    from process_queue_good [OF i4 wt, of now out] pot pot4 pe obtain e5 out5 where
      q: "process_queue now (e4, out) = Some (e5, out5)" "good e5" "dispatched now e4 e5" by (auto simp: returns_def)
    note df = dispatched_facts [OF q(3)]
    let ?e6 = "tube_mut tid (stat_mut (\<lambda>s. s\<lparr>s_total_jobs_ct := s_total_jobs_ct s + 1\<rparr>)) (e5\<lparr>e_total_jobs_ct := e_total_jobs_ct e5 + 1\<rparr>)"
    have "good ?e6" using total_jobs_good [of "e5\<lparr>e_total_jobs_ct := e_total_jobs_ct e5 + 1\<rparr>" tid] q(2) by simp
    moreover have "grows e ?e6"
    proof -
      have wc: "waiting_conns ?e6 = waiting_conns e5" by (rule conn_sets_same(3)) simp
      have "pot ?e6 \<le> pot e" using df(1) pot4 pe by (simp add: pot_def wc)
      moreover have "unat (e_next_job_id ?e6) \<le> Suc (unat (e_next_job_id e))"
        using g1(2) by (simp add: grows_def df same4 um same2)
      moreover have "card (dom (e_conns ?e6)) \<le> Suc (card (dom (e_conns e)))"
        using g1(2) df(3) um(3) by (simp add: grows_def same4 same2)
      ultimately show ?thesis by (simp add: grows_def)
    qed
    ultimately show ?thesis
      using False q(1) unfolding e4_def e3_def
      by (cases "delay > 0") (simp_all add: cmd_put_def tp tid_def [symmetric] job_def [symmetric] e2_def [symmetric]
          reply_eq Let_def)
  qed
qed

section \<open>Reserve\<close>

lemma connsetworker_good:
  assumes g: "good e"
  shows "good (connsetworker cid e)" "meta_still (connsetworker cid e) e"
proof -
  show m: "meta_still (connsetworker cid e) e" by (rule meta_still_steps)
  have "inv {} {} {} e" using g by (simp add: good_def)
  then have "conn_counts_ok e" "pending_ok e" by (simp_all add: inv_def)
  moreover have "e_jobs (connsetworker cid e) = e_jobs e" using m by (simp add: meta_still_def)
  ultimately have "conn_counts_ok (connsetworker cid e)" "pending_ok (connsetworker cid e)"
    by (simp_all add: conn_counts_steps pending_ok_def)
  with good_meta [OF g m] show "good (connsetworker cid e)" by simp
qed

lemma meta_grows: "meta_still e1 e \<Longrightarrow> e_next_job_id e1 = e_next_job_id e \<Longrightarrow> grows e1 e' = grows e e'"
proof -
  assume m: "meta_still e1 e" and n: "e_next_job_id e1 = e_next_job_id e"
  have "cv c_waiting e1 = cv c_waiting e" using m by (simp add: meta_still_def)
  from dom_cv [OF this] meta_pot [OF m] n show ?thesis by (simp add: grows_def)
qed

lemma cmd_reserve_good:
  assumes g: "good e" and c: "e_conns e cid = Some c" "\<not> c_waiting c" and pot: "pot e < 2 ^ 63"
  shows "returns (cmd_reserve now cid timeout (e, out)) (\<lambda>(e', out'). good e' \<and> grows e e')"
proof -
  define e0 where "e0 = (case timeout of
      None \<Rightarrow> count_op (\<lambda>c. c\<lparr>o_reserve := o_reserve c + 1\<rparr>) e
    | Some _ \<Rightarrow> count_op (\<lambda>c. c\<lparr>o_reserve_with_timeout := o_reserve_with_timeout c + 1\<rparr>) e)"
  define e1 where "e1 = connsetworker cid e0"
  have g0: "good e0" "meta_still e0 e" "e_next_job_id e0 = e_next_job_id e"
    using g by (simp_all add: e0_def meta_still_steps split: option.split)
  from connsetworker_good [OF g0(1), of cid] have g1: "good e1" "meta_still e1 e"
    unfolding e1_def using meta_still_trans g0(2) by blast+
  have n1: "e_next_job_id e1 = e_next_job_id e" by (simp add: e1_def g0)
  have cw: "cv c_waiting e1 = cv c_waiting e" using g1(2) by (simp add: meta_still_def)
  from cv_SomeD [OF cw [symmetric] c(1)] c(2) obtain c1 where c1: "e_conns e1 cid = Some c1" "\<not> c_waiting c1" by auto
  have inv1: "inv {} {} {} e1" and w1: "watching e1" using g1 by (simp_all add: good_def)
  have pot1: "pot e1 = pot e" by (rule meta_pot [OF g1(2)])
  note gr = meta_grows [OF g1(2) n1]
  show ?thesis
  proof (cases "conn_deadline_soon cid now e1 \<and> \<not> conn_ready cid e1")
    case True
    have "grows e e1" using gr grows_refl by blast
    with True g1 show ?thesis
      by (simp add: cmd_reserve_def e0_def [symmetric] e1_def [symmetric] reply_eq Let_def)
  next
    case False
    let ?wd = "map_option (\<lambda>t. sat_add now (secs t)) timeout"
    define e2 where "e2 = enqueue_waiting_conn cid ?wd e1"
    have inv2: "inv {} {} {} e2" unfolding e2_def by (rule enqueue_waiting_conn_inv [OF inv1 c1])
    have st: "still e2 e1" unfolding e2_def by (rule enqueue_still [OF c1(1)])
    have w2: "watching e2" by (rule watching_frame [OF w1]) (use st in \<open>simp add: still_def\<close>)
    have wc: "waiting_conns e2 = insert cid (waiting_conns e1)"
      by (auto simp: waiting_conns_def e2_def enqueue_waiting_conn_obs [OF c1(1)] split: if_splits)
    have "card (waiting_conns e2) \<le> Suc (card (waiting_conns e1))" unfolding wc by (rule card_insert_le_m1) simp_all
    then have pot2: "pot e2 \<le> Suc (pot e1)" using st by (simp add: pot_def still_def)
    from process_queue_good [OF inv2 w2, of now out] pot pot1 pot2 obtain e3 out3 where
      q: "process_queue now (e2, out) = Some (e3, out3)" "good e3" "dispatched now e2 e3" by (auto simp: returns_def)
    note df = dispatched_facts [OF q(3)]
    have f3: "pot e3 \<le> Suc (pot e)" "e_next_job_id e3 = e_next_job_id e" "dom (e_conns e3) = dom (e_conns e)"
      using df pot1 pot2 st n1 dom_cv [OF cw] cv_dom [of c_watch e2 e1] by (simp_all add: still_def)
    let ?e4 = "do_remove_waiting_conn cid e3"
    have r4: "good ?e4" "pot ?e4 \<le> pot e3" "still ?e4 e3" using remove_waiting_good [OF q(2), of cid] by simp_all
    have g3: "good e3 \<and> grows e e3" using q(2) f3 by (simp add: grows_def)
    have g4: "good ?e4 \<and> grows e ?e4"
      using r4 f3 cv_dom [of c_watch ?e4 e3] by (simp add: grows_def still_def)
    have "cmd_reserve now cid timeout (e, out) =
        Some (if timeout = Some 0 \<and> conn_is_waiting cid e3
              then reply cid (if conn_deadline_soon cid now e3 then RDeadlineSoon else RTimedOut) (?e4, out3)
              else (e3, out3))"
      unfolding cmd_reserve_def Let_def prod.case e0_def [symmetric] e1_def [symmetric] e2_def [symmetric]
      by (simp only: False if_False q(1)) simp
    with g3 g4 show ?thesis by (simp add: reply_eq)
  qed
qed

lemma cmd_reserve_job_good:
  assumes g: "good e" and c: "e_conns e cid = Some c" and pot: "pot e < 2 ^ 63"
    and r: "cmd_reserve_job now cid jid (e, out) = (e', out')"
  shows "good e' \<and> grows e e'"
proof (cases "\<exists>j. e_jobs e jid = Some j \<and> j_state j \<noteq> Reserved")
  case False
  then have "e' = e"
    using r by (auto simp: cmd_reserve_job_def reply_eq split: option.splits)
  with g show ?thesis by simp
next
  case True
  then obtain j where j: "e_jobs e jid = Some j" "j_state j \<noteq> Reserved" by blast
  have inv: "inv {} {} {} e" and q: "quiet e" and w: "watching e" using g by (simp_all add: good_def)
  define e1 where "e1 = remove_from_queue (j_state j) (j_tube j) jid e"
  have out: "takes_out jid {} {} j e e1"
    using j remove_ready_step [OF inv j(1)] remove_delayed_step [OF inv j(1)] remove_buried_step [OF inv j(1)]
    by (cases "j_state j") (simp_all add: e1_def remove_from_queue_def)
  note o = takes_outD [OF out]
  define e2 where "e2 = connsetworker cid e1"
  have m2: "meta_still e2 e1" unfolding e2_def by (rule meta_still_steps)
  have i2: "inv {jid} {} {} e2"
  proof (rule inv_meta [OF o(1) m2])
    have "conn_counts_ok e1" "pending_ok e1" using o(1) by (simp_all add: inv_def)
    moreover have "e_jobs e2 = e_jobs e1" using m2 by (simp add: meta_still_def)
    ultimately show "conn_counts_ok e2" "pending_ok e2"
      by (simp_all add: e2_def conn_counts_steps pending_ok_def)
  qed (simp add: e2_def)
  have j2: "e_jobs e2 jid = Some j" using o(2) m2 by (simp add: meta_still_def)
  have cw: "cv c_waiting e2 = cv c_waiting e" using m2 o(3) by (simp add: meta_still_def unmoved_def)
  from cv_SomeD [OF cw [symmetric] c] obtain c2 where c2: "e_conns e2 cid = Some c2" by auto
  from inv_tube [OF i2 j2] obtain t where t: "tube e2 (j_tube j) = Some t" .
  have seq: "e_next_list_seq e2 = e_next_list_seq e" using o(5) m2 by (simp add: meta_still_def)
  have lt: "unat (e_next_list_seq e) < 2 ^ 63" using pot by (simp add: pot_def)
  note room = id_room [OF lt]
  have "e_next_list_seq e2 \<noteq> - 1" using lt by (auto simp: seq unsigned_minus_1_eq_mask mask_eq_exp_minus_1)
  note i3 = do_reserve_inv [OF i2 j2 c2 this, of now]
  let ?e3 = "do_reserve cid jid now e2"
  note obs = do_reserve_obs [OF j2 t c2, of now]
  note um = unmoved_facts [OF do_reserve_unmoved [OF j2 t c2, of now]]
  have e': "e' = ?e3"
    using r j by (simp add: cmd_reserve_job_def e1_def [symmetric] e2_def [symmetric] reply_with_eq Let_def)
  have "good ?e3 \<and> grows e ?e3"
  proof (rule good_grows [OF g i3])
    have "shrunk ?e3 e2" by (rule shrunk_views) (simp_all add: view_simps obs t)
    moreover have "shrunk e2 e1" by (rule shrunk_tubes) (use m2 in \<open>simp add: meta_still_def\<close>)
    ultimately show "shrunk ?e3 e" using o(4) by (blast intro: shrunk_trans)
    have "cv c_watch e2 = cv c_watch e" using m2 o(3) by (simp add: meta_still_def unmoved_def)
    then have "watching e2" by (rule watching_frame [OF w])
    then show "watching ?e3" using um(2) by simp
    show "dom (e_conns ?e3) = dom (e_conns e)" using um(3) dom_cv [OF cw] by simp
    have "unat (e_next_list_seq ?e3) = Suc (unat (e_next_list_seq e))" using room(1) by (simp add: obs(5) seq)
    moreover have "waiting_conns ?e3 = waiting_conns e" using um(1) waiting_conns_cong [OF cw] by simp
    ultimately show "pot ?e3 \<le> Suc (pot e)" by (simp add: pot_def)
    have "e_next_job_id e1 = e_next_job_id e" using o(3) by (simp add: unmoved_def)
    then show "unat (e_next_job_id ?e3) \<le> Suc (unat (e_next_job_id e))" using um(4) by (simp add: e2_def)
  qed
  with e' show ?thesis by simp
qed

section \<open>Delete, release, bury\<close>

lemma reserved_byD:
  assumes "reserved_by cid jid e = Some tid"
  obtains j where "e_jobs e jid = Some j" "j_reserver j = Some cid" "j_tube j = tid"
  using assms by (auto simp: reserved_by_def split: option.splits if_splits)

lemma cmd_delete_out:
  assumes g: "good e" and j: "e_jobs e jid = Some j"
    and ok: "j_state j \<noteq> Reserved \<or> j_reserver j = Some cid"
    and e1: "e1 = (case j_state j of Reserved \<Rightarrow> do_unreserve cid jid e | Ready \<Rightarrow> remove_ready (j_tube j) jid e
      | Buried \<Rightarrow> snd (remove_buried (j_tube j) jid e) | Delayed \<Rightarrow> remove_delayed (j_tube j) jid e)"
  shows "\<exists>j'. takes_out jid {} {} j' e e1 \<and> j_tube j' = j_tube j"
proof -
  have inv: "inv {} {} {} e" using g by (simp add: good_def)
  show ?thesis
  proof (cases "j_state j")
    case Reserved
    with do_unreserve_step [OF inv j, of cid] ok e1 show ?thesis by fastforce
  qed (use remove_ready_step [OF inv j] remove_delayed_step [OF inv j] remove_buried_step [OF inv j] e1 in auto)
qed

lemma cmd_delete_good:
  assumes g: "good e" and small: "unat (e_next_job_id e) < 2 ^ 63"
  shows "returns (cmd_delete cid jid (e, out)) (\<lambda>(e', out'). good e' \<and> grows e e')"
proof -
  define e0 where "e0 = count_op (\<lambda>c. c\<lparr>o_delete := o_delete c + 1\<rparr>) e"
  have g0: "good e0" "unat (e_next_job_id e0) < 2 ^ 63" and gr: "\<And>e'. grows e0 e' = grows e e'" and j0: "e_jobs e0 = e_jobs e"
    using g small by (simp_all add: e0_def)
  show ?thesis
  proof (cases "\<exists>j. e_jobs e0 jid = Some j \<and> (j_state j \<noteq> Reserved \<or> j_reserver j = Some cid)")
    case False
    then have "cmd_delete cid jid (e, out) = Some (reply cid RNotFound (e0, out))"
      unfolding j0 by (cases "e_jobs e jid") (auto simp: cmd_delete_def e0_def)
    moreover have "grows e e0" using gr grows_refl by blast
    ultimately show ?thesis using g0 by (simp add: reply_eq)
  next
    case True
    then obtain j where j: "e_jobs e0 jid = Some j" "j_state j \<noteq> Reserved \<or> j_reserver j = Some cid" by blast
    define e1 where "e1 = (case j_state j of Reserved \<Rightarrow> do_unreserve cid jid e0 | Ready \<Rightarrow> remove_ready (j_tube j) jid e0
      | Buried \<Rightarrow> snd (remove_buried (j_tube j) jid e0) | Delayed \<Rightarrow> remove_delayed (j_tube j) jid e0)"
    from cmd_delete_out [OF g0(1) j e1_def] obtain j' where o: "takes_out jid {} {} j' e0 e1" "j_tube j' = j_tube j" by blast
    note od = takes_outD [OF o(1)]
    let ?f = "\<lambda>t. (stat_mut (\<lambda>s. s\<lparr>s_total_delete_ct := s_total_delete_ct s + 1\<rparr>) t)\<lparr>t_job_ref_ct := sat_sub (t_job_ref_ct t) 1\<rparr>"
    from inv_tube [OF od(1,2)] o(2) obtain t where t: "tube e1 (j_tube j) = Some t" by auto
    define e2 where "e2 = (tube_mut (j_tube j) ?f e1)\<lparr>e_jobs := (e_jobs e1)(jid := None)\<rparr>"
    have i2: "inv {} {} {j_tube j} e2"
      using del_job_inv [OF od(1,2), of ?f t] t o(2) by (simp add: e2_def)
    define e3 where "e3 = journal_delete jid e2"
    have i3: "inv {} {} {j_tube j} e3" using i2 by (simp add: e3_def)
    have e3: "tube e3 = tube e2" "e_conns e3 = e_conns e2" "e_next_job_id e3 = e_next_job_id e2"
      "e_next_list_seq e3 = e_next_list_seq e2"
      by (simp_all add: e3_def journal_delete_def)
    note um = unmoved_facts [OF od(3)]
    have "unat (e_next_job_id e3) < 2 ^ 63" using g0(2) by (simp add: e3 e2_def um)
    from gc_tube_if_orphan_inv [OF i3 this, of "j_tube j"] obtain e4 where
      gc: "gc_tube_if_orphan (j_tube j) e3 = Some e4" and i4: "inv {} {} {} e4" and cu: "culled e4 e3"
      by (auto simp: returns_def)
    note cc = culled_conns [OF cu]
    have "good e4 \<and> grows e0 e4"
    proof (rule good_grows [OF g0(1) i4])
      have "shrunk e2 e1" by (rule shrunk_views) (simp_all add: view_simps e2_def t)
      then have "shrunk e3 e1" by (simp add: shrunk_def e3(1))
      then show "shrunk e4 e0" using shrunk_culled [OF cu] od(4) by (blast intro: shrunk_trans)
      have cv: "e_conns e4 = e_conns e1" by (simp add: cc e3 e2_def)
      then show "watching e4" using um(2) g0(1) by (simp add: good_def watching_def)
      show "dom (e_conns e4) = dom (e_conns e0)" using cv um(3) by simp
      have "waiting_conns e4 = waiting_conns e1" by (rule conn_sets_same(3) [OF cv])
      then show "pot e4 \<le> Suc (pot e0)" using um(1) od(5) by (simp add: pot_def cc e3 e2_def)
      show "unat (e_next_job_id e4) \<le> Suc (unat (e_next_job_id e0))" by (simp add: cc e3 e2_def um)
    qed
    moreover have "cmd_delete cid jid (e, out) = Some (reply cid RDeleted (e4, out))"
    proof -
      have jj: "e_jobs e jid = Some j" using j(1) by (simp add: j0)
      have b: "(case j_state j of
            Reserved \<Rightarrow> if j_reserver j = Some cid then (True, do_unreserve cid jid e0) else (False, e0)
          | Ready \<Rightarrow> (True, remove_ready (j_tube j) jid e0)
          | Buried \<Rightarrow> (True, snd (remove_buried (j_tube j) jid e0))
          | Delayed \<Rightarrow> (True, remove_delayed (j_tube j) jid e0)) = (True, e1)"
        using j(2) by (cases "j_state j") (simp_all add: e1_def)
      have e2: "(tube_mut (j_tube j) ?f e1)\<lparr>e_jobs := (e_jobs (tube_mut (j_tube j) ?f e1))(jid := None)\<rparr> = e2"
        by (simp add: e2_def)
      show ?thesis
        unfolding cmd_delete_def Let_def prod.case e0_def [symmetric] j(1) option.case b
        by (simp only: prod.case not_True_eq_False if_False e2 e3_def [symmetric] gc) simp
    qed
    ultimately show ?thesis by (simp add: reply_eq gr)
  qed
qed

lemma cmd_release_good:
  assumes g: "good e" and pot: "pot e < 2 ^ 63"
  shows "returns (cmd_release now cid jid pri delay (e, out)) (\<lambda>(e', out'). good e' \<and> grows e e')"
proof -
  define e0 where "e0 = count_op (\<lambda>c. c\<lparr>o_release := o_release c + 1\<rparr>) e"
  have g0: "good e0" "pot e0 < 2 ^ 63" and gr: "\<And>e'. grows e0 e' = grows e e'"
    using g pot by (simp_all add: e0_def pot_def waiting_conns_def)
  show ?thesis
  proof (cases "reserved_by cid jid e0")
    case None
    have "grows e e0" using gr grows_refl by blast
    with None g0 show ?thesis by (simp add: cmd_release_def e0_def [symmetric] reply_eq Let_def)
  next
    case (Some tid)
    from reserved_byD [OF Some] obtain j where j: "e_jobs e0 jid = Some j" "j_reserver j = Some cid" "j_tube j = tid" .
    have inv: "inv {} {} {} e0" and w: "watching e0" using g0 by (simp_all add: good_def)
    let ?f = "\<lambda>j. j\<lparr>j_pri := pri, j_delay := delay, j_release_ct := j_release_ct j + 1\<rparr>"
    define e1 where "e1 = job_mut jid ?f (do_unreserve cid jid e0)"
    have o: "takes_out jid {} {} (?f (j\<lparr>j_reserver := None\<rparr>)) e0 e1"
      unfolding e1_def by (rule takes_out_mut [OF do_unreserve_step [OF inv j(1,2)]]) simp_all
    note od = takes_outD [OF o]
    define e2 where "e2 = (if delay > 0 then insert_delayed tid jid (sat_add now (secs delay)) e1 else insert_ready tid jid e1)"
    define e3 where "e3 = (if delay > 0 then journal_update jid e2 else e2)"
    from insert_ready_step [OF od(1,2)] insert_delayed_step [OF od(1,2), of "sat_add now (secs delay)"] j(3)
    have "\<exists>j'. puts_in jid {} {} j' e1 e2" by (auto simp: e2_def)
    then obtain j' where p: "puts_in jid {} {} j' e1 e2" by blast
    note op = takes_out_puts_in [OF o p]
    note um = unmoved_facts [OF op(2)]
    have i3: "inv {} {} {} e3" using op(1) by (simp add: e3_def)
    have s3: "e_conns e3 = e_conns e2" "e_next_list_seq e3 = e_next_list_seq e2" "e_next_job_id e3 = e_next_job_id e2"
      by (simp_all add: e3_def journal_update_def split: option.split)
    have w3: "watching e3" using w um(2) by (simp add: watching_def s3)
    have "waiting_conns e3 = waiting_conns e2" by (rule conn_sets_same(3) [OF s3(1)])
    then have pot3: "pot e3 = pot e0" using um(6) [OF op(3)] by (simp add: pot_def s3)
    from process_queue_good [OF i3 w3, of now out] g0(2) pot3 obtain e4 out4 where
      q: "process_queue now (e3, out) = Some (e4, out4)" "good e4" "dispatched now e3 e4" by (auto simp: returns_def)
    note df = dispatched_facts [OF q(3)]
    have "grows e0 e4" using df(1-3) pot3 um s3 by (simp add: grows_def)
    moreover have "cmd_release now cid jid pri delay (e, out) = Some (reply cid RReleased (e4, out4))"
      using q(1) Some unfolding e3_def e2_def
      by (cases "delay > 0") (simp_all add: cmd_release_def e0_def [symmetric] e1_def [symmetric] Let_def)
    ultimately show ?thesis using q(2) by (simp add: reply_eq gr)
  qed
qed

lemma cmd_bury_good:
  assumes g: "good e" and pot: "pot e < 2 ^ 63" and r: "cmd_bury cid jid pri (e, out) = (e', out')"
  shows "good e' \<and> grows e e'"
proof -
  define e0 where "e0 = count_op (\<lambda>c. c\<lparr>o_bury := o_bury c + 1\<rparr>) e"
  have g0: "good e0" "pot e0 < 2 ^ 63" and gr: "\<And>e'. grows e0 e' = grows e e'"
    using g pot by (simp_all add: e0_def pot_def waiting_conns_def)
  show ?thesis
  proof (cases "reserved_by cid jid e0")
    case None
    have "grows e e0" using gr grows_refl by blast
    moreover have "e' = e0" using r None by (simp add: cmd_bury_def e0_def [symmetric] reply_eq Let_def)
    ultimately show ?thesis using g0 by simp
  next
    case (Some tid)
    from reserved_byD [OF Some] obtain j where j: "e_jobs e0 jid = Some j" "j_reserver j = Some cid" "j_tube j = tid" .
    have inv: "inv {} {} {} e0" and w: "watching e0" using g0 by (simp_all add: good_def)
    let ?f = "\<lambda>j. j\<lparr>j_pri := pri\<rparr>"
    define e1 where "e1 = job_mut jid ?f (do_unreserve cid jid e0)"
    have o: "takes_out jid {} {} (?f (j\<lparr>j_reserver := None\<rparr>)) e0 e1"
      unfolding e1_def by (rule takes_out_mut [OF do_unreserve_step [OF inv j(1,2)]]) simp_all
    note od = takes_outD [OF o]
    define e2 where "e2 = insert_buried tid jid e1"
    have lt: "unat (e_next_list_seq e1) < 2 ^ 63" using g0(2) by (simp add: pot_def od(5))
    have "e_next_list_seq e1 \<noteq> - 1" using lt by (auto simp: unsigned_minus_1_eq_mask mask_eq_exp_minus_1)
    from insert_buried_inv [OF od(1,2) this] j(3) have i2: "inv {} {} {} e2" by (simp add: e2_def)
    from inv_tube [OF od(1,2)] j(3) obtain t where t: "tube e1 tid = Some t" by auto
    note um1 = unmoved_facts [OF od(3)]
    have u2: "unmoved e2 e1" unfolding e2_def by (rule insert_buried_unmoved [OF od(2) t])
    note um2 = unmoved_facts [OF u2]
    note obs = insert_buried_obs [OF od(2) t, folded e2_def]
    have e': "e' = journal_update jid e2"
      using r Some by (simp add: cmd_bury_def e0_def [symmetric] e1_def [symmetric] e2_def [symmetric] reply_eq Let_def)
    have s3: "e_conns e' = e_conns e2" "e_next_list_seq e' = e_next_list_seq e2" "e_next_job_id e' = e_next_job_id e2"
      "e_tubes e' = e_tubes e2"
      by (simp_all add: e' journal_update_def split: option.split)
    have "good e' \<and> grows e0 e'"
    proof (rule good_grows [OF g0(1)])
      show "inv {} {} {} e'" using i2 by (simp add: e')
      have "shrunk e2 e1" by (rule shrunk_views) (simp_all add: view_simps obs t)
      then show "shrunk e' e0" using shrunk_tubes [OF s3(4)] od(4) by (blast intro: shrunk_trans)
      show "watching e'" using w um1(2) um2(2) by (simp add: watching_def s3)
      have wc: "waiting_conns e' = waiting_conns e2" by (rule conn_sets_same(3) [OF s3(1)])
      have "unat (e_next_list_seq e2) = Suc (unat (e_next_list_seq e0))" using id_room(1) [OF lt] by (simp add: obs(4) od(5))
      then show "pot e' \<le> Suc (pot e0)" by (simp add: pot_def s3 wc um2(1) um1(1))
      show "unat (e_next_job_id e') \<le> Suc (unat (e_next_job_id e0))" by (simp add: s3 um1 um2)
      show "dom (e_conns e') = dom (e_conns e0)" by (simp add: s3 um1 um2)
    qed
    then show ?thesis by (simp add: gr)
  qed
qed

end
