(* ===== verification/Engine_Steps.thy ===== *)
theory Engine_Steps
  imports Engine_Handlers
begin

text \<open>
  The remaining handlers (\<open>touch\<close>, \<open>kick\<close>, \<open>pause-tube\<close> and the read-only commands), the three loops of
  \<open>tick\<close>, and \<open>apply_input\<close>: every input returns and takes a good state to a good state.
\<close>

section \<open>Touch\<close>

lemma touch_inv:
  fixes nd :: nanos
  assumes inv: "inv {} W G e" and j: "e_jobs e jid = Some j" and r: "j_reserver j = Some cid"
  defines "e' \<equiv> refresh_conn_tick cid (conn_mut cid (\<lambda>c. c\<lparr>c_reserved_by_deadline :=
      insert (nd, jid) (c_reserved_by_deadline c - {(j_deadline_at j, jid)})\<rparr>)
    (job_mut jid (\<lambda>j. j\<lparr>j_deadline_at := nd\<rparr>) e))"
  shows "inv {} W G e'" "unmoved e' e" "tube e' = tube e" "e_next_list_seq e' = e_next_list_seq e"
proof -
  from reserved_entry [OF inv j r] obtain c where c: "e_conns e cid = Some c" and s: "j_state j = Reserved" by blast
  let ?j = "j\<lparr>j_deadline_at := nd\<rparr>"
  let ?c = "c\<lparr>c_reserved_by_deadline := insert (nd, jid) (c_reserved_by_deadline c - {(j_deadline_at j, jid)})\<rparr>"
  have jobs: "e_jobs e' = (e_jobs e)(jid \<mapsto> ?j)" and conns: "e_conns e' = (e_conns e)(cid \<mapsto> ?c\<lparr>c_tick_key := conn_tickat ?c\<rparr>)"
    by (simp_all add: e'_def j c)
  show te: "tube e' = tube e" and seq: "e_next_list_seq e' = e_next_list_seq e" by (simp_all add: e'_def)
  have tv: "tv pr e' = tv pr e" for pr :: "tube_state \<Rightarrow> 'b" by (rule tv_cong [OF te])
  show p: "unmoved e' e" by (simp add: unmoved_def tv) (simp add: view_simps jobs conns j c e'_def)
  let ?f = "\<lambda>(i, k). (i, if i = jid then ?j else k)"
  have st: "jobs_st {} e' x = ?f ` jobs_st {} e x" for x
    using j by (force simp: jobs_st_def jobs image_iff split: if_splits)
  have mem: "(i, k) \<in> jobs_st {} e' x \<longleftrightarrow> (if i = jid then k = ?j \<and> x = Reserved else (i, k) \<in> jobs_st {} e x)" for i k x
    using j s by (auto simp: jobs_st_def jobs)
  have other: "jobs_st {} e' x = jobs_st {} e x" if "x \<noteq> Reserved" for x
    using that j s by (auto simp: jobs_st_def jobs split: if_splits)
  have ok: "reserved_ok {} e" and sq: "seq_ok {} e" using inv by (simp_all add: inv_def)
  show "inv {} W G e'"
  proof (rule inv_move [OF inv p])
    show "jobs_ok {} e'" by (rule jobs_ok_change [OF inv_jobs [OF inv] p jobs j]) (use r s c in auto)
    have "keyed_jobs {} e' = ?f ` keyed_jobs {} e" by (simp add: keyed_jobs_def st image_Un)
    moreover have "(\<lambda>x. j_list_seq (snd x)) (?f x) = j_list_seq (snd x)" if "x \<in> keyed_jobs {} e" for x
      using that j by (cases x) (auto simp: keyed_jobs_def jobs_st_def)
    ultimately show "seq_ok {} e'"
      using sq unfolding seq_ok_def seq
      by (auto intro!: inj_on_imageI simp: comp_def inj_on_def)
    show "ready_ok {} e'" by (rule ready_frame [of "{}" e]) (use inv in \<open>simp_all add: inv_def other tv\<close>, simp_all add: e'_def)
    show "delayed_ok {} e'" by (rule delayed_frame [of "{}" e]) (use inv in \<open>simp_all add: inv_def other tv\<close>, simp_all add: e'_def)
    show "buried_ok {} e'" by (rule buried_frame [of "{}" e]) (use inv in \<open>simp_all add: inv_def other tv\<close>, simp_all add: e'_def)
    have cnt: "jobs_in {} e' Reserved P = jobs_in {} e Reserved P" if "P ?j = P j" for P
      using that j s by (auto simp: jobs_in_def jobs_st_def jobs split: if_splits)
    have "(\<forall>q i. c_reserved k q = Some i \<longleftrightarrow>
        (\<exists>l. (i, l) \<in> jobs_st {} e' Reserved \<and> j_reserver l = Some x \<and> j_list_seq l = q)) \<and>
      (\<forall>d i. (d, i) \<in> c_reserved_by_deadline k \<longleftrightarrow>
        (\<exists>l. (i, l) \<in> jobs_st {} e' Reserved \<and> j_reserver l = Some x \<and> j_deadline_at l = d))"
      if k: "e_conns e' x = Some k" for x k
    proof -
      obtain k0 where k0: "e_conns e x = Some k0" "c_reserved k = c_reserved k0"
        "c_reserved_by_deadline k = (if x = cid then insert (nd, jid) (c_reserved_by_deadline k0 - {(j_deadline_at j, jid)})
           else c_reserved_by_deadline k0)"
        using k c by (auto simp: conns split: if_splits)
      note rc = reserved_connD [OF ok k0(1)]
      have jr: "(jid, l) \<in> jobs_st {} e Reserved \<longleftrightarrow> l = j" for l using j s by (auto simp: jobs_st_def)
      show ?thesis
      proof (intro conjI allI)
        fix q i
        show "c_reserved k q = Some i \<longleftrightarrow>
          (\<exists>l. (i, l) \<in> jobs_st {} e' Reserved \<and> j_reserver l = Some x \<and> j_list_seq l = q)"
          using rc jr by (cases "i = jid") (auto simp: k0(2) mem)
      next
        fix d i
        show "(d, i) \<in> c_reserved_by_deadline k \<longleftrightarrow>
          (\<exists>l. (i, l) \<in> jobs_st {} e' Reserved \<and> j_reserver l = Some x \<and> j_deadline_at l = d)"
          using rc jr r by (cases "i = jid"; cases "x = cid") (auto simp: k0(3) mem)
      qed
    qed
    moreover have "s_reserved_ct (t_stat t) = of_nat (card (jobs_in {} e' Reserved (\<lambda>j. j_tube j = x)))"
      if "tube e' x = Some t" for x t
      using reserved_tubeD [OF ok] that by (simp add: te cnt)
    moreover have "e_reserved_ct e' = of_nat (card (jobs_in {} e' Reserved (\<lambda>j. True)))"
      using ok by (simp add: reserved_ok_def cnt) (simp add: e'_def)
    ultimately show "reserved_ok {} e'" by (simp add: reserved_ok_def)
    show "index_ok e'"
      unfolding index_ok_pre e'_def
      by (rule pre_index_refresh_conn_tick, rule pre_index_frame [of "{}" "{}" "{}" e])
        (use inv in \<open>simp_all add: inv_def index_ok_pre view_simps c\<close>)
  qed
qed

lemma cmd_touch_good:
  assumes g: "good e" and r: "cmd_touch now cid jid (e, out) = (e', out')"
  shows "good e' \<and> grows e e'"
proof -
  define e0 where "e0 = count_op (\<lambda>c. c\<lparr>o_touch := o_touch c + 1\<rparr>) e"
  have g0: "good e0" and gr: "\<And>e'. grows e0 e' = grows e e'" using g by (simp_all add: e0_def)
  show ?thesis
  proof (cases "reserved_by cid jid e0")
    case None
    have "grows e e0" using gr grows_refl by blast
    moreover have "e' = e0" using r None by (simp add: cmd_touch_def e0_def [symmetric] reply_eq Let_def)
    ultimately show ?thesis using g0 by simp
  next
    case (Some tid)
    from reserved_byD [OF Some] obtain j where j: "e_jobs e0 jid = Some j" "j_reserver j = Some cid" "j_tube j = tid" .
    have inv: "inv {} {} {} e0" and w: "watching e0" using g0 by (simp_all add: good_def)
    let ?nd = "sat_add now (secs (j_ttr j))"
    define e1 where "e1 = refresh_conn_tick cid (conn_mut cid (\<lambda>c. c\<lparr>c_reserved_by_deadline :=
      insert (?nd, jid) (c_reserved_by_deadline c - {(j_deadline_at j, jid)})\<rparr>)
      (job_mut jid (\<lambda>j. j\<lparr>j_deadline_at := ?nd\<rparr>) e0))"
    note t = touch_inv [OF inv j(1,2), of ?nd, folded e1_def]
    note um = unmoved_facts [OF t(2)]
    have "e' = e1"
      using r Some by (simp add: cmd_touch_def e0_def [symmetric] j(1) e1_def reply_eq Let_def)
    moreover have "good e1 \<and> grows e0 e1"
      by (rule good_grows [OF g0 t(1)]) (use w um um(6) [OF t(4)] in \<open>simp_all add: shrunk_def t(3)\<close>)
    ultimately show ?thesis by (simp add: gr)
  qed
qed

section \<open>Kick\<close>

text \<open>A step that consumes nothing: no list key, no job id, no connection.\<close>

definition settles :: "engine \<Rightarrow> engine \<Rightarrow> bool" where
  "settles e e' \<longleftrightarrow> good e' \<and> pot e' \<le> pot e \<and> e_next_job_id e' = e_next_job_id e \<and> dom (e_conns e') = dom (e_conns e)"

lemma settles_refl: "good e \<Longrightarrow> settles e e"
  by (simp add: settles_def)

lemma settles_trans: "settles e e' \<Longrightarrow> settles e' e'' \<Longrightarrow> settles e e''"
  by (simp add: settles_def)

lemma settles_grows: "settles e e' \<Longrightarrow> good e' \<and> grows e e'"
  by (simp add: settles_def grows_def)

text \<open>Taking a job out of a queue and making it ready, through the dispatcher.\<close>

lemma ready_and_dispatch:
  assumes g: "good e" and pot: "pot e < 2 ^ 64" and o: "takes_out jid {} {} j e e1"
    and e2: "e2 = insert_ready (j_tube j) jid e1 \<or> e2 = journal_update jid (insert_ready (j_tube j) jid e1)"
  shows "returns (process_queue now (e2, out)) (\<lambda>(e', out'). settles e e' \<and> dispatched now e2 e')"
    and "e_jobs e2 = (e_jobs e)(jid \<mapsto> j\<lparr>j_state := Ready, j_reserver := None\<rparr>)" "inv {} {} {} e2"
    "waiting_conns e2 = waiting_conns e" "cv c_wait_deadline e2 = cv c_wait_deadline e"
proof -
  have w: "watching e" using g by (simp add: good_def)
  note od = takes_outD [OF o]
  note op = takes_out_puts_in [OF o insert_ready_step [OF od(1,2)]]
  note um = unmoved_facts [OF op(2)]
  let ?r = "insert_ready (j_tube j) jid e1"
  have same: "e_conns e2 = e_conns ?r" "e_next_list_seq e2 = e_next_list_seq ?r" "e_next_job_id e2 = e_next_job_id ?r"
    "e_jobs e2 = e_jobs ?r"
    using e2 by (auto simp: journal_update_def split: option.split)
  show jobs: "e_jobs e2 = (e_jobs e)(jid \<mapsto> j\<lparr>j_state := Ready, j_reserver := None\<rparr>)" by (simp add: same op(4))
  show i2: "inv {} {} {} e2" using e2 op(1) by auto
  have "waiting_conns e2 = waiting_conns ?r" by (rule conn_sets_same(3) [OF same(1)])
  then show wc: "waiting_conns e2 = waiting_conns e" using um(1) by simp
  have "cv c_wait_deadline e2 = cv c_wait_deadline ?r" by (rule cv_same [OF same(1)])
  then show "cv c_wait_deadline e2 = cv c_wait_deadline e" using op(2) by (simp add: unmoved_def)
  have pot2: "pot e2 = pot e" using wc op(3) by (simp add: pot_def same)
  have w2: "watching e2" using w um(2) by (simp add: watching_def same(1))
  have d2: "dom (e_conns e2) = dom (e_conns e)" "e_next_job_id e2 = e_next_job_id e" using um by (simp_all add: same)
  from process_queue_good [OF i2 w2, of now out] pot pot2 obtain e' out' where
    q: "process_queue now (e2, out) = Some (e', out')" "good e'" "dispatched now e2 e'" by (auto simp: returns_def)
  from dispatched_facts [OF q(3)] q(2) d2 pot2 have "settles e e'" by (simp add: settles_def)
  with q show "returns (process_queue now (e2, out)) (\<lambda>(e', out'). settles e e' \<and> dispatched now e2 e')" by simp
qed

lemma kick_to_ready_good:
  assumes g: "good e" and pot: "pot e < 2 ^ 64" and o: "takes_out jid {} {} j e e1" and r: "j_reserver j = None"
  shows "returns (kick_to_ready (j_tube j) jid now (e1, out)) (\<lambda>(e', out'). settles e e')"
proof -
  let ?f = "\<lambda>j :: job_rec. j\<lparr>j_kick_ct := j_kick_ct j + 1\<rparr>"
  have o2: "takes_out jid {} {} (?f j) e (job_mut jid ?f e1)" by (rule takes_out_mut [OF o]) (simp_all add: r)
  from ready_and_dispatch(1) [OF g pot o2 disjI2 [OF refl], of now out] show ?thesis
    by (simp add: kick_to_ready_def Let_def) (auto elim!: returns_mono)
qed

lemma not_reserved_reserver:
  "inv {} W G e \<Longrightarrow> e_jobs e i = Some j \<Longrightarrow> j_state j \<noteq> Reserved \<Longrightarrow> j_reserver j = None"
  using jobs_jobD [OF inv_jobs] by blast

lemma kick_buried_loop_good:
  "good e \<Longrightarrow> pot e < 2 ^ 64 \<Longrightarrow>
   returns (kick_buried_loop n tid now k (e, out)) (\<lambda>(k', e', out'). settles e e')"
proof (induction n arbitrary: k e out)
  case 0
  then show ?case by (simp add: settles_refl)
next
  case (Suc n)
  have inv: "inv {} {} {} e" using Suc.prems(1) by (simp add: good_def)
  show ?case
  proof (cases "tube e tid")
    case None
    then show ?thesis using Suc.prems by (simp add: pop_buried_front_def settles_refl)
  next
    case (Some t)
    show ?thesis
    proof (cases "first_key_value (t_buried t)")
      case None
      with Some show ?thesis using Suc.prems by (simp add: pop_buried_front_def settles_refl)
    next
      case fk: (Some qj)
      obtain q jid where qj: "qj = (q, jid)" by (cases qj)
      then have "t_buried t q = Some jid" using fk by (auto simp: first_key_value_def split: option.splits)
      with inv buried_tubeD [of "{}" e, OF _ Some] obtain j where
        j: "e_jobs e jid = Some j" "j_state j = Buried" "j_tube j = tid" "j_list_seq j = q"
        by (auto simp: inv_def jobs_st_def)
      define e1 where "e1 = snd (remove_buried tid jid e)"
      have pop: "pop_buried_front tid e = (Some jid, e1)"
        unfolding e1_def by (rule pop_buried_front_eq [OF Some _ j(1,4)]) (simp add: fk qj)
      have o: "takes_out jid {} {} j e e1" using remove_buried_step [OF inv j(1,2)] j(3) by (simp add: e1_def)
      have "j_reserver j = None" by (rule not_reserved_reserver [OF inv j(1)]) (simp add: j)
      from kick_to_ready_good [OF Suc.prems o this, of now out] j(3) obtain e2 out2 where
        kr: "kick_to_ready tid jid now (e1, out) = Some (e2, out2)" "settles e e2" by (auto simp: returns_def)
      from kr(2) Suc.prems(2) have g2: "good e2" "pot e2 < 2 ^ 64" by (simp_all add: settles_def)
      from Suc.IH [OF g2, of "k + 1" out2] show ?thesis
        using settles_trans [OF kr(2)] by (auto simp: pop kr(1) elim!: returns_mono)
    qed
  qed
qed

lemma kick_delayed_loop_good:
  "good e \<Longrightarrow> pot e < 2 ^ 64 \<Longrightarrow>
   returns (kick_delayed_loop n tid now k (e, out)) (\<lambda>(k', e', out'). settles e e')"
proof (induction n arbitrary: k e out)
  case 0
  then show ?case by (simp add: settles_refl)
next
  case (Suc n)
  have inv: "inv {} {} {} e" using Suc.prems(1) by (simp add: good_def)
  show ?case
  proof (cases "tube e tid \<bind> (\<lambda>t. first_of (t_delayed t))")
    case None
    then show ?thesis using Suc.prems by (simp add: settles_refl)
  next
    case (Some dj)
    then obtain t d jid where t: "tube e tid = Some t" and f: "first_of (t_delayed t) = Some (d, jid)" and dj: "dj = (d, jid)"
      by (cases dj) (auto simp: bind_eq_Some_conv)
    from first_of_SomeD(1) [OF f] have "(d, jid) \<in> t_delayed t" by simp
    with inv delayed_tubeD [of "{}" e, OF _ t] obtain j where
      j: "e_jobs e jid = Some j" "j_state j = Delayed" "j_tube j = tid" by (auto simp: inv_def jobs_st_def)
    define e1 where "e1 = remove_delayed tid jid e"
    have o: "takes_out jid {} {} j e e1" using remove_delayed_step [OF inv j(1,2)] j(3) by (simp add: e1_def)
    have "j_reserver j = None" by (rule not_reserved_reserver [OF inv j(1)]) (simp add: j)
    from kick_to_ready_good [OF Suc.prems o this, of now out] j(3) obtain e2 out2 where
      kr: "kick_to_ready tid jid now (e1, out) = Some (e2, out2)" "settles e e2" by (auto simp: returns_def)
    from kr(2) Suc.prems(2) have g2: "good e2" "pot e2 < 2 ^ 64" by (simp_all add: settles_def)
    from Suc.IH [OF g2, of "k + 1" out2] show ?thesis
      using settles_trans [OF kr(2)] by (auto simp: Some dj e1_def [symmetric] kr(1) elim!: returns_mono)
  qed
qed

lemma cmd_kick_good:
  assumes g: "good e" and pot: "pot e < 2 ^ 64"
  shows "returns (cmd_kick now cid n (e, out)) (\<lambda>(e', out'). good e' \<and> grows e e')"
proof -
  define e0 where "e0 = count_op (\<lambda>c. c\<lparr>o_kick := o_kick c + 1\<rparr>) e"
  have g0: "good e0" "pot e0 < 2 ^ 64" and gr: "\<And>e'. grows e0 e' = grows e e'"
    using g pot by (simp_all add: e0_def pot_def waiting_conns_def)
  let ?tid = "use_tube_of cid e0"
  let ?b = "case tube e0 ?tid of Some t \<Rightarrow> dom (t_buried t) \<noteq> {} | None \<Rightarrow> False"
  have "returns (if ?b then kick_buried_loop (unat n) ?tid now 0 (e0, out) else kick_delayed_loop (unat n) ?tid now 0 (e0, out))
    (\<lambda>(k', e', out'). settles e0 e')"
    by (simp only: kick_buried_loop_good [OF g0] kick_delayed_loop_good [OF g0] split: if_split) simp
  then obtain k e1 out1 where
    "(if ?b then kick_buried_loop (unat n) ?tid now 0 (e0, out) else kick_delayed_loop (unat n) ?tid now 0 (e0, out)) =
      Some (k, e1, out1)" "settles e0 e1"
    unfolding returns_def by (elim exE conjE) auto
  with settles_grows [of e0 e1] show ?thesis
    unfolding cmd_kick_def Let_def prod.case e0_def [symmetric] by (simp add: reply_eq gr)
qed

lemma cmd_kick_job_good:
  assumes g: "good e" and pot: "pot e < 2 ^ 64"
  shows "returns (cmd_kick_job now cid jid (e, out)) (\<lambda>(e', out'). good e' \<and> grows e e')"
proof (cases "\<exists>j. e_jobs e jid = Some j \<and> (j_state j = Buried \<or> j_state j = Delayed)")
  case False
  then have "cmd_kick_job now cid jid (e, out) = Some (reply cid RNotFound (e, out))"
    by (auto simp: cmd_kick_job_def split: option.split job_state.split)
  with g show ?thesis by (simp add: reply_eq)
next
  case True
  then obtain j where j: "e_jobs e jid = Some j" "j_state j = Buried \<or> j_state j = Delayed" by blast
  have inv: "inv {} {} {} e" using g by (simp add: good_def)
  define e1 where "e1 = (if j_state j = Buried then snd (remove_buried (j_tube j) jid e) else remove_delayed (j_tube j) jid e)"
  have o: "takes_out jid {} {} j e e1"
    using remove_buried_step [OF inv j(1)] remove_delayed_step [OF inv j(1)] j(2) by (auto simp: e1_def)
  have "j_reserver j = None" using not_reserved_reserver [OF inv j(1)] j(2) by auto
  from kick_to_ready_good [OF g pot o this, of now out] obtain e2 out2 where
    kr: "kick_to_ready (j_tube j) jid now (e1, out) = Some (e2, out2)" "settles e e2" by (auto simp: returns_def)
  have "cmd_kick_job now cid jid (e, out) = Some (reply cid RKickedJob (e2, out2))"
    using j kr(1) by (auto simp: cmd_kick_job_def e1_def)
  with settles_grows [OF kr(2)] show ?thesis by (simp add: reply_eq)
qed

section \<open>Pause\<close>

lemma unat_u64_of_u32: "unat (u64_of_u32 x) = unat x"
proof -
  have "unat x < 2 ^ 32" using unsigned_less [of x, where ?'a = nat] by simp
  then have "take_bit 64 (unat x) = unat x" by (simp add: take_bit_nat_eq_self_iff)
  then show ?thesis by (simp add: u64_of_u32_def unsigned_ucast_eq)
qed

lemma unat_secs: "unat (secs x) = unat x * 1000000000"
proof -
  have "unat x < 2 ^ 32" using unsigned_less [of x, where ?'a = nat] by simp
  then have "unat (u64_of_u32 x) * unat NANOS_PER_SEC < 2 ^ 64" by (simp add: unat_u64_of_u32 NANOS_PER_SEC_def)
  then have "unat (u64_of_u32 x * NANOS_PER_SEC) = unat (u64_of_u32 x) * unat NANOS_PER_SEC"
    by (simp add: unat_word_ariths)
  then show ?thesis by (simp add: secs_def unat_u64_of_u32 NANOS_PER_SEC_def)
qed

lemma secs_pos: "x \<noteq> 0 \<Longrightarrow> secs x > 0"
  using unat_secs [of x] by (simp add: word_less_nat_alt unat_gt_0)

lemma pause_inv:
  fixes u :: nanos
  assumes inv: "inv L W G e" and t: "tube e tid = Some t" and p: "p > 0"
  defines "e' \<equiv> (tube_mut tid (\<lambda>t. (stat_mut (\<lambda>s. s\<lparr>s_pause_ct := s_pause_ct s + 1\<rparr>) t)\<lparr>t_pause := p, t_unpause_at := u\<rparr>) e)
    \<lparr>e_pauses := insert (u, tid) (if t_pause t > 0 then e_pauses e - {(t_unpause_at t, tid)} else e_pauses e)\<rparr>"
  shows "inv L W G e'"
proof -
  let ?t = "t\<lparr>t_stat := (t_stat t)\<lparr>s_pause_ct := s_pause_ct (t_stat t) + 1\<rparr>, t_pause := p, t_unpause_at := u\<rparr>"
  have te: "tube e' = (tube e)(tid \<mapsto> ?t)" by (simp add: e'_def t)
  have tv: "tv pr e' = tv pr e" if "pr ?t = pr t" for pr :: "tube_state \<Rightarrow> 'b" using that t by (auto simp: view_simps te)
  have cv: "cv pr e' = cv pr e" for pr :: "conn_state \<Rightarrow> 'c" by (rule cv_same) (simp add: e'_def)
  show ?thesis
  proof (rule inv_still [OF inv])
    show "still e' e" by (simp add: still_def tv cv) (simp add: e'_def)
    show "wait_ok W e'" by (rule wait_frame [of W e]) (use inv in \<open>simp_all add: inv_def tv cv\<close>, simp add: e'_def)
    have ix: "index_ok e" using inv by (simp add: inv_def)
    then have ps: "(d, x) \<in> e_pauses e \<longleftrightarrow> (\<exists>t. tube e x = Some t \<and> t_pause t > 0 \<and> t_unpause_at t = d)" for d x
      by (simp add: index_ok_def pauses_ok_def)
    have "(d, x) \<in> e_pauses e' \<longleftrightarrow> (\<exists>t. tube e' x = Some t \<and> t_pause t > 0 \<and> t_unpause_at t = d)" for d x
    proof (cases "x = tid")
      case True
      have "(d, tid) \<in> e_pauses e \<longleftrightarrow> t_pause t > 0 \<and> t_unpause_at t = d" using ps [of d tid] t by simp
      with True p show ?thesis by (auto simp: te) (auto simp: e'_def split: if_splits)
    next
      case False
      then show ?thesis using ps [of d x] by (simp add: te) (simp add: e'_def)
    qed
    then have "pauses_ok e'" by (auto simp: pauses_ok_def)
    then show "index_ok e'"
      by (intro index_frame_pauses [OF ix]) (simp_all add: tv cv, simp_all add: e'_def)
  qed
qed

lemma cmd_pause_tube_good:
  assumes g: "good e" and r: "cmd_pause_tube now cid name delay (e, out) = (e', out')"
  shows "good e' \<and> grows e e'"
proof -
  define e0 where "e0 = count_op (\<lambda>c. c\<lparr>o_pause_tube := o_pause_tube c + 1\<rparr>) e"
  have g0: "good e0" and gr: "\<And>e'. grows e0 e' = grows e e'" using g by (simp_all add: e0_def)
  have inv: "inv {} {} {} e0" and q: "quiet e0" and w: "watching e0" using g0 by (simp_all add: good_def)
  show ?thesis
  proof (cases "e_tube_ids e0 name")
    case None
    have "grows e e0" using gr grows_refl by blast
    moreover have "e' = e0" using r unfolding cmd_pause_tube_def Let_def prod.case e0_def [symmetric] None option.case reply_eq by simp
    ultimately show ?thesis using g0 by simp
  next
    case (Some tid)
    with inv slab_idD [of e0 name tid] obtain t where t: "tube e0 tid = Some t" by (auto simp: inv_def)
    define p where "p = (if delay = 0 then 1 else secs delay)"
    have pos: "p > 0" using secs_pos [of delay] by (simp add: p_def)
    define e1 where "e1 = (tube_mut tid (\<lambda>t. (stat_mut (\<lambda>s. s\<lparr>s_pause_ct := s_pause_ct s + 1\<rparr>) t)
        \<lparr>t_pause := p, t_unpause_at := sat_add now p\<rparr>) e0)
      \<lparr>e_pauses := insert (sat_add now p, tid) (if t_pause t > 0 then e_pauses e0 - {(t_unpause_at t, tid)} else e_pauses e0)\<rparr>"
    have i1: "inv {} {} {} e1" unfolding e1_def by (rule pause_inv [OF inv t pos])
    have "fst (cmd_pause_tube now cid name delay (e, out)) = e1"
      unfolding cmd_pause_tube_def Let_def prod.case e0_def [symmetric] Some option.case t p_def [symmetric] reply_eq fst_conv
      by (rule engine.equality) (simp_all add: e1_def tube_mut_def t)
    then have e': "e' = e1" using r by simp
    have te: "tube e1 = (tube e0)(tid \<mapsto> t\<lparr>t_stat := (t_stat t)\<lparr>s_pause_ct := s_pause_ct (t_stat t) + 1\<rparr>,
        t_pause := p, t_unpause_at := sat_add now p\<rparr>)" by (simp add: e1_def t)
    have "quiet e1" using q pos by (auto simp: quiet_def te wants_dispatch_def split: if_splits)
    moreover have "watching e1" using w by (simp add: watching_def e1_def)
    moreover have "pot e1 = pot e0" by (simp add: pot_def waiting_conns_def e1_def)
    ultimately have "good e1 \<and> grows e0 e1" using i1 by (simp add: good_def grows_def) (simp add: e1_def)
    with e' show ?thesis by (simp add: gr)
  qed
qed

section \<open>Every command\<close>

lemma handle_good:
  assumes g: "good e" and pot: "pot e < 2 ^ 63" and small: "unat (e_next_job_id e) < 2 ^ 63"
    and idle: "cid \<notin> waiting_conns e"
  shows "returns (handle now cid cmd (e, out)) (\<lambda>(e', out'). good e' \<and> grows e e')"
proof (cases "e_conns e cid")
  case None
  with g show ?thesis by (simp add: handle_def)
next
  case (Some c)
  have nw: "\<not> c_waiting c" using idle Some by (auto simp: waiting_conns_def)
  have pot': "pot e < 2 ^ 64" using pot by simp
  have lift: "returns (Some s) (\<lambda>(e', out'). good e' \<and> grows e e')" if "\<And>e' out'. s = (e', out') \<Longrightarrow> good e' \<and> grows e e'" for s
    using that by (cases s) simp
  note f = cmd_put_good [OF g Some small pot'] cmd_use_good [OF g Some small] cmd_watch_good [OF g Some nw]
    cmd_ignore_good [OF g Some nw small] cmd_reserve_good [OF g Some nw pot] cmd_delete_good [OF g small]
    cmd_release_good [OF g pot] cmd_kick_good [OF g pot'] cmd_kick_job_good [OF g pot']
  note l = lift [OF cmd_reserve_job_good [OF g Some pot]] lift [OF cmd_bury_good [OF g pot]]
    lift [OF cmd_touch_good [OF g]] lift [OF cmd_pause_tube_good [OF g]]
  have "returns (dispatch now cid cmd (e, out)) (\<lambda>(e', out'). good e' \<and> grows e e')"
    by (cases cmd) (use f l g in \<open>simp_all add: cmd_peek_def cmd_peek_ready_def cmd_peek_delayed_def
      cmd_peek_buried_def cmd_stats_job_def cmd_stats_tube_def cmd_stats_def cmd_list_tubes_def
      cmd_list_tube_used_def cmd_list_tubes_watched_def cmd_pause_tube_bad_name_def reply_eq reply_with_eq\<close>)
  then show ?thesis by (simp add: handle_def Some)
qed

end
