(* ===== verification/Engine_Time.thy ===== *)
theory Engine_Time
  imports Engine_Steps
begin

text \<open>
  Time: the earliest delayed job, the next deadline, and \<open>tick\<close>.  The three loops of
  \<open>tick\<close> terminate, keep the engine good, and leave nothing due behind: no delayed job
  whose time has come and no reservation whose deadline has passed.
\<close>

section \<open>What is due\<close>

definition due_delayed :: "nanos \<Rightarrow> engine \<Rightarrow> job_id set" where
  "due_delayed now e = {i. \<exists>j. e_jobs e i = Some j \<and> j_state j = Delayed \<and> j_deadline_at j \<le> now}"

definition late :: "nanos \<Rightarrow> engine \<Rightarrow> (job_id \<times> conn_id) set" where
  "late now e = {(i, cid). \<exists>j. e_jobs e i = Some j \<and> j_reserver j = Some cid \<and> j_deadline_at j < now}"

lemma dispatched_due:
  assumes d: "dispatched now e2 e'" and jobs: "e_jobs e2 = (e_jobs e)(jid \<mapsto> j\<lparr>j_state := Ready, j_reserver := None\<rparr>)"
  shows "due_delayed now e' \<subseteq> due_delayed now e - {jid}" "late now e' \<subseteq> late now e - {jid} \<times> UNIV"
proof -
  show "due_delayed now e' \<subseteq> due_delayed now e - {jid}"
  proof
    fix i assume "i \<in> due_delayed now e'"
    then obtain k where k: "e_jobs e' i = Some k" "j_state k = Delayed" "j_deadline_at k \<le> now" by (auto simp: due_delayed_def)
    then have "e_jobs e2 i = Some k" using dispatched_reserved [OF d k(1)] by simp
    with k show "i \<in> due_delayed now e - {jid}" by (auto simp: jobs due_delayed_def split: if_splits)
  qed
  show "late now e' \<subseteq> late now e - {jid} \<times> UNIV"
  proof (clarify, goal_cases)
    case (1 i cid)
    then obtain k where k: "e_jobs e' i = Some k" "j_reserver k = Some cid" "j_deadline_at k < now" by (auto simp: late_def)
    have "e_jobs e2 i \<noteq> None" using d k(1) unfolding dispatched_def by (metis option.distinct(1))
    then obtain k2 where k2: "e_jobs e2 i = Some k2" by auto
    from dispatched_job [OF d k2] obtain k' where "e_jobs e' i = Some k'" "job_dispatched now k2 k'" .
    with k have "k = k2" by (auto simp: job_dispatched_def)
    with k k2 show ?case by (auto simp: jobs late_def split: if_splits)
  qed
qed

lemma dispatched_due_mono:
  assumes d: "dispatched now e e'"
  shows "due_delayed now e' \<subseteq> due_delayed now e" "late now e' \<subseteq> late now e"
proof -
  show "due_delayed now e' \<subseteq> due_delayed now e"
    using dispatched_reserved [OF d] by (fastforce simp: due_delayed_def)
  show "late now e' \<subseteq> late now e"
  proof (clarify, goal_cases)
    case (1 i cid)
    then obtain k where k: "e_jobs e' i = Some k" "j_reserver k = Some cid" "j_deadline_at k < now" by (auto simp: late_def)
    have "e_jobs e i \<noteq> None" using d k(1) unfolding dispatched_def by (metis option.distinct(1))
    then obtain k2 where k2: "e_jobs e i = Some k2" by auto
    from dispatched_job [OF d k2] obtain k' where "e_jobs e' i = Some k'" "job_dispatched now k2 k'" .
    with k have "k = k2" by (auto simp: job_dispatched_def)
    with k k2 show ?case by (auto simp: late_def)
  qed
qed

text \<open>A step that wakes waiting connections only by answering them.\<close>

definition overdue :: "nanos \<Rightarrow> engine \<Rightarrow> conn_id set" where
  "overdue now e = {cid. \<exists>c wd. e_conns e cid = Some c \<and> c_waiting c \<and> c_wait_deadline c = Some wd \<and> wd \<le> now}"

lemma overdue_waiting: "overdue now e \<subseteq> waiting_conns e"
  by (auto simp: overdue_def waiting_conns_def)

lemma overdue_mono:
  assumes "waiting_conns e' \<subseteq> waiting_conns e" "cv c_wait_deadline e' = cv c_wait_deadline e"
  shows "overdue now e' \<subseteq> overdue now e"
proof
  fix cid assume "cid \<in> overdue now e'"
  then obtain c' wd where c': "e_conns e' cid = Some c'" "c_waiting c'" "c_wait_deadline c' = Some wd" "wd \<le> now"
    by (auto simp: overdue_def)
  then have "cid \<in> waiting_conns e" using assms(1) by (auto simp: waiting_conns_def)
  then obtain c where "e_conns e cid = Some c" "c_waiting c" by (auto simp: waiting_conns_def)
  moreover have "cv c_wait_deadline e' cid = cv c_wait_deadline e cid" by (simp add: assms(2))
  ultimately have "e_conns e cid = Some c" "c_waiting c" "c_wait_deadline c = Some wd" using c' by (simp_all add: cv_def)
  with c'(4) show "cid \<in> overdue now e" unfolding overdue_def by blast
qed

lemma dispatched_overdue:
  assumes "dispatched now' e e'"
  shows "overdue now e' \<subseteq> overdue now e"
proof
  fix cid assume o: "cid \<in> overdue now e'"
  then have "cid \<in> waiting_conns e'" using overdue_waiting by blast
  then have "e_conns e' cid = e_conns e cid" using assms unfolding dispatched_def by blast
  with o show "cid \<in> overdue now e" by (simp add: overdue_def)
qed

section \<open>The earliest delayed job\<close>

abbreviation best_head :: "engine \<Rightarrow> nanos \<times> tube_id \<Rightarrow> (nat \<times> tube_id) option \<Rightarrow> (nat \<times> tube_id) option" where
  "best_head e \<equiv> (\<lambda>(_, tid) best.
     (case tube e tid of
        None \<Rightarrow> best
      | Some t \<Rightarrow>
          (case best of
             None \<Rightarrow> Some (t_pos t, tid)
           | Some (pos, _) \<Rightarrow> if t_pos t < pos then Some (t_pos t, tid) else best)))"

lemma best_head_cases:
  "best_head e (d, y) b = b \<and> (\<forall>t. tube e y = Some t \<longrightarrow> (\<exists>q z. b = Some (q, z) \<and> q \<le> t_pos t)) \<or>
   (\<exists>t. tube e y = Some t \<and> best_head e (d, y) b = Some (t_pos t, y) \<and> (\<forall>q z. b = Some (q, z) \<longrightarrow> t_pos t < q))"
  by (cases "tube e y"; cases b; cases "the b") auto

lemma best_head_None:
  "fold (best_head e) hs b = None \<Longrightarrow> b = None \<and> (\<forall>(d, tid) \<in> set hs. tube e tid = None)"
proof (induction hs arbitrary: b)
  case (Cons h hs)
  obtain d y where h: "h = (d, y)" by (cases h)
  from Cons.prems have "fold (best_head e) hs (best_head e h b) = None" by simp
  from Cons.IH [OF this] best_head_cases [of e d y b] show ?case by (cases "tube e y") (auto simp: h)
qed simp

lemma best_head_Some:
  "fold (best_head e) hs b = Some (p, tid) \<Longrightarrow>
   b = Some (p, tid) \<or> (\<exists>d t. (d, tid) \<in> set hs \<and> tube e tid = Some t \<and> t_pos t = p)"
proof (induction hs arbitrary: b)
  case (Cons h hs)
  obtain d y where h: "h = (d, y)" by (cases h)
  from Cons.prems have "fold (best_head e) hs (best_head e h b) = Some (p, tid)" by simp
  from Cons.IH [OF this] show ?case
  proof
    assume "best_head e h b = Some (p, tid)"
    with best_head_cases [of e d y b] show ?thesis unfolding h by auto
  qed auto
qed simp

lemma best_head_le:
  "fold (best_head e) hs b = Some (p, tid) \<Longrightarrow>
   (\<forall>q y. b = Some (q, y) \<longrightarrow> p \<le> q) \<and> (\<forall>d y t. (d, y) \<in> set hs \<longrightarrow> tube e y = Some t \<longrightarrow> p \<le> t_pos t)"
proof (induction hs arbitrary: b)
  case (Cons h hs)
  obtain d y where h: "h = (d, y)" by (cases h)
  from Cons.prems have "fold (best_head e) hs (best_head e h b) = Some (p, tid)" by simp
  note ih = Cons.IH [OF this]
  from best_head_cases [of e d y b] have "(\<forall>q z. b = Some (q, z) \<longrightarrow> p \<le> q) \<and> (\<forall>t. tube e y = Some t \<longrightarrow> p \<le> t_pos t)"
  proof
    assume *: "best_head e (d, y) b = b \<and> (\<forall>t. tube e y = Some t \<longrightarrow> (\<exists>q z. b = Some (q, z) \<and> q \<le> t_pos t))"
    then have "\<forall>q z. b = Some (q, z) \<longrightarrow> p \<le> q" using ih unfolding h by simp
    with * show ?thesis by (meson order_trans)
  next
    assume "\<exists>t. tube e y = Some t \<and> best_head e (d, y) b = Some (t_pos t, y) \<and> (\<forall>q z. b = Some (q, z) \<longrightarrow> t_pos t < q)"
    then obtain t where t: "tube e y = Some t" "best_head e (d, y) b = Some (t_pos t, y)" "\<forall>q z. b = Some (q, z) \<longrightarrow> t_pos t < q" by blast
    with ih have "p \<le> t_pos t" unfolding h by simp
    with t(1,3) show ?thesis by (auto intro: order_trans less_imp_le)
  qed
  note m = this
  from ih m show ?case unfolding h by auto
qed simp

lemma finite_delay_heads:
  assumes "index_ok e" shows "finite (e_delay_heads e)"
proof (rule finite_subset)
  show "e_delay_heads e \<subseteq> UNIV \<times> {..< length (e_tubes e)}"
    using assms tube_Some_length by (fastforce simp: index_ok_def dly.exact_def)
qed simp

text \<open>The job found is delayed, in that tube, and no delayed job is due earlier; among tubes
  whose first delayed job has the same deadline the one first in \<open>tube_order\<close> wins.\<close>

lemma soonest_delayed_job_Some:
  assumes inv: "inv {} W G e" and s: "soonest_delayed_job e = Some (d, tid, jid)"
  obtains j where "e_jobs e jid = Some j" "j_state j = Delayed" "j_tube j = tid" "j_deadline_at j = d"
    and "\<And>i k. e_jobs e i = Some k \<Longrightarrow> j_state k = Delayed \<Longrightarrow> d \<le> j_deadline_at k"
proof -
  have ix: "index_ok e" and dl: "delayed_ok {} e" using inv by (simp_all add: inv_def)
  have ex: "(k, i) \<in> e_delay_heads e \<longleftrightarrow> (\<exists>t. tube e i = Some t \<and> delay_key t = Some k)" for k i
    using ix by (intro dly.exact_keys) (simp_all add: index_ok_def)
  from s obtain d0 t0 p where f: "first_of (e_delay_heads e) = Some (d0, t0)"
    and b: "fold (best_head e) (sorted_list_of_set {p \<in> e_delay_heads e. fst p = d0}) None = Some (p, tid)"
    by (auto simp: soonest_delayed_job_def Let_def split: option.splits)
  have fin: "finite {p \<in> e_delay_heads e. fst p = d0}" using finite_delay_heads [OF ix] by simp
  from best_head_Some [OF b] fin obtain t where h: "(d0, tid) \<in> e_delay_heads e" and t: "tube e tid = Some t" by auto
  from s f b t have fj: "first_of (t_delayed t) = Some (d, jid)"
    by (auto simp: soonest_delayed_job_def Let_def split: option.splits)
  from h t ex fj have d: "d = d0" by (auto simp: delay_key_def)
  from first_of_SomeD(1) [OF fj] have "(d, jid) \<in> t_delayed t" by simp
  with delayed_tubeD [OF dl t] obtain j where j: "e_jobs e jid = Some j" "j_state j = Delayed" "j_tube j = tid" "j_deadline_at j = d"
    by (auto simp: jobs_st_def)
  have "d \<le> j_deadline_at k" if k: "e_jobs e i = Some k" "j_state k = Delayed" for i k
  proof -
    from inv_tube [OF inv k(1)] obtain u where u: "tube e (j_tube k) = Some u" .
    have m: "(j_deadline_at k, i) \<in> t_delayed u" using delayed_tubeD [OF dl u] k by (auto simp: jobs_st_def)
    then obtain d' i' where fu: "first_of (t_delayed u) = Some (d', i')"
      using first_of_None_iff [of "t_delayed u"] by (cases "first_of (t_delayed u)") auto
    have "(d', i') \<le> (j_deadline_at k, i)" by (rule first_of_SomeD(2) [OF fu _ m]) simp
    moreover have "(d', j_tube k) \<in> e_delay_heads e" using ex u fu by (simp add: delay_key_def)
    from first_of_SomeD(2) [OF f finite_delay_heads [OF ix] this] have "d0 \<le> d'" by auto
    ultimately show ?thesis using d by auto
  qed
  with that j show thesis by blast
qed

lemma soonest_delayed_job_None:
  assumes inv: "inv {} W G e" and s: "soonest_delayed_job e = None" and k: "e_jobs e i = Some k"
  shows "j_state k \<noteq> Delayed"
proof
  assume dk: "j_state k = Delayed"
  have ix: "index_ok e" and dl: "delayed_ok {} e" using inv by (simp_all add: inv_def)
  have ex: "(k, i) \<in> e_delay_heads e \<longleftrightarrow> (\<exists>t. tube e i = Some t \<and> delay_key t = Some k)" for k i
    using ix by (intro dly.exact_keys) (simp_all add: index_ok_def)
  from inv_tube [OF inv k] obtain u where u: "tube e (j_tube k) = Some u" .
  have m: "(j_deadline_at k, i) \<in> t_delayed u" using delayed_tubeD [OF dl u] k dk by (auto simp: jobs_st_def)
  then have "first_of (t_delayed u) \<noteq> None" by auto
  then have "delay_key u \<noteq> None" by (simp add: delay_key_def)
  with ex u have "e_delay_heads e \<noteq> {}" by fastforce
  then obtain d0 t0 where f: "first_of (e_delay_heads e) = Some (d0, t0)"
    by (cases "first_of (e_delay_heads e)") auto
  have fin: "finite {p \<in> e_delay_heads e. fst p = d0}" using finite_delay_heads [OF ix] by simp
  have "(d0, t0) \<in> e_delay_heads e" by (rule first_of_SomeD(1) [OF f finite_delay_heads [OF ix]])
  with fin have "(d0, t0) \<in> set (sorted_list_of_set {p \<in> e_delay_heads e. fst p = d0})" "tube e t0 \<noteq> None"
    using ex by auto
  with best_head_None [of e "sorted_list_of_set {p \<in> e_delay_heads e. fst p = d0}" None]
  obtain p tid where b: "fold (best_head e) (sorted_list_of_set {p \<in> e_delay_heads e. fst p = d0}) None = Some (p, tid)"
    by fastforce
  from best_head_Some [OF b] fin obtain t where h: "(d0, tid) \<in> e_delay_heads e" and t: "tube e tid = Some t" by auto
  from h t ex obtain y where "first_of (t_delayed t) = Some y" by (auto simp: delay_key_def)
  then show False using s f b t by (cases y) (simp add: soonest_delayed_job_def Let_def)
qed

lemma not_delay_due:
  assumes "inv {} W G e" "\<not> delay_due now e"
  shows "due_delayed now e = {}"
proof (cases "soonest_delayed_job e")
  case None
  with soonest_delayed_job_None [OF assms(1)] show ?thesis by (auto simp: due_delayed_def)
next
  case (Some x)
  obtain d tid jid where x: "x = (d, tid, jid)" by (cases x)
  have "now < d" using assms(2) Some x by (simp add: delay_due_def)
  moreover have "d \<le> j_deadline_at k" if "e_jobs e i = Some k" "j_state k = Delayed" for i k
    using soonest_delayed_job_Some [OF assms(1) Some [unfolded x]] that by metis
  ultimately show ?thesis by (fastforce simp: due_delayed_def)
qed

lemma ready_delayed_good:
  assumes g: "good e" and pot: "pot e < 2 ^ 64" and due: "delay_due now e"
  shows "returns (ready_delayed now (e, out))
    (\<lambda>(e', out'). settles e e' \<and> due_delayed now e' \<subset> due_delayed now e \<and> late now e' \<subseteq> late now e)"
proof -
  have inv: "inv {} {} {} e" using g by (simp add: good_def)
  from due obtain d tid jid where s: "soonest_delayed_job e = Some (d, tid, jid)" and d: "d \<le> now"
    by (auto simp: delay_due_def split: option.splits prod.splits)
  from soonest_delayed_job_Some [OF inv s] obtain j where
    j: "e_jobs e jid = Some j" "j_state j = Delayed" "j_tube j = tid" "j_deadline_at j = d" by metis
  have o: "takes_out jid {} {} j e (remove_delayed tid jid e)" using remove_delayed_step [OF inv j(1,2)] j(3) by simp
  note rd = ready_and_dispatch [OF g pot o disjI1 [OF refl]]
  have due: "jid \<in> due_delayed now e" using j d by (simp add: due_delayed_def)
  have "due_delayed now e' \<subset> due_delayed now e" "late now e' \<subseteq> late now e"
    if "dispatched now (insert_ready (j_tube j) jid (remove_delayed tid jid e)) e'" for e'
    using dispatched_due [OF that rd(2)] due by blast+
  then have "returns (process_queue now (insert_ready (j_tube j) jid (remove_delayed tid jid e), out))
    (\<lambda>(e', out'). settles e e' \<and> due_delayed now e' \<subset> due_delayed now e \<and> late now e' \<subseteq> late now e)"
    by (intro returns_mono [OF rd(1) [of now out]], clarify) blast
  then show ?thesis by (simp add: ready_delayed_def s j(3))
qed

lemma delayed_loop_good:
  fixes out :: outbox
  assumes g: "good e" and pot: "pot e < 2 ^ 64"
  shows "returns (loop (\<lambda>(e, out). delay_due now e) (ready_delayed now) (e, out))
    (\<lambda>(e', out'). settles e e' \<and> due_delayed now e' = {} \<and> late now e' \<subseteq> late now e)"
proof -
  let ?I = "\<lambda>(e', out' :: outbox). settles e e' \<and> late now e' \<subseteq> late now e"
  have "returns (loop (\<lambda>(e, out). delay_due now e) (ready_delayed now) (e, out))
    (\<lambda>s'. ?I s' \<and> \<not> (\<lambda>(e, out). delay_due now e) s')"
  proof (rule returns_loop [where m = "\<lambda>(e, out). card (due_delayed now e)"])
    show "?I (e, out)" by (simp add: settles_refl g)
    fix s assume I: "?I s" and b: "(\<lambda>(e, out). delay_due now e) s"
    obtain e1 out1 where s: "s = (e1, out1)" by (cases s)
    from I s have st: "settles e e1" "late now e1 \<subseteq> late now e" by simp_all
    then have "good e1" "pot e1 < 2 ^ 64" using pot by (simp_all add: settles_def)
    from ready_delayed_good [OF this, of now out1] b s
    show "returns (ready_delayed now s) (\<lambda>s'. ?I s' \<and> (\<lambda>(e, out). card (due_delayed now e)) s' < (\<lambda>(e, out). card (due_delayed now e)) s)"
      by (auto elim!: returns_mono intro: settles_trans [OF st(1)] psubset_card_mono dest: subset_trans [OF _ st(2)])
  qed
  then show ?thesis
    by (rule returns_mono) (use not_delay_due in \<open>auto simp: settles_def good_def\<close>)
qed

section \<open>Connections that are due\<close>

lemma clamp_le:
  fixes d :: u64
  assumes "v \<le> uint d"
  shows "word_of_int (max v 0) \<le> d"
proof -
  have b: "0 \<le> max v 0" "max v 0 \<le> uint d" using assms by auto
  moreover have "uint d < 2 ^ 64" using uint_lt2p [of d] by simp
  ultimately have "uint (word_of_int (max v 0) :: u64) = max v 0" by (simp add: uint_word_of_int)
  with b(2) show ?thesis by (simp add: word_le_def)
qed

lemma tickat_reserved:
  assumes "(d, i) \<in> c_reserved_by_deadline c"
  obtains k where "conn_tickat c = Some k" "k \<le> d"
proof -
  from assms have "first_of (c_reserved_by_deadline c) \<noteq> None" by auto
  then obtain d' i' where f: "soonest_reserved c = Some (d', i')" by (auto simp: soonest_reserved_def simp del: first_of_None_iff)
  have "(d', i') \<le> (d, i)"
    using first_of_SomeD(2) [of "c_reserved_by_deadline c" "(d', i')", OF _ _ assms] f by (simp add: soonest_reserved_def)
  then have "d' \<le> d" by auto
  then have le: "uint d' \<le> uint d" by (simp add: word_le_def)
  define v where "v = (let m = (if c_waiting c then uint SAFETY_MARGIN else 0) in
    case c_wait_deadline c of Some wd \<Rightarrow> if c_waiting c then min (uint d' - m) (uint wd) else uint d' - m | None \<Rightarrow> uint d' - m)"
  have "conn_tickat c = Some (word_of_int (max v 0))"
    by (auto simp: conn_tickat_def f v_def Let_def split: option.split)
  moreover have "uint SAFETY_MARGIN = 1000000000" by (simp add: SAFETY_MARGIN_def NANOS_PER_SEC_def)
  then have "v \<le> uint d" using le by (auto simp: v_def Let_def split: option.split)
  then have "word_of_int (max v 0) \<le> d" by (rule clamp_le)
  ultimately show thesis by (rule that)
qed

lemma tickat_waiting:
  assumes "c_waiting c" "c_wait_deadline c = Some wd"
  obtains k where "conn_tickat c = Some k" "k \<le> wd"
proof -
  define v where "v = (case soonest_reserved c of Some (d, _) \<Rightarrow> min (uint d - uint SAFETY_MARGIN) (uint wd) | None \<Rightarrow> uint wd)"
  have "conn_tickat c = Some (word_of_int (max v 0))"
    by (auto simp: conn_tickat_def assms v_def Let_def split: option.split)
  moreover have "v \<le> uint wd" by (auto simp: v_def split: option.split)
  then have "word_of_int (max v 0) \<le> wd" by (rule clamp_le)
  ultimately show thesis by (rule that)
qed

lemma due_conn_iff:
  assumes "index_ok e"
  shows "due_conn now P e \<noteq> None \<longleftrightarrow> (\<exists>cid c k. e_conns e cid = Some c \<and> conn_tickat c = Some k \<and> k \<le> now \<and> cid \<notin> P)"
    and "due_conn now P e = Some cid \<Longrightarrow> e_conns e cid \<noteq> None \<and> cid \<notin> P"
proof -
  have ex: "(k, i) \<in> e_conn_ticks e \<longleftrightarrow> (\<exists>c. e_conns e i = Some c \<and> conn_tickat c = Some k)" for k i
    using assms by (intro tik.exact_keys) (simp_all add: index_ok_def)
  show "due_conn now P e \<noteq> None \<longleftrightarrow> (\<exists>cid c k. e_conns e cid = Some c \<and> conn_tickat c = Some k \<and> k \<le> now \<and> cid \<notin> P)"
    using ex by (auto simp: due_conn_def)
  assume "due_conn now P e = Some cid"
  then obtain k where "first_of {k \<in> e_conn_ticks e. fst k \<le> now \<and> snd k \<notin> P} = Some (k, cid)"
    by (auto simp: due_conn_def)
  from first_of_SomeD(1) [OF this] ex show "e_conns e cid \<noteq> None \<and> cid \<notin> P" by auto
qed

lemma late_due_conn:
  assumes inv: "inv {} {} {} e" and l: "(i, cid) \<in> late now e" and P: "cid \<notin> P"
  shows "due_conn now P e \<noteq> None"
proof -
  from l obtain j where j: "e_jobs e i = Some j" "j_reserver j = Some cid" "j_deadline_at j < now" by (auto simp: late_def)
  from reserved_entry [OF inv j(1,2)] obtain c where c: "e_conns e cid = Some c" "(j_deadline_at j, i) \<in> c_reserved_by_deadline c" by metis
  from tickat_reserved [OF c(2)] obtain k where "conn_tickat c = Some k" "k \<le> j_deadline_at j" .
  with c(1) j(3) P show ?thesis
    using inv due_conn_iff(1) [of e now P] by (fastforce simp: inv_def)
qed

lemma overdue_due_conn:
  assumes inv: "inv {} {} {} e" and o: "cid \<in> overdue now e" and P: "cid \<notin> P"
  shows "due_conn now P e \<noteq> None"
proof -
  from o obtain c wd where c: "e_conns e cid = Some c" "c_waiting c" "c_wait_deadline c = Some wd" "wd \<le> now"
    by (auto simp: overdue_def)
  from tickat_waiting [OF c(2,3)] obtain k where "conn_tickat c = Some k" "k \<le> wd" .
  with c(1,4) P show ?thesis
    using inv due_conn_iff(1) [of e now P] by (fastforce simp: inv_def)
qed

lemma takes_out_timeouts:
  assumes "takes_out jid G W j e e'"
  shows "takes_out jid G W j e (e'\<lparr>e_timeout_ct := n\<rparr>)"
proof -
  let ?e = "e'\<lparr>e_timeout_ct := n\<rparr>"
  have t: "tube ?e = tube e'" by (simp add: tube_def fun_eq_iff)
  have v1: "tv pr ?e = tv pr e'" for pr :: "tube_state \<Rightarrow> 'b" by (rule tv_cong [OF t])
  have v2: "cv pr ?e = cv pr e'" for pr :: "conn_state \<Rightarrow> 'c" by (rule cv_same) simp
  have v3: "jv pr ?e = jv pr e'" for pr :: "job_rec \<Rightarrow> 'd" by (simp add: view_simps)
  have "unmoved ?e e'" by (simp add: unmoved_def v1 v2 v3)
  moreover have "shrunk ?e e'" by (simp add: shrunk_def t)
  ultimately show ?thesis
    using assms by (auto simp: takes_out_def intro: unmoved_trans shrunk_trans)
qed

lemma expire_reservation_good:
  assumes g: "good e" and pot: "pot e < 2 ^ 64" and x: "reservation_expired cid now e"
  shows "returns (expire_reservation cid now (e, out))
    (\<lambda>(e', out'). settles e e' \<and> due_delayed now e' \<subseteq> due_delayed now e \<and> late now e' \<subset> late now e \<and> overdue now e' \<subseteq> overdue now e)"
proof -
  have inv: "inv {} {} {} e" using g by (simp add: good_def)
  from x obtain c d jid where c: "e_conns e cid = Some c" and s: "soonest_reserved c = Some (d, jid)" and d: "d < now"
    by (auto simp: reservation_expired_def split: option.splits prod.splits)
  from s have "(d, jid) \<in> c_reserved_by_deadline c" using first_of_SomeD(1) [of "c_reserved_by_deadline c"] by (simp add: soonest_reserved_def)
  with reserved_connD [of "{}" e, OF _ c] inv obtain j where
    j: "e_jobs e jid = Some j" "j_reserver j = Some cid" "j_deadline_at j = d" by (auto simp: inv_def jobs_st_def)
  let ?f = "\<lambda>j :: job_rec. j\<lparr>j_timeout_ct := j_timeout_ct j + 1\<rparr>"
  define e1 where "e1 = (do_unreserve cid jid e)\<lparr>e_timeout_ct := e_timeout_ct (do_unreserve cid jid e) + 1\<rparr>"
  have "takes_out jid {} {} (j\<lparr>j_reserver := None\<rparr>) e (do_unreserve cid jid e)" by (rule do_unreserve_step [OF inv j(1,2)])
  then have "takes_out jid {} {} (j\<lparr>j_reserver := None\<rparr>) e e1"
    unfolding e1_def by (rule takes_out_timeouts)
  from takes_out_mut [where f = ?f, OF this] have
    o: "takes_out jid {} {} (?f (j\<lparr>j_reserver := None\<rparr>)) e (job_mut jid ?f e1)" by simp
  note rd = ready_and_dispatch [OF g pot o disjI1 [OF refl]]
  have l: "(jid, cid) \<in> late now e" using j d by (auto simp: late_def)
  have "due_delayed now e' \<subseteq> due_delayed now e" "late now e' \<subset> late now e" "overdue now e' \<subseteq> overdue now e"
    if "dispatched now (insert_ready (j_tube (?f (j\<lparr>j_reserver := None\<rparr>))) jid (job_mut jid ?f e1)) e'" for e'
    using dispatched_due [OF that rd(2)] l dispatched_overdue [OF that, of now]
      overdue_mono [OF equalityD1 [OF rd(4)] rd(5), of now] by blast+
  then have "returns (process_queue now (insert_ready (j_tube (?f (j\<lparr>j_reserver := None\<rparr>))) jid (job_mut jid ?f e1), out))
    (\<lambda>(e', out'). settles e e' \<and> due_delayed now e' \<subseteq> due_delayed now e \<and> late now e' \<subset> late now e \<and> overdue now e' \<subseteq> overdue now e)"
    by (intro returns_mono [OF rd(1) [of now out]], clarify) blast
  then show ?thesis by (simp add: expire_reservation_def c s j(1) Let_def e1_def)
qed

lemma not_reservation_expired:
  assumes inv: "inv {} {} {} e" and x: "\<not> reservation_expired cid now e"
  shows "(i, cid) \<notin> late now e"
proof
  assume "(i, cid) \<in> late now e"
  then obtain j where j: "e_jobs e i = Some j" "j_reserver j = Some cid" "j_deadline_at j < now" by (auto simp: late_def)
  from reserved_entry [OF inv j(1,2)] obtain c where c: "e_conns e cid = Some c" "(j_deadline_at j, i) \<in> c_reserved_by_deadline c" by metis
  then have "first_of (c_reserved_by_deadline c) \<noteq> None" by auto
  then obtain d' i' where f: "soonest_reserved c = Some (d', i')" by (auto simp: soonest_reserved_def simp del: first_of_None_iff)
  have "(d', i') \<le> (j_deadline_at j, i)"
    using first_of_SomeD(2) [of "c_reserved_by_deadline c" "(d', i')", OF _ _ c(2)] f by (simp add: soonest_reserved_def)
  with j(3) x f c(1) show False by (auto simp: reservation_expired_def)
qed

lemma remove_waiting_overdue:
  assumes "good e"
  shows "overdue now (do_remove_waiting_conn cid e) \<subseteq> overdue now e - {cid}"
proof
  let ?r = "do_remove_waiting_conn cid e"
  fix k assume k: "k \<in> overdue now ?r"
  then have "k \<in> waiting_conns ?r" using overdue_waiting by blast
  then have "k \<noteq> cid" using remove_waiting_good [OF assms, of cid] by simp
  moreover have "e_conns ?r k = e_conns e k" if "k \<noteq> cid"
    using that do_remove_waiting_conn_obs(1) [of e cid]
    by (cases "\<exists>c. e_conns e cid = Some c \<and> c_waiting c")
      (auto simp: do_remove_waiting_conn_def split: option.splits)
  ultimately show "k \<in> overdue now e - {cid}" using k by (simp add: overdue_def)
qed

lemma conn_timeout_good:
  fixes out :: outbox
  assumes g: "good e" and pot: "pot e < 2 ^ 64"
  shows "returns (conn_timeout cid now (e, out))
    (\<lambda>(e', out'). settles e e' \<and> due_delayed now e' \<subseteq> due_delayed now e \<and> late now e' \<subseteq> late now e - UNIV \<times> {cid} \<and> overdue now e' \<subseteq> overdue now e - {cid})"
proof -
  let ?I = "\<lambda>(e', out' :: outbox). settles e e' \<and> due_delayed now e' \<subseteq> due_delayed now e \<and> late now e' \<subseteq> late now e \<and> overdue now e' \<subseteq> overdue now e"
  have "returns (loop (\<lambda>(e, out). reservation_expired cid now e) (expire_reservation cid now) (e, out))
    (\<lambda>s'. ?I s' \<and> \<not> (\<lambda>(e, out). reservation_expired cid now e) s')"
  proof (rule returns_loop [where m = "\<lambda>(e, out). card (late now e)"])
    show "?I (e, out)" by (simp add: settles_refl g)
    fix s assume I: "?I s" and b: "(\<lambda>(e, out). reservation_expired cid now e) s"
    obtain e1 out1 where s: "s = (e1, out1)" by (cases s)
    from I s have st: "settles e e1" "due_delayed now e1 \<subseteq> due_delayed now e" "late now e1 \<subseteq> late now e" "overdue now e1 \<subseteq> overdue now e" by simp_all
    then have "good e1" "pot e1 < 2 ^ 64" using pot by (simp_all add: settles_def)
    from expire_reservation_good [OF this, of cid now out1] b s have
      "returns (expire_reservation cid now s)
        (\<lambda>(e', out'). settles e1 e' \<and> due_delayed now e' \<subseteq> due_delayed now e1 \<and> late now e' \<subset> late now e1 \<and> overdue now e' \<subseteq> overdue now e1)" by simp
    then show "returns (expire_reservation cid now s) (\<lambda>s'. ?I s' \<and> (\<lambda>(e, out). card (late now e)) s' < (\<lambda>(e, out). card (late now e)) s)"
      by (rule returns_mono) (use st s in \<open>auto intro: settles_trans [OF st(1)] psubset_card_mono\<close>)
  qed
  then obtain e1 out1 where l: "loop (\<lambda>(e, out). reservation_expired cid now e) (expire_reservation cid now) (e, out) = Some (e1, out1)"
    and st: "settles e e1" "due_delayed now e1 \<subseteq> due_delayed now e" "late now e1 \<subseteq> late now e"
      "overdue now e1 \<subseteq> overdue now e"
    and x: "\<not> reservation_expired cid now e1" by (auto simp: returns_def)
  have g1: "good e1" using st(1) by (simp add: settles_def)
  then have inv1: "inv {} {} {} e1" by (simp add: good_def)
  have late1: "late now e1 \<subseteq> late now e - UNIV \<times> {cid}" using st(3) not_reservation_expired [OF inv1 x] by auto
  let ?r = "do_remove_waiting_conn cid e1"
  from remove_waiting_good [OF g1, of cid] have r: "good ?r" "pot ?r \<le> pot e1" "still ?r e1" by simp_all
  have o: "overdue now ?r \<subseteq> overdue now e1 - {cid}" by (rule remove_waiting_overdue [OF g1])
  have x1: "cid \<notin> overdue now e1" if "\<not> (conn_is_waiting cid e1 \<and>
      (case e_conns e1 cid \<bind> c_wait_deadline of Some wd \<Rightarrow> wd \<le> now | None \<Rightarrow> False))"
    using that by (auto simp: overdue_def conn_is_waiting_def)
  have "settles e1 ?r" using r dom_cv [of c_use_tube ?r e1] by (simp add: settles_def still_def)
  then have "settles e ?r" by (rule settles_trans [OF st(1)])
  moreover have "due_delayed now ?r = due_delayed now e1" "late now ?r = late now e1"
    using r(3) by (simp_all add: due_delayed_def late_def still_def)
  ultimately show ?thesis using st late1 o x1 by (auto simp: conn_timeout_def l Let_def reply_eq)
qed

lemma timeouts_loop_good:
  fixes out :: outbox
  assumes g: "good e" and pot: "pot e < 2 ^ 64"
  shows "returns (loop (\<lambda>(s, processed). due_conn now processed (fst s) \<noteq> None) (timeout_due_conn now) ((e, out), {}))
    (\<lambda>((e', out'), P). settles e e' \<and> due_delayed now e' \<subseteq> due_delayed now e \<and> late now e' = {} \<and> overdue now e' = {})"
proof -
  let ?b = "\<lambda>(s :: eng_out, processed). due_conn now processed (fst s) \<noteq> None"
  let ?I = "\<lambda>((e', out' :: outbox), P). settles e e' \<and> due_delayed now e' \<subseteq> due_delayed now e \<and> late now e' \<inter> UNIV \<times> P = {} \<and> overdue now e' \<inter> P = {}"
  have "returns (loop ?b (timeout_due_conn now) ((e, out), {})) (\<lambda>s'. ?I s' \<and> \<not> ?b s')"
  proof (rule returns_loop [where m = "\<lambda>(s, P :: conn_id set). card (- P)"])
    show "?I ((e, out), {})" by (simp add: settles_refl g)
    fix s assume I: "?I s" and b: "?b s"
    obtain e1 out1 P where s: "s = ((e1, out1), P)" by (cases s) auto
    from I s have st: "settles e e1" "due_delayed now e1 \<subseteq> due_delayed now e" "late now e1 \<inter> UNIV \<times> P = {}" "overdue now e1 \<inter> P = {}" by simp_all
    then have g1: "good e1" "pot e1 < 2 ^ 64" using pot by (simp_all add: settles_def)
    from b s obtain cid where cid: "due_conn now P e1 = Some cid" by auto
    with due_conn_iff(2) g1 have P: "cid \<notin> P" by (auto simp: good_def inv_def)
    have "card (- insert cid P) < card (- P)" by (rule psubset_card_mono) (use P in auto)
    moreover from conn_timeout_good [OF g1, of cid now out1] obtain e2 out2 where
      t: "conn_timeout cid now (e1, out1) = Some (e2, out2)" and
      st2: "settles e1 e2" "due_delayed now e2 \<subseteq> due_delayed now e1" "late now e2 \<subseteq> late now e1 - UNIV \<times> {cid}"
        "overdue now e2 \<subseteq> overdue now e1 - {cid}"
      by (auto simp: returns_def)
    moreover have "late now e2 \<inter> UNIV \<times> insert cid P = {}" using st(3) st2(3) by blast
    moreover have "overdue now e2 \<inter> insert cid P = {}" using st(4) st2(4) by blast
    ultimately show "returns (timeout_due_conn now s) (\<lambda>s'. ?I s' \<and> (\<lambda>(s, P). card (- P)) s' < (\<lambda>(s, P). card (- P)) s)"
      using st(2) settles_trans [OF st(1)] by (auto simp: timeout_due_conn_def s cid)
  qed
  then show ?thesis
  proof (rule returns_mono)
    fix s assume s0: "?I s \<and> \<not> ?b s"
    obtain e' out' P where s: "s = ((e', out'), P)" by (cases s) auto
    from s0 s have *: "settles e e'" "due_delayed now e' \<subseteq> due_delayed now e" "late now e' \<inter> UNIV \<times> P = {}" "overdue now e' \<inter> P = {}"
      and x: "due_conn now P e' = None" by simp_all
    have inv: "inv {} {} {} e'" using *(1) by (simp add: settles_def good_def)
    have "(i, cid) \<notin> late now e'" for i cid using late_due_conn [OF inv, of i cid now P] x *(3) by auto
    then have "late now e' = {}" by auto
    moreover have "cid \<notin> overdue now e'" for cid using overdue_due_conn [OF inv, of cid now P] x *(4) by auto
    then have "overdue now e' = {}" by auto
    ultimately show "case s of (x, xa) \<Rightarrow> (case x of (e', out') \<Rightarrow> \<lambda>P. settles e e' \<and> due_delayed now e' \<subseteq> due_delayed now e \<and> late now e' = {} \<and> overdue now e' = {}) xa"
      using * s by simp
  qed
qed

section \<open>The next deadline\<close>

lemma next_deadline_le:
  assumes fin: "d \<in> set_option (map_option fst (first_of (e_delay_heads e))) \<union>
      set_option (map_option fst (first_of (e_pauses e))) \<union> set_option (map_option fst (first_of (e_conn_ticks e)))"
  obtains k where "next_deadline e = Some k" "k \<le> d"
proof -
  let ?S = "\<Union>d \<in> {map_option fst (first_of (e_delay_heads e)), map_option fst (first_of (e_pauses e)),
    map_option fst (first_of (e_conn_ticks e))}. set_option d"
  have d: "d \<in> ?S" using fin by auto
  then have "first_of ?S \<noteq> None" by auto
  then obtain k where k: "first_of ?S = Some k" by blast
  have "k \<le> d" by (rule first_of_SomeD(2) [OF k _ d]) simp
  with k that show thesis by (simp add: next_deadline_def)
qed

lemma first_fst_le:
  fixes S :: "('a::linorder \<times> 'b::linorder) set"
  assumes "(d, i) \<in> S" "finite S"
  obtains d' where "d' \<in> set_option (map_option fst (first_of S))" "d' \<le> d"
proof -
  from assms have "first_of S \<noteq> None" by auto
  then obtain x where x: "first_of S = Some x" by blast
  from first_of_SomeD(2) [OF x assms(2,1)] have "fst x \<le> d" by (cases x) auto
  with x that show thesis by auto
qed

lemma next_deadline_covers:
  assumes inv: "inv {} {} {} e" and now: "case next_deadline e of None \<Rightarrow> True | Some d \<Rightarrow> \<not> d \<le> now"
  shows "due_delayed now e = {}" "late now e = {}" "overdue now e = {}"
proof -
  have ix: "index_ok e" and dl: "delayed_ok {} e" using inv by (simp_all add: inv_def)
  have none: "\<not> d \<le> now" if d: "d \<in> set_option (map_option fst (first_of (e_delay_heads e))) \<union>
      set_option (map_option fst (first_of (e_pauses e))) \<union> set_option (map_option fst (first_of (e_conn_ticks e)))" for d
  proof -
    from next_deadline_le [OF d] obtain k where "next_deadline e = Some k" "k \<le> d" .
    with now show ?thesis by auto
  qed
  show "due_delayed now e = {}"
  proof (rule ccontr)
    assume "due_delayed now e \<noteq> {}"
    then have "delay_due now e" using not_delay_due [OF inv] by blast
    then obtain d tid jid where s: "soonest_delayed_job e = Some (d, tid, jid)" "d \<le> now"
      by (auto simp: delay_due_def split: option.splits prod.splits)
    from soonest_delayed_job_Some [OF inv s(1)] obtain j where
      j: "e_jobs e jid = Some j" "j_state j = Delayed" "j_tube j = tid" "j_deadline_at j = d" by metis
    from inv_tube [OF inv j(1)] obtain u where u: "tube e (j_tube j) = Some u" .
    have m: "(d, jid) \<in> t_delayed u" using delayed_tubeD [OF dl u] j by (auto simp: jobs_st_def)
    from first_fst_le [OF m finite] obtain d' where "d' \<in> set_option (map_option fst (first_of (t_delayed u)))" "d' \<le> d" by blast
    then have d': "delay_key u = Some d'" "d' \<le> d" by (simp_all add: delay_key_def)
    have "(d', j_tube j) \<in> e_delay_heads e"
      using dly.exact_keys [of e] ix u d'(1) by (auto simp: index_ok_def)
    from first_fst_le [OF this finite_delay_heads [OF ix]] obtain d''
      where "d'' \<in> set_option (map_option fst (first_of (e_delay_heads e)))" "d'' \<le> d'" .
    with none [of d''] d'(2) s(2) show False by auto
  qed
  have idle: "due_conn now {} e = None"
  proof (rule ccontr)
    assume "due_conn now {} e \<noteq> None"
    then obtain k cid where k: "(k, cid) \<in> e_conn_ticks e" "k \<le> now" by (auto simp: due_conn_def)
    from first_fst_le [OF k(1) finite] obtain d' where "d' \<in> set_option (map_option fst (first_of (e_conn_ticks e)))" "d' \<le> k" by blast
    with none [of d'] k(2) show False by auto
  qed
  show "late now e = {}" using late_due_conn [OF inv, of _ _ now "{}"] idle by auto
  show "overdue now e = {}" using overdue_due_conn [OF inv, of _ now "{}"] idle by auto
qed

section \<open>Tick\<close>

lemma tick_good:
  assumes g: "good e" and pot: "pot e < 2 ^ 64"
  shows "returns (tick now (e, out))
    (\<lambda>(e', out'). settles e e' \<and> due_delayed now e' = {} \<and> late now e' = {} \<and> overdue now e' = {})"
proof (cases "case next_deadline e of None \<Rightarrow> True | Some d \<Rightarrow> \<not> d \<le> now")
  case True
  have "tick now (e, out) = Some (e, out)" using True by (auto simp: tick_def split: option.splits)
  moreover have "inv {} {} {} e" using g by (simp add: good_def)
  ultimately show ?thesis using next_deadline_covers [OF _ True] settles_refl [OF g] by simp
next
  case False
  then obtain d where d: "next_deadline e = Some d" "d \<le> now" by (auto split: option.splits)
  from delayed_loop_good [OF g pot, of now out] obtain e1 out1 where
    l1: "loop (\<lambda>(e, out). delay_due now e) (ready_delayed now) (e, out) = Some (e1, out1)"
    and st1: "settles e e1" "due_delayed now e1 = {}" by (auto simp: returns_def)
  from st1(1) pot have g1: "good e1" "pot e1 < 2 ^ 64" by (simp_all add: settles_def)
  have "returns (if pause_expired now e1 then process_queue now (e1, out1) else Some (e1, out1))
    (\<lambda>(e', out'). settles e1 e' \<and> due_delayed now e' = {})"
  proof (cases "pause_expired now e1")
    case True
    from process_queue_good [of e1 now out1] g1 have
      "returns (process_queue now (e1, out1)) (\<lambda>(e', out'). good e' \<and> dispatched now e1 e' \<and> hands_out e1 e' out1 out')"
      by (simp add: good_def)
    moreover have "settles e1 e'" "due_delayed now e' = {}" if "good e'" "dispatched now e1 e'" for e'
      using that(1) dispatched_facts(1-3) [OF that(2)] dispatched_due_mono(1) [OF that(2)] st1(2) by (simp_all add: settles_def)
    ultimately have "returns (process_queue now (e1, out1)) (\<lambda>(e', out'). settles e1 e' \<and> due_delayed now e' = {})"
      by (elim returns_mono) auto
    with True show ?thesis by simp
  qed (use settles_refl [OF g1(1)] st1 in simp)
  then obtain e2 out2 where
    l2: "(if pause_expired now e1 then process_queue now (e1, out1) else Some (e1, out1)) = Some (e2, out2)"
    and st2: "settles e1 e2" "due_delayed now e2 = {}" unfolding returns_def by (elim exE conjE) auto
  from st2(1) g1 have g2: "good e2" "pot e2 < 2 ^ 64" by (simp_all add: settles_def)
  from timeouts_loop_good [OF g2, of now out2] obtain e3 out3 P where
    l3: "loop (\<lambda>(s, processed). due_conn now processed (fst s) \<noteq> None) (timeout_due_conn now) ((e2, out2), {}) = Some ((e3, out3), P)"
    and st3: "settles e2 e3" "due_delayed now e3 \<subseteq> due_delayed now e2" "late now e3 = {}" "overdue now e3 = {}"
    unfolding returns_def by (elim exE conjE) (auto split: prod.splits)
  have "tick now (e, out) = Some (e3, out3)" using d l2 by (simp add: tick_def l1 l3 del: not_None_eq)
  moreover have "settles e e3" using settles_trans [OF settles_trans [OF st1(1) st2(1)] st3(1)] .
  ultimately show ?thesis using st2(2) st3 by simp
qed

end
