(* ===== verification/Engine_Run.thy ===== *)
theory Engine_Run
  imports Engine_Time
begin

text \<open>
  The engine as a state machine: the initial state is good, every input the server may feed
  (\<open>legal\<close>) is answered and keeps the engine good, and so every reachable state is good.
  The number of inputs bounds how far the two 64-bit counters that must not wrap (job ids and
  list keys) can have advanced.
\<close>

section \<open>The initial state\<close>

lemma engine_new_eq:
  "engine_new now cfg sys = Some ((engine_empty now cfg sys)
     \<lparr>e_tubes := [Some (tube_state_new default_tube 0)], e_tube_ids := [default_tube \<mapsto> 0],
      e_tube_order := ms_append 0 ms_new\<rparr>)"
  by (simp add: engine_new_def find_or_make_tube_def engine_empty_def ms_new_def ms_len_def)

lemma engine_new_good:
  assumes "engine_new now cfg sys = Some e"
  shows "good e" "pot e = 0" "e_next_job_id e = 1" "e_conns e = Map.empty" "e_jobs e = Map.empty"
proof -
  define t where "t = tube_state_new default_tube 0"
  have e: "e = (engine_empty now cfg sys)
     \<lparr>e_tubes := [Some t], e_tube_ids := [default_tube \<mapsto> 0], e_tube_order := ms_append 0 ms_new\<rparr>"
    using assms by (simp add: engine_new_eq t_def)
  show jobs: "e_jobs e = Map.empty" and conns: "e_conns e = Map.empty" and nid: "e_next_job_id e = 1"
    by (simp_all add: e engine_empty_def)
  have tube: "tube e tid = (if tid = 0 then Some t else None)" for tid by (simp add: tube_def e nth_opt_def)
  have no: "users e tid = {}" "watchers e tid = {}" "tube_jobs e tid = {}" "waiting_conns e = {}" "waiters e tid = {}"
    "jobs_st {} e st = {}" "jobs_in {} e st P = {}" "keyed_jobs {} e = {}" for tid st P
    by (auto simp: users_def watchers_def tube_jobs_def waiting_conns_def waiters_def jobs_st_def jobs_in_def keyed_jobs_def jobs conns)
  have tf: "t_name t = default_tube" "t_pos t = 0" "t_ready t = {}" "t_delayed t = {}" "t_buried t = Map.empty"
    "t_waiting_conns t = ms_new" "t_using_ct t = 0" "t_watching_ct t = 0" "t_job_ref_ct t = 0" "t_stat t = default_tube_stat"
    "t_pause t = 0" "t_delay_head t = None" "\<not> t_dispatchable t"
    by (simp_all add: t_def tube_state_new_def)
  have "slab_ok e" by (auto simp: slab_ok_def tube tf DEFAULT_TUBE_def) (simp_all add: e engine_empty_def ms_append_def ms_new_def nth_opt_def split: if_splits)
  moreover have "refs_ok {} e" by (auto simp: refs_ok_def tube tf no conns DEFAULT_TUBE_def split: if_splits)
  moreover have "wait_ok {} e"
    by (auto simp: wait_ok_def tube tf no conns ms_new_def default_tube_stat_def split: if_splits) (simp add: e engine_empty_def)
  moreover have "jobs_ok {} e" by (simp add: jobs_ok_def jobs nid)
  moreover have "seq_ok {} e" by (simp add: seq_ok_def no)
  moreover have "pending_ok e" by (simp add: pending_ok_def pending_id_def conns)
  moreover have "ready_ok {} e" "delayed_ok {} e" "buried_ok {} e" "reserved_ok {} e"
    by (simp_all add: ready_ok_def delayed_ok_def buried_ok_def reserved_ok_def tube tf no conns default_tube_stat_def,
        simp_all add: e engine_empty_def)
  moreover have "\<not> wants_dispatch t" by (simp add: wants_dispatch_def tf)
  then have "index_ok e"
    by (auto simp: index_ok_def disp.exact_def dly.exact_def tik.exact_def disp.fresh_def dly.fresh_def tik.fresh_def
        pauses_ok_def tube tf conns delay_key_def split: if_splits)
      (simp_all add: e engine_empty_def)
  moreover have "conn_counts_ok e" by (simp add: conn_counts_ok_def conns) (simp add: e engine_empty_def)
  moreover have "quiet e" by (simp add: quiet_def tube wants_dispatch_def tf)
  moreover have "watching e" by (simp add: watching_def conns)
  ultimately show "good e" by (simp add: good_def inv_def)
  show "pot e = 0" by (simp add: pot_def no) (simp add: e engine_empty_def)
qed

section \<open>One input\<close>

text \<open>The server connects an id once, never has 2^32 - 1 connections already when it does so,
  and sends no command on a connection that is blocked in a reserve.\<close>

fun legal :: "engine \<Rightarrow> engine_input \<Rightarrow> bool" where
  "legal e (IConnect c) \<longleftrightarrow> e_conns e c = None \<and> e_cur_conns e \<noteq> - 1"
| "legal e (ICommand c cmd) \<longleftrightarrow> \<not> conn_is_waiting c e"
| "legal e _ \<longleftrightarrow> True"

definition headroom :: "engine \<Rightarrow> bool" where
  "headroom e \<longleftrightarrow> unat (e_next_job_id e) < 2 ^ 63 \<and> pot e < 2 ^ 63"

lemma conn_is_waiting_iff: "conn_is_waiting c e \<longleftrightarrow> c \<in> waiting_conns e"
  by (auto simp: conn_is_waiting_def waiting_conns_def split: option.splits)

lemma good_draining: "good (set_draining on e) = good e" "grows e (set_draining on e)"
  by (simp_all add: set_draining_def good_def grows_def quiet_def watching_def pot_def waiting_conns_def)

lemma conns_room:
  assumes "good e" "e_cur_conns e \<noteq> - 1"
  shows "card (dom (e_conns e)) < 2 ^ 32 - 1"
proof -
  let ?n = "card (dom (e_conns e))"
  have n: "?n < 2 ^ 32" and c: "e_cur_conns e = of_nat ?n"
    using assms(1) by (simp_all add: good_def inv_def refs_ok_def conn_counts_ok_def)
  have "?n \<noteq> 2 ^ 32 - 1"
  proof
    assume "?n = 2 ^ 32 - 1"
    then have "of_nat ?n = (- 1 :: u32)" by simp
    with c assms(2) show False by simp
  qed
  with n show ?thesis by simp
qed

lemma run_input_good:
  assumes g: "good e" and h: "headroom e" and l: "legal e i"
  shows "returns (run_input now i (e, out)) (\<lambda>(e', out'). good e' \<and> grows e e')"
proof -
  have pot: "pot e < 2 ^ 63" "pot e < 2 ^ 64" and small: "unat (e_next_job_id e) < 2 ^ 63"
    using h by (simp_all add: headroom_def)
  show ?thesis
  proof (cases i)
    case (IConnect c)
    with l have "e_cur_conns e \<noteq> - 1" "e_conns e c = None" by simp_all
    with connect_good [OF g, of c now] conns_room [OF g] IConnect show ?thesis by simp
  next
    case (IDisconnect c)
    with disconnect_good [OF g pot(2) small] show ?thesis by simp
  next
    case (IHalfClose c)
    with half_close_good [OF g] show ?thesis by (cases "half_close now c (e, out)") auto
  next
    case (IPutStarted c b)
    with put_started_good [OF g small] show ?thesis by simp
  next
    case (IPutRejected c why)
    with put_rejected_good [OF g small] show ?thesis by (cases "put_rejected now c why (e, out)") auto
  next
    case (ICommand c cmd)
    with handle_good [OF g pot(1) small] l show ?thesis by (simp add: conn_is_waiting_iff)
  next
    case ITick
    with g show ?thesis by simp
  next
    case (ISetDraining on)
    with g good_draining [where on = on and e = e] show ?thesis by simp
  qed
qed

lemma apply_input_good:
  assumes g: "good e" and h: "headroom e" and l: "legal e i"
  shows "returns (apply_input now i (e, out))
    (\<lambda>(e', out'). good e' \<and> grows e e' \<and> due_delayed now e' = {} \<and> late now e' = {} \<and> overdue now e' = {})"
proof -
  from run_input_good [OF assms, of now out] obtain e1 out1 where
    r: "run_input now i (e, out) = Some (e1, out1)" and g1: "good e1" "grows e e1" by (auto simp: returns_def)
  have "pot e1 < 2 ^ 64" using g1(2) h by (simp add: grows_def headroom_def)
  from tick_good [OF g1(1) this, of now out1] obtain e2 out2 where
    t: "tick now (e1, out1) = Some (e2, out2)" "settles e1 e2" "due_delayed now e2 = {}" "late now e2 = {}" "overdue now e2 = {}" by (auto simp: returns_def)
  from t(2) g1(2) have "good e2 \<and> grows e e2" by (simp add: settles_def grows_def)
  with r t show ?thesis by (simp add: apply_input_def)
qed

section \<open>Reachable states\<close>

inductive reach :: "engine_config \<Rightarrow> nat \<Rightarrow> engine \<Rightarrow> bool" for cfg where
  reach_new: "engine_new now cfg sys = Some e \<Longrightarrow> reach cfg 0 e"
| reach_step: "reach cfg n e \<Longrightarrow> legal e i \<Longrightarrow> apply_input now i (e, out) = Some (e', out') \<Longrightarrow> reach cfg (Suc n) e'"

inductive_cases reach_0E: "reach cfg 0 e"
inductive_cases reach_SucE: "reach cfg (Suc n) e"

lemma reach_good:
  assumes "reach cfg n e" "n < 2 ^ 63"
  shows "good e \<and> pot e \<le> n \<and> unat (e_next_job_id e) \<le> Suc n"
  using assms
proof (induction rule: reach.induct)
  case (reach_new now sys e)
  with engine_new_good [OF reach_new(1)] show ?case by simp
next
  case (reach_step n e i now out e' out')
  then have ih: "good e" "pot e \<le> n" "unat (e_next_job_id e) \<le> Suc n" by simp_all
  have "headroom e" using ih(2,3) reach_step.prems by (simp add: headroom_def)
  from apply_input_good [OF ih(1) this reach_step.hyps(2), of now out] reach_step.hyps(3)
  have "good e'" "grows e e'" by simp_all
  with ih show ?case by (simp add: grows_def)
qed

declare loop.simps [code]

text \<open>The executable form: a list of timed inputs, refused if one is not legal.\<close>

fun run_inputs :: "(nanos \<times> engine_input) list \<Rightarrow> eng_out \<Rightarrow> eng_out option" where
  "run_inputs [] s = Some s"
| "run_inputs ((now, i) # is) s =
     (if legal (fst s) i then apply_input now i s \<bind> run_inputs is else None)"

lemma run_inputs_reach:
  "run_inputs is (e, out) = Some (e', out') \<Longrightarrow> reach cfg n e \<Longrightarrow> reach cfg (n + length is) e'"
proof (induction "is" arbitrary: e out n)
  case (Cons x xs)
  obtain now i where x: "x = (now, i)" by (cases x)
  with Cons.prems(1) obtain e1 out1 where "legal e i" "apply_input now i (e, out) = Some (e1, out1)"
    and r: "run_inputs xs (e1, out1) = Some (e', out')" by (auto simp: bind_eq_Some_conv split: if_splits)
  with Cons.prems(2) have "reach cfg (Suc n) e1" by (blast intro: reach_step)
  from Cons.IH [OF r this] show ?case by simp
qed simp

lemma reach_inv:
  assumes "reach cfg n e" "n < 2 ^ 63"
  shows "inv {} {} {} e"
  using reach_good [OF assms] by (simp add: good_def)

end
