(* ===== verification/Engine_Keep.thy ===== *)
theory Engine_Keep
  imports Engine_Run
begin

text \<open>
  No job is lost and no job is altered: whatever the engine does, a job it holds stays, with
  its id, tube, body, time to run and creation time, until a \<open>delete\<close> names it.  The
  argument needs no invariant: it follows the job map through every operation.
\<close>

section \<open>The relation\<close>

definition same_job :: "job_rec \<Rightarrow> job_rec \<Rightarrow> bool" where
  "same_job j j' \<longleftrightarrow> j_id j' = j_id j \<and> j_tube j' = j_tube j \<and> j_ttr j' = j_ttr j \<and> j_body j' = j_body j \<and>
     j_created_at j' = j_created_at j"

definition keeps :: "(job_id \<rightharpoonup> job_rec) \<Rightarrow> (job_id \<rightharpoonup> job_rec) \<Rightarrow> bool" where
  "keeps m m' \<longleftrightarrow> (\<forall>i. rel_option same_job (m i) (m' i))"

named_theorems kept

lemma same_job_refl [simp]: "same_job j j"
  by (simp add: same_job_def)

lemma keeps_refl [simp]: "keeps m m"
  by (auto simp: keeps_def option.rel_refl)

lemma keeps_trans: "keeps m1 m2 \<Longrightarrow> keeps m2 m3 \<Longrightarrow> keeps m1 m3"
proof -
  have "rel_option same_job x y \<Longrightarrow> rel_option same_job y z \<Longrightarrow> rel_option same_job x z" for x y z
    by (cases x; cases y; cases z) (auto simp: same_job_def)
  then show "keeps m1 m2 \<Longrightarrow> keeps m2 m3 \<Longrightarrow> keeps m1 m3" unfolding keeps_def by blast
qed

lemma keeps_mut:
  assumes "\<And>j. same_job j (f j)"
  shows "keeps m (e_jobs e) \<Longrightarrow> keeps m (e_jobs (job_mut i f e))"
proof -
  have "keeps (e_jobs e) (e_jobs (job_mut i f e))"
    using assms by (cases "e_jobs e i") (auto simp: keeps_def option.rel_refl)
  then show "keeps m (e_jobs e) \<Longrightarrow> keeps m (e_jobs (job_mut i f e))" by (rule keeps_trans [rotated])
qed

lemma keepsD: "keeps m m' \<Longrightarrow> m i = Some j \<Longrightarrow> \<exists>j'. m' i = Some j' \<and> same_job j j'"
  unfolding keeps_def by (metis option_rel_Some1)

lemma keeps_None: "keeps m m' \<Longrightarrow> m i = None \<longleftrightarrow> m' i = None"
  unfolding keeps_def by (metis rel_option_None1 rel_option_None2)

text \<open>A loop keeps what its body keeps.\<close>

lemma loop_keeps:
  assumes l: "loop b c s = Some s'" and I: "I s" and body: "\<And>s s'. I s \<Longrightarrow> b s \<Longrightarrow> c s = Some s' \<Longrightarrow> I s'"
  shows "I s'"
proof -
  define Q where "Q = (\<lambda>b c s s'. I s \<longrightarrow> (\<forall>s s'. I s \<longrightarrow> b s \<longrightarrow> c s = Some s' \<longrightarrow> I s') \<longrightarrow> I s')"
  have "Q b c s s'"
  proof (rule loop.raw_induct [OF _ l])
    fix lp b c s y
    assume ih: "\<And>b c s y. lp b c s = Some y \<Longrightarrow> Q b c s y"
      and eq: "(if b s then c s \<bind> (\<lambda>s'. lp b c s') else Some s) = Some y"
    show "Q b c s y"
    proof (cases "b s")
      case True
      with eq obtain s1 where s1: "c s = Some s1" "lp b c s1 = Some y" by (auto simp: bind_eq_Some_conv)
      from ih [OF s1(2)] True s1(1) show ?thesis unfolding Q_def by blast
    next
      case False
      with eq show ?thesis by (simp add: Q_def)
    qed
  qed
  with I body show ?thesis unfolding Q_def by blast
qed

section \<open>The queue operations\<close>

lemma keeps_moves [kept]:
  "keeps m (e_jobs e) \<Longrightarrow> keeps m (e_jobs (insert_ready tid jid e))"
  "keeps m (e_jobs e) \<Longrightarrow> keeps m (e_jobs (insert_delayed tid jid d e))"
  "keeps m (e_jobs e) \<Longrightarrow> keeps m (e_jobs (insert_buried tid jid e))"
  "keeps m (e_jobs e) \<Longrightarrow> keeps m (e_jobs (do_reserve cid jid now e))"
  "keeps m (e_jobs e) \<Longrightarrow> keeps m (e_jobs (do_unreserve cid jid e))"
proof -
  assume k: "keeps m (e_jobs e)"
  have step: "keeps m (e_jobs (job_mut jid f e'))" if "\<And>j. same_job j (f j)" "e_jobs e' = e_jobs e" for f e'
    using keeps_mut [where f = f, OF that(1), of m e' jid] k that(2) by simp
  show "keeps m (e_jobs (insert_ready tid jid e))"
    using k step [of "\<lambda>j. j\<lparr>j_state := Ready, j_reserver := None\<rparr>" e]
    by (auto simp: insert_ready_def Let_def same_job_def split: option.split)
  show "keeps m (e_jobs (insert_delayed tid jid d e))"
    using step [of "\<lambda>j. j\<lparr>j_state := Delayed, j_reserver := None, j_deadline_at := d\<rparr>" e]
    by (auto simp: insert_delayed_def Let_def same_job_def split: option.split)
  show "keeps m (e_jobs (insert_buried tid jid e))"
    using step [of "\<lambda>j. j\<lparr>j_state := Buried, j_reserver := None, j_bury_ct := j_bury_ct j + 1, j_list_seq := e_next_list_seq e\<rparr>"
      "e\<lparr>e_next_list_seq := e_next_list_seq e + 1\<rparr>"]
    by (simp add: insert_buried_def Let_def same_job_def)
  show "keeps m (e_jobs (do_unreserve cid jid e))"
    using step [of "\<lambda>j. j\<lparr>j_reserver := None\<rparr>" e]
    by (auto simp: do_unreserve_def Let_def same_job_def split: option.split prod.split)
  show "keeps m (e_jobs (do_reserve cid jid now e))"
  proof (cases "e_jobs e jid")
    case None
    with k show ?thesis by (simp add: do_reserve_def)
  next
    case (Some j)
    with step [of "\<lambda>i. i\<lparr>j_state := Reserved, j_reserver := Some cid, j_deadline_at := sat_add now (secs (j_ttr j)),
        j_reserve_ct := j_reserve_ct i + 1, j_list_seq := e_next_list_seq e\<rparr>" "e\<lparr>e_next_list_seq := e_next_list_seq e + 1\<rparr>"]
    show ?thesis by (simp add: do_reserve_def Let_def same_job_def)
  qed
qed

lemma remove_from_queue_jobs [simp]: "e_jobs (remove_from_queue st tid jid e) = e_jobs e"
  by (simp add: remove_from_queue_def)

lemma reply_fst [simp]: "fst (reply cid r s) = fst s" "fst (reply_with cid b s) = fst s"
  by (cases s; simp add: reply_eq reply_with_eq)+

lemma process_queue_step_keeps:
  assumes "keeps m (e_jobs (fst s))"
  shows "keeps m (e_jobs (fst (process_queue_step now s)))"
proof -
  obtain e out where s: "s = (e, out)" by (cases s)
  show ?thesis
  proof (cases "best_job e")
    case None
    with assms s show ?thesis by (simp add: process_queue_step_def)
  next
    case (Some b)
    obtain p jid tid where b: "b = (p, jid, tid)" by (cases b)
    obtain taken e1 where t: "take_waiter tid (remove_ready tid jid e) = (taken, e1)" by (cases "take_waiter tid (remove_ready tid jid e)")
    have "e_jobs e1 = e_jobs (snd (take_waiter tid (remove_ready tid jid e)))" by (simp add: t)
    then have "keeps m (e_jobs e1)" using assms by (simp add: s)
    then show ?thesis
      by (cases taken) (simp_all add: process_queue_step_def s Some b t kept)
  qed
qed

lemma process_queue_keeps [kept]:
  assumes q: "process_queue now s = Some s'" and k: "keeps m (e_jobs (fst s))"
  shows "keeps m (e_jobs (fst s'))"
proof -
  obtain e out where s: "s = (e, out)" by (cases s)
  from q s obtain e1 where c: "clear_expired_pauses now e = Some e1"
    and l: "loop (\<lambda>(e, out). best_job e \<noteq> None) (\<lambda>s. Some (process_queue_step now s)) (e1, out) = Some s'"
    by (auto simp: process_queue_def bind_eq_Some_conv)
  have "keeps m (e_jobs e1)"
    by (rule loop_keeps [where I = "\<lambda>e. keeps m (e_jobs e)", OF c [unfolded clear_expired_pauses_def]]) (use k s in auto)
  then show ?thesis
  proof (intro loop_keeps [where I = "\<lambda>s. keeps m (e_jobs (fst s))", OF l])
    fix x y assume "keeps m (e_jobs (fst x))" "Some (process_queue_step now x) = Some y"
    then show "keeps m (e_jobs (fst y))" using process_queue_step_keeps [of m x now] by simp
  qed simp
qed

lemma find_or_make_tube_jobs: "find_or_make_tube n e = Some (tid, e') \<Longrightarrow> e_jobs e' = e_jobs e"
  by (auto simp: find_or_make_tube_def bind_eq_Some_conv Let_def split: option.splits if_splits)

lemma gc_tube_jobs:
  assumes "gc_tube_if_orphan tid e = Some e'"
  shows "e_jobs e' = e_jobs e"
proof (cases "tid = DEFAULT_TUBE \<or> tube e tid = None \<or> (\<exists>t. tube e tid = Some t \<and> tube_refs t \<noteq> 0)")
  case True
  with assms show ?thesis by (cases "tid = DEFAULT_TUBE"; cases "tube e tid") (auto simp: gc_tube_if_orphan_def)
next
  case False
  then obtain t where t: "tid \<noteq> DEFAULT_TUBE" "tube e tid = Some t" "tube_refs t = 0" by auto
  define e1 where "e1 = (let e = e\<lparr>e_tubes := (e_tubes e)[tid := None]\<rparr>;
      e = e\<lparr>e_tube_ids := (e_tube_ids e)(t_name t := None)\<rparr>;
      e = (if t_pause t > 0 then e\<lparr>e_pauses := e_pauses e - {(t_unpause_at t, tid)}\<rparr> else e);
      e = (case t_delay_head t of Some d \<Rightarrow> e\<lparr>e_delay_heads := e_delay_heads e - {(d, tid)}\<rparr> | None \<Rightarrow> e)
      in (if t_dispatchable t then e\<lparr>e_dispatchable := e_dispatchable e - {tid}\<rparr> else e))"
  have j1: "e_jobs e1 = e_jobs e" by (simp add: e1_def Let_def split: option.split)
  from assms obtain x order where "e' = (let e = e1\<lparr>e_tube_order := order\<rparr>;
      e = (case nth_opt (ms_items order) (t_pos t) of Some moved \<Rightarrow> tube_mut moved (\<lambda>m. m\<lparr>t_pos := t_pos t\<rparr>) e | None \<Rightarrow> e)
      in e\<lparr>e_free_tube_ids := e_free_tube_ids e @ [tid]\<rparr>)"
    unfolding gc_tube_if_orphan_def t(2) option.case Let_def e1_def [unfolded Let_def, symmetric]
    using t(1,3) by (auto simp: bind_eq_Some_conv)
  then show ?thesis by (simp add: Let_def j1 split: option.split)
qed

section \<open>The commands\<close>

lemma kick_to_ready_keeps:
  assumes "kick_to_ready tid jid now s = Some s'" "keeps m (e_jobs (fst s))"
  shows "keeps m (e_jobs (fst s'))"
proof -
  obtain e out where s: "s = (e, out)" by (cases s)
  let ?e = "journal_update jid (insert_ready tid jid (job_mut jid (\<lambda>j. j\<lparr>j_kick_ct := j_kick_ct j + 1\<rparr>) e))"
  have "keeps m (e_jobs ?e)" using assms(2) s by (simp, intro kept keeps_mut) (simp_all add: same_job_def)
  with assms(1) s process_queue_keeps [of now "(?e, out)" s' m] show ?thesis by (simp add: kick_to_ready_def Let_def)
qed

lemma kick_buried_loop_keeps:
  "kick_buried_loop n tid now k s = Some (k', s') \<Longrightarrow> keeps m (e_jobs (fst s)) \<Longrightarrow> keeps m (e_jobs (fst s'))"
proof (induction n tid now k s rule: kick_buried_loop.induct)
  case (2 n tid now k e out)
  obtain o1 e1 where p: "pop_buried_front tid e = (o1, e1)" by (cases "pop_buried_front tid e")
  have "e_jobs e1 = e_jobs (snd (pop_buried_front tid e))" by (simp add: p)
  then have k1: "keeps m (e_jobs e1)" using 2(3) by simp
  show ?case
  proof (cases o1)
    case None
    with 2(2) p k1 show ?thesis by auto
  next
    case (Some jid)
    with 2(2) p obtain s1 where s1: "kick_to_ready tid jid now (e1, out) = Some s1"
      "kick_buried_loop n tid now (k + 1) s1 = Some (k', s')" by (auto simp: bind_eq_Some_conv)
    with 2(1) [OF p [symmetric] Some s1] kick_to_ready_keeps [OF s1(1), of m] k1 show ?thesis by simp
  qed
qed simp

lemma kick_delayed_loop_keeps:
  "kick_delayed_loop n tid now k s = Some (k', s') \<Longrightarrow> keeps m (e_jobs (fst s)) \<Longrightarrow> keeps m (e_jobs (fst s'))"
proof (induction n tid now k s rule: kick_delayed_loop.induct)
  case (2 n tid now k e out)
  show ?case
  proof (cases "tube e tid \<bind> (\<lambda>t. first_of (t_delayed t))")
    case None
    with 2(2,3) show ?thesis by auto
  next
    case (Some x)
    obtain d jid where x: "x = (d, jid)" by (cases x)
    with 2(2) Some obtain s1 where s1: "kick_to_ready tid jid now (remove_delayed tid jid e, out) = Some s1"
      "kick_delayed_loop n tid now (k + 1) s1 = Some (k', s')" by (auto simp: bind_eq_Some_conv)
    with 2(1) [OF Some x [symmetric] s1] kick_to_ready_keeps [OF s1(1), of m] 2(3) show ?thesis by simp
  qed
qed simp

lemma connsets_jobs [simp]: "e_jobs (connsetproducer cid e) = e_jobs e" "e_jobs (connsetworker cid e) = e_jobs e"
  by simp_all

lemma take_pending_put_jobs:
  assumes "take_pending_put now cid e = ((jid, at), e')"
  shows "e_jobs e' = e_jobs e" "jid = (case pending_id e cid of Some i \<Rightarrow> i | None \<Rightarrow> e_next_job_id e)"
  using assms
  by (cases "e_conns e cid"; cases "c_pending_put (the (e_conns e cid))";
      auto simp: take_pending_put_def Let_def pending_id_def split: option.splits)+

lemma cmd_put_keeps:
  assumes c: "cmd_put now cid pri delay ttr body (e, out) = Some s'"
  obtains "keeps (e_jobs e) (e_jobs (fst s'))"
  | jid j where "jid = (case pending_id e cid of Some i \<Rightarrow> i | None \<Rightarrow> e_next_job_id e)"
      "keeps ((e_jobs e)(jid \<mapsto> j)) (e_jobs (fst s'))" "j_id j = jid" "j_body j = body" "j_ttr j = max ttr 1"
proof -
  obtain jid at e1 where p: "take_pending_put now cid e = ((jid, at), e1)" by (metis surj_pair)
  note pp = take_pending_put_jobs [OF p]
  show thesis
  proof (cases "e_draining e1")
    case True
    with c p pp that(1) show ?thesis by (auto simp: cmd_put_def Let_def)
  next
    case False
    define j where "j = \<lparr>j_id = jid, j_tube = use_tube_of cid e1, j_pri = pri, j_delay = delay, j_ttr = max ttr 1,
      j_body = body, j_created_at = at, j_deadline_at = 0, j_state = Ready, j_reserver = None, j_list_seq = 0,
      j_reserve_ct = 0, j_timeout_ct = 0, j_release_ct = 0, j_bury_ct = 0, j_kick_ct = 0,
      j_file = (if cfg_journal (e_cfg e1) then bl_current_index (e_binlog e1) else 0)\<rparr>"
    define e2 where "e2 = tube_mut (use_tube_of cid e1) (\<lambda>t. t\<lparr>t_job_ref_ct := t_job_ref_ct t + 1\<rparr>)
      (e1\<lparr>e_jobs := (e_jobs e1)(jid \<mapsto> j)\<rparr>)"
    define e3 where "e3 = journal_put jid (if delay > 0 then insert_delayed (use_tube_of cid e1) jid (sat_add now (secs delay)) e2
      else insert_ready (use_tube_of cid e1) jid e2)"
    have "keeps ((e_jobs e)(jid \<mapsto> j)) (e_jobs e2)" by (simp add: e2_def pp)
    then have k3: "keeps ((e_jobs e)(jid \<mapsto> j)) (e_jobs e3)" by (simp add: e3_def kept)
    from c False obtain e4 out4 where q: "process_queue now (e3, out) = Some (e4, out4)" and s': "e_jobs (fst s') = e_jobs e4"
      unfolding cmd_put_def Let_def p prod.case j_def [symmetric] e2_def [symmetric] e3_def [symmetric]
      by (auto simp: bind_eq_Some_conv)
    from process_queue_keeps [OF q, of "(e_jobs e)(jid \<mapsto> j)"] k3 s' pp(2) show ?thesis
      by (intro that(2) [of jid j]) (simp_all add: j_def)
  qed
qed

lemma cmd_delete_keeps:
  assumes c: "cmd_delete cid jid (e, out) = Some s'"
  obtains "keeps (e_jobs e) (e_jobs (fst s'))"
  | j where "e_jobs e jid = Some j" "j_state j \<noteq> Reserved \<or> j_reserver j = Some cid"
      "keeps ((e_jobs e)(jid := None)) (e_jobs (fst s'))"
proof (cases "\<exists>j. e_jobs e jid = Some j \<and> (j_state j \<noteq> Reserved \<or> j_reserver j = Some cid)")
  case False
  then have "keeps (e_jobs e) (e_jobs (fst s'))"
    using c by (cases "e_jobs e jid") (auto simp: cmd_delete_def Let_def split: job_state.splits)
  then show ?thesis by (rule that(1))
next
  case True
  then obtain j where j: "e_jobs e jid = Some j" "j_state j \<noteq> Reserved \<or> j_reserver j = Some cid" by blast
  define e0 where "e0 = count_op (\<lambda>c. c\<lparr>o_delete := o_delete c + 1\<rparr>) e"
  define e1 where "e1 = (case j_state j of Reserved \<Rightarrow> do_unreserve cid jid e0 | Ready \<Rightarrow> remove_ready (j_tube j) jid e0
    | Buried \<Rightarrow> snd (remove_buried (j_tube j) jid e0) | Delayed \<Rightarrow> remove_delayed (j_tube j) jid e0)"
  have "keeps (e_jobs e) (e_jobs e1)" by (simp add: e1_def e0_def kept split: job_state.split)
  then have k: "keeps ((e_jobs e)(jid := None)) ((e_jobs e1)(jid := None))" by (simp add: keeps_def)
  have ok: "(case j_state j of Reserved \<Rightarrow> if j_reserver j = Some cid then (True, do_unreserve cid jid e0) else (False, e0)
      | Ready \<Rightarrow> (True, remove_ready (j_tube j) jid e0) | Buried \<Rightarrow> (True, snd (remove_buried (j_tube j) jid e0))
      | Delayed \<Rightarrow> (True, remove_delayed (j_tube j) jid e0)) = (True, e1)"
    using j(2) by (simp add: e1_def split: job_state.split)
  have j0: "e_jobs e0 jid = Some j" by (simp add: e0_def j)
  from c have "e_jobs (fst s') = (e_jobs e1)(jid := None)"
    unfolding cmd_delete_def Let_def prod.case e0_def [symmetric] j0 option.case ok
    by (auto simp: bind_eq_Some_conv dest!: gc_tube_jobs)
  with k j show ?thesis by (intro that(2)) simp_all
qed

lemma release_reserved_keeps:
  "release_reserved now cid jids s = Some s' \<Longrightarrow> keeps m (e_jobs (fst s)) \<Longrightarrow> keeps m (e_jobs (fst s'))"
proof (induction now cid jids s rule: release_reserved.induct)
  case (2 now cid jid jids e out)
  let ?e = "case e_jobs (do_unreserve cid jid e) jid of Some j \<Rightarrow> insert_ready (j_tube j) jid (do_unreserve cid jid e)
    | None \<Rightarrow> do_unreserve cid jid e"
  from 2(2) obtain s1 where s1: "process_queue now (?e, out) = Some s1" "release_reserved now cid jids s1 = Some s'"
    by (auto simp: bind_eq_Some_conv Let_def)
  have "keeps m (e_jobs ?e)" using 2(3) by (simp add: kept split: option.split)
  with process_queue_keeps [OF s1(1), of m] have "keeps m (e_jobs (fst s1))" by simp
  with 2(1) [OF refl refl s1] show ?case by simp
qed simp

lemma unwatch_all_jobs: "unwatch_all ts e = Some e' \<Longrightarrow> e_jobs e' = e_jobs e"
proof (induction ts arbitrary: e)
  case (Cons t ts)
  let ?e = "tube_mut t (\<lambda>t. t\<lparr>t_watching_ct := sat_sub (t_watching_ct t) 1\<rparr>) e"
  from Cons.prems obtain e1 where e1: "gc_tube_if_orphan t ?e = Some e1" "unwatch_all ts e1 = Some e'"
    by (auto simp: bind_eq_Some_conv Let_def)
  from Cons.IH [OF e1(2)] gc_tube_jobs [OF e1(1)] show ?case by simp
qed simp

lemma drops_jobs:
  "drop_watches cid e = Some e' \<Longrightarrow> e_jobs e' = e_jobs e"
  "drop_use cid e = Some e' \<Longrightarrow> e_jobs e' = e_jobs e"
  "e_jobs (drop_conn cid e) = e_jobs e"
proof -
  show "drop_watches cid e = Some e' \<Longrightarrow> e_jobs e' = e_jobs e"
    by (cases "ms_clear_in_delete_order (c_watch (the (e_conns e cid)))")
      (auto simp: drop_watches_def split: option.splits dest!: unwatch_all_jobs)
  show "drop_use cid e = Some e' \<Longrightarrow> e_jobs e' = e_jobs e"
    by (auto simp: drop_use_def split: option.splits dest!: gc_tube_jobs)
  show "e_jobs (drop_conn cid e) = e_jobs e"
    by (simp add: drop_conn_def Let_def split: option.split)
qed

lemma disconnect_keeps:
  assumes "disconnect now cid s = Some s'"
  shows "keeps (e_jobs (fst s)) (e_jobs (fst s'))"
proof -
  obtain e out where s: "s = (e, out)" by (cases s)
  show ?thesis
  proof (cases "e_conns e cid = None")
    case True
    with assms s show ?thesis by (auto simp: disconnect_def)
  next
    case False
    with assms s obtain jids e1 out1 e2 e3 where
      r: "release_reserved now cid jids (do_remove_waiting_conn cid e, out) = Some (e1, out1)"
      and d: "drop_watches cid e1 = Some e2" "drop_use cid e2 = Some e3" "s' = (drop_conn cid e3, out1)"
      by (auto simp: disconnect_def Let_def bind_eq_Some_conv)
    from release_reserved_keeps [OF r, of "e_jobs e"] show ?thesis
      by (simp add: s d(3) drops_jobs(3) drops_jobs(2) [OF d(2)] drops_jobs(1) [OF d(1)])
  qed
qed

section \<open>Time\<close>

lemma expire_reservation_keeps:
  assumes "expire_reservation cid now s = Some s'" "keeps m (e_jobs (fst s))"
  shows "keeps m (e_jobs (fst s'))"
proof -
  obtain e out where s: "s = (e, out)" by (cases s)
  show ?thesis
  proof (cases "e_conns e cid \<bind> soonest_reserved")
    case None
    with assms s show ?thesis by (auto simp: expire_reservation_def)
  next
    case (Some x)
    obtain d jid where x: "x = (d, jid)" by (cases x)
    define e1 where "e1 = job_mut jid (\<lambda>j. j\<lparr>j_timeout_ct := j_timeout_ct j + 1\<rparr>)
      ((do_unreserve cid jid e)\<lparr>e_timeout_ct := e_timeout_ct (do_unreserve cid jid e) + 1\<rparr>)"
    have "keeps m (e_jobs e1)"
      unfolding e1_def using assms(2) by (intro keeps_mut) (simp_all add: same_job_def s kept)
    then have "keeps m (e_jobs (case map_option j_tube (e_jobs e jid) of Some tid \<Rightarrow> insert_ready tid jid e1 | None \<Rightarrow> e1))"
      by (simp add: kept split: option.split)
    with assms(1) process_queue_keeps [of now _ s' m] show ?thesis
      unfolding expire_reservation_def s prod.case Some x option.case Let_def e1_def [symmetric] by fastforce
  qed
qed

lemma conn_timeout_keeps:
  assumes "conn_timeout cid now s = Some s'" "keeps m (e_jobs (fst s))"
  shows "keeps m (e_jobs (fst s'))"
proof -
  from assms(1) obtain e out where
    l: "loop (\<lambda>(e, out). reservation_expired cid now e) (expire_reservation cid now) s = Some (e, out)"
    and s': "e_jobs (fst s') = e_jobs e"
    by (auto simp: conn_timeout_def bind_eq_Some_conv Let_def split: if_splits)
  have "keeps m (e_jobs (fst (e, out)))"
    by (rule loop_keeps [where I = "\<lambda>s. keeps m (e_jobs (fst s))", OF l]) (use assms(2) expire_reservation_keeps in auto)
  with s' show ?thesis by simp
qed

lemma tick_keeps:
  assumes t: "tick now s = Some s'" and k: "keeps m (e_jobs (fst s))"
  shows "keeps m (e_jobs (fst s'))"
proof (cases "\<exists>d. next_deadline (fst s) = Some d \<and> d \<le> now")
  case False
  then have "s' = s" using t by (auto simp: tick_def split: option.splits if_splits)
  with k show ?thesis by simp
next
  case True
  then obtain d where d: "next_deadline (fst s) = Some d" "d \<le> now" by blast
  from t obtain s1 s2 P where
    l1: "loop (\<lambda>(e, out). delay_due now e) (ready_delayed now) s = Some s1"
    and q: "(if pause_expired now (fst s1) then process_queue now s1 else Some s1) = Some s2"
    and l2: "loop (\<lambda>(s, processed). due_conn now processed (fst s) \<noteq> None) (timeout_due_conn now) (s2, {}) = Some (s', P)"
    unfolding tick_def d(1) option.case by (auto simp: bind_eq_Some_conv d(2) simp del: not_None_eq)
  have rd: "keeps m (e_jobs (fst s'))" if "ready_delayed now s = Some s'" "keeps m (e_jobs (fst s))" for s s'
  proof -
    obtain e out where s: "s = (e, out)" by (cases s)
    show ?thesis
    proof (cases "soonest_delayed_job e")
      case None
      with that s show ?thesis by (auto simp: ready_delayed_def)
    next
      case (Some x)
      obtain d tid jid where x: "x = (d, tid, jid)" by (cases x)
      from that(1) have "process_queue now (insert_ready tid jid (remove_delayed tid jid e), out) = Some s'"
        by (simp add: ready_delayed_def s Some x)
      from process_queue_keeps [OF this, of m] that(2) show ?thesis by (simp add: s kept)
    qed
  qed
  have "keeps m (e_jobs (fst s1))"
    by (rule loop_keeps [where I = "\<lambda>s. keeps m (e_jobs (fst s))", OF l1 k]) (rule rd)
  then have k2: "keeps m (e_jobs (fst s2))" using q by (auto split: if_splits intro: process_queue_keeps)
  have "keeps m (e_jobs (fst (fst (s', P))))"
  proof (rule loop_keeps [where I = "\<lambda>sp. keeps m (e_jobs (fst (fst sp)))", OF l2])
    fix x y assume "keeps m (e_jobs (fst (fst x)))" "timeout_due_conn now x = Some y"
    then show "keeps m (e_jobs (fst (fst y)))"
      by (auto simp: timeout_due_conn_def split: option.splits prod.splits intro: conn_timeout_keeps)
  qed (use k2 in simp)
  then show ?thesis by simp
qed

section \<open>Every input\<close>

text \<open>What one input may do to the set of jobs.\<close>

definition put_id :: "engine \<Rightarrow> conn_id \<Rightarrow> job_id" where
  "put_id e cid = (case pending_id e cid of Some i \<Rightarrow> i | None \<Rightarrow> e_next_job_id e)"

inductive job_step :: "engine \<Rightarrow> engine_input \<Rightarrow> (job_id \<rightharpoonup> job_rec) \<Rightarrow> bool" for e where
  unchanged: "keeps (e_jobs e) m \<Longrightarrow> job_step e i m"
| put: "j_id j = put_id e cid \<Longrightarrow> j_body j = body \<Longrightarrow> j_ttr j = max ttr 1 \<Longrightarrow>
    keeps ((e_jobs e)(put_id e cid \<mapsto> j)) m \<Longrightarrow> job_step e (ICommand cid (CPut pri delay ttr body)) m"
| deleted: "e_jobs e jid = Some j \<Longrightarrow> j_state j \<noteq> Reserved \<or> j_reserver j = Some cid \<Longrightarrow>
    keeps ((e_jobs e)(jid := None)) m \<Longrightarrow> job_step e (ICommand cid (CDelete jid)) m"

lemma job_step_trans: "job_step e i m \<Longrightarrow> keeps m m' \<Longrightarrow> job_step e i m'"
  by (induction rule: job_step.induct) (auto intro: job_step.intros keeps_trans)

lemma cmd_release_keeps:
  assumes "cmd_release now cid jid pri delay (e, out) = Some s'"
  shows "keeps (e_jobs e) (e_jobs (fst s'))"
proof (cases "reserved_by cid jid e")
  case None
  then have "reserved_by cid jid (count_op f e) = None" for f by (simp add: reserved_by_def)
  with assms show ?thesis by (auto simp: cmd_release_def)
next
  case (Some tid)
  then have r: "reserved_by cid jid (count_op f e) = Some tid" for f by (simp add: reserved_by_def)
  define e1 where "e1 = job_mut jid (\<lambda>j. j\<lparr>j_pri := pri, j_delay := delay, j_release_ct := j_release_ct j + 1\<rparr>)
    (do_unreserve cid jid (count_op (\<lambda>c. c\<lparr>o_release := o_release c + 1\<rparr>) e))"
  have "keeps (e_jobs e) (e_jobs e1)" unfolding e1_def by (intro keeps_mut kept) (simp_all add: same_job_def)
  then have k: "keeps (e_jobs e) (e_jobs (if delay > 0 then journal_update jid (insert_delayed tid jid (sat_add now (secs delay)) e1)
      else insert_ready tid jid e1))"
    by (simp add: kept)
  from assms obtain s1 where q: "process_queue now (if delay > 0 then journal_update jid (insert_delayed tid jid (sat_add now (secs delay)) e1)
      else insert_ready tid jid e1, out) = Some s1" "fst s' = fst s1"
    unfolding cmd_release_def prod.case Let_def r option.case e1_def [symmetric] by (auto simp: bind_eq_Some_conv)
  from process_queue_keeps [OF q(1)] k q(2) show ?thesis by simp
qed

lemma cmd_reserve_keeps:
  assumes "cmd_reserve now cid timeout (e, out) = Some s'"
  shows "keeps (e_jobs e) (e_jobs (fst s'))"
proof -
  define e1 where "e1 = connsetworker cid (case timeout of None \<Rightarrow> count_op (\<lambda>c. c\<lparr>o_reserve := o_reserve c + 1\<rparr>) e
    | Some _ \<Rightarrow> count_op (\<lambda>c. c\<lparr>o_reserve_with_timeout := o_reserve_with_timeout c + 1\<rparr>) e)"
  have k: "e_jobs e1 = e_jobs e" by (simp add: e1_def split: option.split)
  show ?thesis
  proof (cases "conn_deadline_soon cid now e1 \<and> \<not> conn_ready cid e1")
    case True
    with assms k show ?thesis by (auto simp: cmd_reserve_def Let_def e1_def [symmetric])
  next
    case False
    with assms obtain e2 out2 where q: "process_queue now (enqueue_waiting_conn cid (map_option (\<lambda>t. sat_add now (secs t)) timeout) e1, out) = Some (e2, out2)"
      and s': "e_jobs (fst s') = e_jobs e2"
      unfolding cmd_reserve_def Let_def prod.case e1_def [symmetric] by (auto simp: bind_eq_Some_conv split: if_splits)
    from process_queue_keeps [OF q, of "e_jobs e"] s' k show ?thesis by simp
  qed
qed

lemma cmd_kick_keeps:
  assumes "cmd_kick now cid n (e, out) = Some s'"
  shows "keeps (e_jobs e) (e_jobs (fst s'))"
proof -
  define e1 where "e1 = count_op (\<lambda>c. c\<lparr>o_kick := o_kick c + 1\<rparr>) e"
  let ?b = "case tube e1 (use_tube_of cid e1) of Some t \<Rightarrow> dom (t_buried t) \<noteq> {} | None \<Rightarrow> False"
  from assms obtain k s1 where
    q: "(if ?b then kick_buried_loop (unat n) (use_tube_of cid e1) now 0 (e1, out)
      else kick_delayed_loop (unat n) (use_tube_of cid e1) now 0 (e1, out)) = Some (k, s1)" and "s' = reply cid (RKicked k) s1"
    unfolding cmd_kick_def Let_def prod.case e1_def [symmetric] bind_eq_Some_conv by (elim exE conjE) auto
  moreover have "keeps (e_jobs e) (e_jobs (fst (e1, out)))" by (simp add: e1_def)
  ultimately show ?thesis
    by (cases ?b) (simp_all only: if_True if_False reply_fst kick_buried_loop_keeps kick_delayed_loop_keeps)
qed

lemma cmd_kick_job_keeps:
  assumes "cmd_kick_job now cid jid (e, out) = Some s'"
  shows "keeps (e_jobs e) (e_jobs (fst s'))"
proof (cases "e_jobs e jid")
  case None
  with assms show ?thesis by (auto simp: cmd_kick_job_def)
next
  case (Some j)
  show ?thesis
  proof (cases "j_state j = Buried \<or> j_state j = Delayed")
    case False
    with assms Some show ?thesis by (auto simp: cmd_kick_job_def split: job_state.splits)
  next
    case True
    with assms Some obtain e1 s1 where "kick_to_ready (j_tube j) jid now (e1, out) = Some s1" "fst s' = fst s1" "e_jobs e1 = e_jobs e"
      by (auto simp: cmd_kick_job_def bind_eq_Some_conv)
    with kick_to_ready_keeps [of "j_tube j" jid now "(e1, out)" s1 "e_jobs e"] show ?thesis by simp
  qed
qed

lemma cmd_tubes_jobs:
  "cmd_use cid name (e, out) = Some s' \<Longrightarrow> e_jobs (fst s') = e_jobs e"
  "cmd_watch cid name (e, out) = Some s' \<Longrightarrow> e_jobs (fst s') = e_jobs e"
  "cmd_ignore cid name (e, out) = Some s' \<Longrightarrow> e_jobs (fst s') = e_jobs e"
proof -
  show "cmd_use cid name (e, out) = Some s' \<Longrightarrow> e_jobs (fst s') = e_jobs e"
    by (auto simp: cmd_use_def Let_def bind_eq_Some_conv split: if_splits dest!: find_or_make_tube_jobs gc_tube_jobs)
  show "cmd_watch cid name (e, out) = Some s' \<Longrightarrow> e_jobs (fst s') = e_jobs e"
    by (auto simp: cmd_watch_def Let_def bind_eq_Some_conv split: if_splits dest!: find_or_make_tube_jobs)
  show "cmd_ignore cid name (e, out) = Some s' \<Longrightarrow> e_jobs (fst s') = e_jobs e"
    by (auto simp: cmd_ignore_def Let_def bind_eq_Some_conv split: if_splits option.splits bool.splits dest!: gc_tube_jobs)
qed

lemma cmd_moves_keeps:
  "keeps (e_jobs e) (e_jobs (fst (cmd_reserve_job now cid jid (e, out))))"
  "keeps (e_jobs e) (e_jobs (fst (cmd_bury cid jid pri (e, out))))"
  "keeps (e_jobs e) (e_jobs (fst (cmd_touch now cid jid (e, out))))"
  "e_jobs (fst (cmd_pause_tube now cid name d (e, out))) = e_jobs e"
proof -
  show "keeps (e_jobs e) (e_jobs (fst (cmd_reserve_job now cid jid (e, out))))"
    by (simp add: cmd_reserve_job_def Let_def kept split: option.split)
  show "keeps (e_jobs e) (e_jobs (fst (cmd_bury cid jid pri (e, out))))"
    by (auto simp: cmd_bury_def Let_def same_job_def split: option.split intro!: kept keeps_mut)
  show "keeps (e_jobs e) (e_jobs (fst (cmd_touch now cid jid (e, out))))"
    by (auto simp: cmd_touch_def Let_def same_job_def simp del: e_jobs_job_mut split: option.split intro!: keeps_mut)
  show "e_jobs (fst (cmd_pause_tube now cid name d (e, out))) = e_jobs e"
    by (simp add: cmd_pause_tube_def Let_def split: option.split)
qed

lemma handle_jobs:
  assumes "handle now cid cmd (e, out) = Some s'"
  shows "job_step e (ICommand cid cmd) (e_jobs (fst s'))"
proof (cases "e_conns e cid")
  case None
  with assms have "e_jobs (fst s') = e_jobs e" by (auto simp: handle_def)
  then show ?thesis by (simp add: job_step.unchanged)
next
  case (Some c)
  with assms have d: "dispatch now cid cmd (e, out) = Some s'" by (simp add: handle_def)
  have k: "job_step e (ICommand cid cmd) (e_jobs (fst s'))" if "keeps (e_jobs e) (e_jobs (fst s'))" using that by (rule job_step.unchanged)
  show ?thesis
  proof (cases cmd)
    case (CPut pri delay ttr body)
    with d have "cmd_put now cid pri delay ttr body (e, out) = Some s'" by simp
    then show ?thesis
    proof (rule cmd_put_keeps)
      fix jid j assume "jid = (case pending_id e cid of Some i \<Rightarrow> i | None \<Rightarrow> e_next_job_id e)"
        "keeps ((e_jobs e)(jid \<mapsto> j)) (e_jobs (fst s'))" "j_id j = jid" "j_body j = body" "j_ttr j = max ttr 1"
      then show ?thesis unfolding CPut put_id_def [symmetric] by (intro job_step.put [of j]) simp_all
    qed (use k in blast)
  next
    case (CDelete jid)
    with d have "cmd_delete cid jid (e, out) = Some s'" by simp
    then show ?thesis unfolding CDelete by (rule cmd_delete_keeps) (blast intro: job_step.intros)+
  qed (use d k cmd_release_keeps cmd_reserve_keeps cmd_kick_keeps cmd_kick_job_keeps cmd_tubes_jobs cmd_moves_keeps in
      \<open>auto simp: cmd_peek_def cmd_peek_ready_def cmd_peek_delayed_def
      cmd_peek_buried_def cmd_stats_job_def cmd_stats_tube_def cmd_stats_def cmd_list_tubes_def
      cmd_list_tube_used_def cmd_list_tubes_watched_def cmd_pause_tube_bad_name_def reply_eq reply_with_eq\<close>)
qed

lemma apply_input_jobs:
  assumes "apply_input now i (e, out) = Some (e', out')"
  shows "job_step e i (e_jobs e')"
proof -
  from assms obtain s where r: "run_input now i (e, out) = Some s" and t: "tick now s = Some (e', out')"
    by (auto simp: apply_input_def bind_eq_Some_conv)
  have "job_step e i (e_jobs (fst s))"
  proof (cases i)
    case (ICommand c cmd)
    with r handle_jobs show ?thesis by simp
  next
    case (IDisconnect c)
    with r disconnect_keeps [of now c "(e, out)" s] show ?thesis by (simp add: job_step.unchanged)
  next
    case (IPutStarted c b)
    with r have "e_jobs (fst s) = e_jobs e" by (auto simp: put_started_def Let_def split: prod.splits if_splits)
    then show ?thesis by (simp add: job_step.unchanged)
  next
    case (IPutRejected c why)
    with r have "e_jobs (fst s) = e_jobs e" by (auto simp: put_rejected_def Let_def split: option.splits if_splits)
    then show ?thesis by (simp add: job_step.unchanged)
  qed (use r in \<open>auto simp: connect_def Let_def half_close_def set_draining_def split: option.splits if_splits intro!: job_step.unchanged\<close>)
  with tick_keeps [OF t, of "e_jobs (fst s)"] show ?thesis by (auto intro: job_step_trans)
qed

end
