(* ===== verification/Engine_Props.thy ===== *)
theory Engine_Props
  imports Engine_Keep
begin

text \<open>
  The properties of the engine as a whole, over all reachable states: it answers every input,
  its structures stay consistent, nothing that is due is left waiting, jobs are neither lost
  nor duplicated, and the cached indexes agree with a search of the whole state.

  The witnesses run the engine on concrete inputs: \<open>sample is\<close> is a new engine after the timed
  inputs \<open>is\<close>, with the replies it sent.
\<close>

section \<open>Sample runs\<close>

definition sample_sys :: sys_snapshot where
  "sample_sys = \<lparr>ss_pid = 1, ss_version = ''1.13'', ss_rusage_utime = (0, 0), ss_rusage_stime = (0, 0),
     ss_id = ''id'', ss_hostname = ''host'', ss_os = ''os'', ss_platform = ''cpu''\<rparr>"

definition sample :: "(nanos \<times> engine_input) list \<Rightarrow> eng_out option" where
  "sample is = engine_new 0 default_engine_config sample_sys \<bind> (\<lambda>e. run_inputs is (e, []))"

lemma sample_reach:
  assumes "sample is = Some (e, out)"
  shows "reach default_engine_config (length is) e"
proof -
  from assms obtain e0 where "engine_new 0 default_engine_config sample_sys = Some e0" "run_inputs is (e0, []) = Some (e, out)"
    by (auto simp: sample_def bind_eq_Some_conv)
  with run_inputs_reach [of "is" e0 "[]" e out default_engine_config 0] show ?thesis by (simp add: reach_new)
qed

text \<open>The bound on the number of inputs below keeps the job ids and the list keys, which
  advance by at most one with each input, far from wrapping.\<close>

lemma reach_ok:
  assumes "reach cfg n e" "n < 2 ^ 62"
  shows "good e \<and> headroom e"
  using reach_good [OF assms(1)] assms(2) by (simp add: headroom_def)

text \<open>A connection that put one job of each kind (ready, delayed by 5 s, buried, reserved), and an
  idle one.\<close>

definition four_jobs :: "(nanos \<times> engine_input) list" where
  "four_jobs = [(0, IConnect 7), (0, IConnect 8), (1, ICommand 7 (CPut 10 0 60 ''a'')), (2, ICommand 7 CReserve),
     (3, ICommand 7 (CBury 1 10)), (4, ICommand 7 (CPut 10 0 60 ''b'')), (5, ICommand 7 CReserve),
     (6, ICommand 7 (CPut 10 0 60 ''c'')), (7, ICommand 7 (CPut 10 5 60 ''d''))]"

definition job_at :: "engine \<Rightarrow> job_id \<Rightarrow> (job_state \<times> conn_id option \<times> tube_id \<times> u32) option" where
  "job_at e i = map_option (\<lambda>j. (j_state j, j_reserver j, j_tube j, j_pri j)) (e_jobs e i)"

definition conn_at :: "engine \<Rightarrow> conn_id \<Rightarrow> (bool \<times> nanos option \<times> tube_id list) option" where
  "conn_at e cid = map_option (\<lambda>c. (c_waiting c, c_wait_deadline c, ms_items (c_watch c))) (e_conns e cid)"

lemma four_jobs_run:
  obtains e out where "sample four_jobs = Some (e, out)" "reach default_engine_config 9 e"
    "job_at e 1 = Some (Buried, None, 0, 10)" "job_at e 2 = Some (Reserved, Some 7, 0, 10)"
    "job_at e 3 = Some (Ready, None, 0, 10)" "job_at e 4 = Some (Delayed, None, 0, 10)"
    "conn_at e 7 = Some (False, None, [0])" "conn_at e 8 = Some (False, None, [0])" "map_option t_pause (tube e 0) = Some 0" "e_ready_ct e = 1"
    "next_deadline e = Some 5000000007" "soonest_delayed_job e = Some (5000000007, 0, 4)"
    "best_job (enqueue_waiting_conn 7 None e) = Some (10, 3, 0)"
proof -
  have "case sample four_jobs of None \<Rightarrow> False | Some (e, out) \<Rightarrow>
    job_at e 1 = Some (Buried, None, 0, 10) \<and> job_at e 2 = Some (Reserved, Some 7, 0, 10) \<and>
    job_at e 3 = Some (Ready, None, 0, 10) \<and> job_at e 4 = Some (Delayed, None, 0, 10) \<and>
    conn_at e 7 = Some (False, None, [0]) \<and> conn_at e 8 = Some (False, None, [0]) \<and> map_option t_pause (tube e 0) = Some 0 \<and> e_ready_ct e = 1 \<and>
    next_deadline e = Some 5000000007 \<and> soonest_delayed_job e = Some (5000000007, 0, 4) \<and>
    best_job (enqueue_waiting_conn 7 None e) = Some (10, 3, 0)"
    by code_simp
  then obtain e out where *: "sample four_jobs = Some (e, out)"
    "job_at e 1 = Some (Buried, None, 0, 10)" "job_at e 2 = Some (Reserved, Some 7, 0, 10)"
    "job_at e 3 = Some (Ready, None, 0, 10)" "job_at e 4 = Some (Delayed, None, 0, 10)"
    "conn_at e 7 = Some (False, None, [0])" "conn_at e 8 = Some (False, None, [0])" "map_option t_pause (tube e 0) = Some 0" "e_ready_ct e = 1"
    "next_deadline e = Some 5000000007" "soonest_delayed_job e = Some (5000000007, 0, 4)"
    "best_job (enqueue_waiting_conn 7 None e) = Some (10, 3, 0)"
    by (cases "sample four_jobs") (auto split: prod.splits)
  moreover have "reach default_engine_config 9 e" using sample_reach [OF *(1)] by (simp add: four_jobs_def eval_nat_numeral)
  ultimately show thesis by (intro that)
qed

section \<open>The engine as a state machine\<close>

text \<open>C1: In every reachable state the engine answers every legal input: none of the loops of
  \<open>apply_input\<close> (dispatch, delayed jobs, pauses, expired reservations, due connections) runs
  forever, no index is out of range, and the result is again a reachable state.\<close>

theorem every_input_answered:
  assumes "reach cfg n e" "n < 2 ^ 62" "legal e i"
  shows "\<exists>e' out'. apply_input now i (e, out) = Some (e', out') \<and> reach cfg (Suc n) e'"
proof -
  have "good e" "headroom e" using reach_ok [OF assms(1,2)] by simp_all
  from apply_input_good [OF this assms(3), of now out] show ?thesis
    using reach_step [OF assms(1,3)] by (auto simp: returns_def)
qed

theorem every_input_answered_witness:
  "\<exists>e out e' out'. sample four_jobs = Some (e, out) \<and> legal e (ICommand 8 CReserve) \<and>
     apply_input 20 (ICommand 8 CReserve) (e, out) = Some (e', out') \<and> reach default_engine_config 10 e'"
proof (rule four_jobs_run)
  fix e out assume r: "sample four_jobs = Some (e, out)" "reach default_engine_config 9 e" "conn_at e 8 = Some (False, None, [0])"
  then have "legal e (ICommand 8 CReserve)" by (auto simp: conn_at_def conn_is_waiting_def split: option.split)
  with r every_input_answered [OF r(2) _ this, of 20 out] show ?thesis by auto
qed

text \<open>C2: Every reachable state is consistent: the tube slab, the reference counts, the waiting
  queues, the job queues with their counters, the list keys and the three time indexes all
  agree with the jobs and the connections (\<open>inv\<close>), every ready job of an unpaused tube that
  somebody waits for has been handed out (\<open>quiet\<close>), and every connection watches a tube.\<close>

theorem reachable_consistent:
  assumes "reach cfg n e" "n < 2 ^ 62"
  shows "inv {} {} {} e \<and> quiet e \<and> watching e"
  using reach_ok [OF assms] by (simp add: good_def)

theorem reachable_consistent_witness:
  "\<exists>e out. sample four_jobs = Some (e, out) \<and> inv {} {} {} e \<and> quiet e \<and> watching e"
proof (rule four_jobs_run)
  fix e out assume "sample four_jobs = Some (e, out)" "reach default_engine_config 9 e"
  with reachable_consistent [of default_engine_config 9 e] show ?thesis by auto
qed

text \<open>C3: After an input at time \<open>now\<close> nothing that is due is left: every delayed job is due
  later, no reservation's deadline has passed, and no connection waits beyond the deadline of its
  \<open>reserve-with-timeout\<close>.\<close>

theorem nothing_left_due:
  assumes "reach cfg n e" "n < 2 ^ 62" "legal e i" "apply_input now i (e, out) = Some (e', out')"
  shows "(\<forall>k j. e_jobs e' k = Some j \<longrightarrow>
      (j_state j = Delayed \<longrightarrow> now < j_deadline_at j) \<and> (j_state j = Reserved \<longrightarrow> now \<le> j_deadline_at j)) \<and>
    (\<forall>cid c wd. e_conns e' cid = Some c \<longrightarrow> c_waiting c \<longrightarrow> c_wait_deadline c = Some wd \<longrightarrow> now < wd)"
proof -
  have "good e" "headroom e" using reach_ok [OF assms(1,2)] by simp_all
  from apply_input_good [OF this assms(3), of now out] assms(4)
  have g: "good e'" "due_delayed now e' = {}" "late now e' = {}" "overdue now e' = {}" by simp_all
  have r: "\<exists>cid. j_reserver j = Some cid" if "e_jobs e' k = Some j" "j_state j = Reserved" for k j
    using jobs_jobD [OF inv_jobs that(1), of "{}" "{}" "{}"] g(1) that(2) by (simp add: good_def)
  have "\<not> j_deadline_at j \<le> now" if "e_jobs e' k = Some j" "j_state j = Delayed" for k j
    using g(2) that by (auto simp: due_delayed_def)
  moreover have "\<not> j_deadline_at j < now" if "e_jobs e' k = Some j" "j_state j = Reserved" for k j
    using g(3) r [OF that] that by (auto simp: late_def)
  moreover have "\<not> wd \<le> now" if "e_conns e' cid = Some c" "c_waiting c" "c_wait_deadline c = Some wd" for cid c wd
    using g(4) that by (auto simp: overdue_def)
  ultimately show ?thesis by (meson not_le)
qed

theorem nothing_left_due_witness:
  "\<exists>e out e' out'. sample four_jobs = Some (e, out) \<and> apply_input 5000000007 ITick (e, out) = Some (e', out') \<and>
     (\<forall>k j. e_jobs e' k = Some j \<longrightarrow> j_state j = Delayed \<longrightarrow> 5000000007 < j_deadline_at j)"
proof (rule four_jobs_run)
  fix e out assume r: "sample four_jobs = Some (e, out)" "reach default_engine_config 9 e"
  then have g: "good e" "headroom e" using reach_ok by simp_all
  from apply_input_good [OF g, of ITick 5000000007 out] obtain e' out' where
    a: "apply_input 5000000007 ITick (e, out) = Some (e', out')" by (auto simp: returns_def)
  from nothing_left_due [OF r(2) _ _ a] r(1) a show ?thesis by auto
qed

section \<open>Jobs\<close>

text \<open>C5: No wakeup is lost: while an unpaused tube holds a ready job, no connection that watches
  the tube is waiting.\<close>

theorem no_lost_wakeup:
  assumes "reach cfg n e" "n < 2 ^ 62" "e_jobs e i = Some j" "j_state j = Ready"
    and "tube e (j_tube j) = Some t" "t_pause t = 0"
    and "e_conns e cid = Some c" "j_tube j \<in> set (ms_items (c_watch c))"
  shows "\<not> c_waiting c"
proof
  assume w: "c_waiting c"
  have inv: "inv {} {} {} e" and q: "quiet e" using reach_ok [OF assms(1,2)] by (simp_all add: good_def)
  have "cid \<in> waiters e (j_tube j)" using assms(7,8) w by (auto simp: waiters_def waiting_conns_def watchers_def)
  with inv wait_tubeD [of "{}" e, OF _ assms(5)] have "cid \<in> set (ms_items (t_waiting_conns t))" by (auto simp: inv_def)
  then have "\<not> ms_is_empty (t_waiting_conns t)" by (auto simp: ms_is_empty_def)
  moreover have "(j_pri j, i) \<in> t_ready t"
    using inv ready_tubeD [of "{}" e, OF _ assms(5)] assms(3,4) by (auto simp: inv_def jobs_st_def)
  ultimately have "wants_dispatch t" by (auto simp: wants_dispatch_def)
  with q assms(5) have "t_pause t > 0" by (simp add: quiet_def)
  with assms(6) show False by simp
qed

theorem no_lost_wakeup_witness:
  "\<exists>e out j t c. sample four_jobs = Some (e, out) \<and> e_jobs e 3 = Some j \<and> j_state j = Ready \<and>
     tube e (j_tube j) = Some t \<and> t_pause t = 0 \<and> e_conns e 7 = Some c \<and> j_tube j \<in> set (ms_items (c_watch c)) \<and> \<not> c_waiting c"
proof (rule four_jobs_run)
  fix e out assume r: "sample four_jobs = Some (e, out)" "reach default_engine_config 9 e"
    and "job_at e 3 = Some (Ready, None, 0, 10)" "conn_at e 7 = Some (False, None, [0])" "map_option t_pause (tube e 0) = Some 0"
  then obtain j t c where j: "e_jobs e 3 = Some j" "j_state j = Ready" "j_tube j = 0" "tube e (j_tube j) = Some t" "t_pause t = 0"
    "e_conns e 7 = Some c" "j_tube j \<in> set (ms_items (c_watch c))" by (auto simp: job_at_def conn_at_def)
  with no_lost_wakeup [OF r(2) _ j(1,2,4-7)] r(1) show ?thesis by auto
qed

text \<open>C6: Every job is in exactly one place: in the ready, delayed or buried queue of its own tube
  and of no other, or in the reservations of exactly one connection, as its state says.\<close>

theorem job_in_one_place:
  assumes "reach cfg n e" "n < 2 ^ 62" "e_jobs e i = Some j"
  shows "(\<forall>tid t. tube e tid = Some t \<longrightarrow>
      ((\<exists>p. (p, i) \<in> t_ready t) \<longleftrightarrow> tid = j_tube j \<and> j_state j = Ready) \<and>
      ((\<exists>d. (d, i) \<in> t_delayed t) \<longleftrightarrow> tid = j_tube j \<and> j_state j = Delayed) \<and>
      ((\<exists>q. t_buried t q = Some i) \<longleftrightarrow> tid = j_tube j \<and> j_state j = Buried)) \<and>
    (\<forall>cid c. e_conns e cid = Some c \<longrightarrow>
      ((\<exists>q. c_reserved c q = Some i) \<longleftrightarrow> j_reserver j = Some cid)) \<and>
    (j_state j = Reserved \<longleftrightarrow> (\<exists>cid. j_reserver j = Some cid \<and> e_conns e cid \<noteq> None))"
proof -
  have inv: "inv {} {} {} e" using reach_ok [OF assms(1,2)] by (simp add: good_def)
  then have oks: "ready_ok {} e" "delayed_ok {} e" "buried_ok {} e" "reserved_ok {} e" by (simp_all add: inv_def)
  note jd = jobs_jobD [OF inv_jobs [OF inv] assms(3)]
  have "((\<exists>p. (p, i) \<in> t_ready t) \<longleftrightarrow> tid = j_tube j \<and> j_state j = Ready) \<and>
      ((\<exists>d. (d, i) \<in> t_delayed t) \<longleftrightarrow> tid = j_tube j \<and> j_state j = Delayed) \<and>
      ((\<exists>q. t_buried t q = Some i) \<longleftrightarrow> tid = j_tube j \<and> j_state j = Buried)" if "tube e tid = Some t" for tid t
    using ready_tubeD [OF oks(1) that] delayed_tubeD [OF oks(2) that] buried_tubeD [OF oks(3) that] assms(3)
    by (auto simp: jobs_st_def)
  moreover have "(\<exists>q. c_reserved c q = Some i) \<longleftrightarrow> j_reserver j = Some cid" if "e_conns e cid = Some c" for cid c
    using reserved_connD [OF oks(4) that] assms(3) jd by (auto simp: jobs_st_def)
  moreover have "j_state j = Reserved \<longleftrightarrow> (\<exists>cid. j_reserver j = Some cid \<and> e_conns e cid \<noteq> None)"
    using jd by auto
  ultimately show ?thesis by blast
qed

theorem job_in_one_place_witness:
  "\<exists>e out j c q. sample four_jobs = Some (e, out) \<and> e_jobs e 2 = Some j \<and> j_state j = Reserved \<and>
     e_conns e 7 = Some c \<and> c_reserved c q = Some 2 \<and>
     (\<forall>tid t. tube e tid = Some t \<longrightarrow> (\<forall>p. (p, 2) \<notin> t_ready t) \<and> (\<forall>d. (d, 2) \<notin> t_delayed t) \<and> (\<forall>q. t_buried t q \<noteq> Some 2))"
proof (rule four_jobs_run)
  fix e out assume r: "sample four_jobs = Some (e, out)" "reach default_engine_config 9 e"
    and "job_at e 2 = Some (Reserved, Some 7, 0, 10)" "conn_at e 7 = Some (False, None, [0])"
  then obtain j c where j: "e_jobs e 2 = Some j" "j_state j = Reserved" "j_reserver j = Some 7" "e_conns e 7 = Some c"
    by (auto simp: job_at_def conn_at_def)
  from job_in_one_place [OF r(2) _ j(1)] have
    "\<exists>q. c_reserved c q = Some 2"
    "\<forall>tid t. tube e tid = Some t \<longrightarrow> (\<forall>p. (p, 2) \<notin> t_ready t) \<and> (\<forall>d. (d, 2) \<notin> t_delayed t) \<and> (\<forall>q. t_buried t q \<noteq> Some 2)"
    using j(2-4) by simp_all
  with r(1) j(1,2,4) show ?thesis by blast
qed

text \<open>C7: A reserved job is protected: a \<open>delete\<close> from any other connection than the one that
  holds it leaves the job in the engine, with its body.\<close>

theorem reserved_job_protected:
  assumes "e_jobs e k = Some j" "j_state j = Reserved" "j_reserver j = Some w" "cid \<noteq> w"
    and "apply_input now (ICommand cid (CDelete k)) (e, out) = Some (e', out')"
  shows "\<exists>j'. e_jobs e' k = Some j' \<and> j_body j' = j_body j \<and> j_tube j' = j_tube j"
  using apply_input_jobs [OF assms(5)]
proof (cases rule: job_step.cases)
  case unchanged
  from keepsD [OF this assms(1)] show ?thesis by (auto simp: same_job_def)
next
  case (deleted j')
  with assms(1-4) show ?thesis by simp
qed

theorem reserved_job_protected_witness:
  "\<exists>e out e' out'. sample four_jobs = Some (e, out) \<and> apply_input 20 (ICommand 8 (CDelete 2)) (e, out) = Some (e', out') \<and>
     (\<exists>j'. e_jobs e' 2 = Some j')"
proof (rule four_jobs_run)
  fix e out assume r: "sample four_jobs = Some (e, out)" "reach default_engine_config 9 e"
    and "job_at e 2 = Some (Reserved, Some 7, 0, 10)" and c: "conn_at e 8 = Some (False, None, [0])"
  then obtain j where j: "e_jobs e 2 = Some j" "j_state j = Reserved" "j_reserver j = Some 7" by (auto simp: job_at_def)
  have l: "legal e (ICommand 8 (CDelete 2))" using c by (auto simp: conn_at_def conn_is_waiting_def split: option.split)
  have g: "good e" "headroom e" using r reach_ok by simp_all
  from apply_input_good [OF g l, of 20 out] obtain e' out' where
    a: "apply_input 20 (ICommand 8 (CDelete 2)) (e, out) = Some (e', out')" by (auto simp: returns_def)
  from reserved_job_protected [OF j _ a] r(1) a show ?thesis by auto
qed

section \<open>The job store\<close>

text \<open>What a client may rely on is a store of jobs: a put adds one under a new id, a delete
  removes one, nothing else changes it. The queues, reservations, timers and kicks of the engine
  refine it.\<close>

type_synonym job_store = "job_id \<rightharpoonup> tube_id \<times> u32 \<times> string \<times> nanos"

definition job_view :: "job_rec \<Rightarrow> tube_id \<times> u32 \<times> string \<times> nanos" where
  "job_view j = (j_tube j, j_ttr j, j_body j, j_created_at j)"

definition store_of :: "engine \<Rightarrow> job_store" where
  "store_of e = (\<lambda>i. map_option job_view (e_jobs e i))"

inductive store_step :: "job_store \<Rightarrow> engine_input \<Rightarrow> job_store \<Rightarrow> bool" where
  idle: "store_step s i s"
| add: "s jid = None \<Longrightarrow>
    store_step s (ICommand cid (CPut pri delay ttr body)) (s(jid \<mapsto> (tid, max ttr 1, body, at)))"
| remove: "s jid \<noteq> None \<Longrightarrow> store_step s (ICommand cid (CDelete jid)) (s(jid := None))"

lemma keeps_view:
  assumes "keeps m (e_jobs e)"
  shows "store_of e = (\<lambda>i. map_option job_view (m i))"
proof
  fix i
  from assms have "rel_option same_job (m i) (e_jobs e i)" by (simp add: keeps_def)
  then show "store_of e i = map_option job_view (m i)"
    by (cases "m i"; cases "e_jobs e i") (simp_all add: store_of_def job_view_def same_job_def)
qed

text \<open>C4: The engine refines the job store: seen through \<open>store_of\<close>, every input a reachable
  engine processes either leaves the store as it is, or is a \<open>put\<close> that adds one job with the
  given body under an id not in use, or is a \<open>delete\<close> that removes the job it names.\<close>

theorem engine_refines_store:
  assumes "reach cfg n e" "n < 2 ^ 62" "apply_input now i (e, out) = Some (e', out')"
  shows "store_step (store_of e) i (store_of e')"
  using apply_input_jobs [OF assms(3)]
proof (cases rule: job_step.cases)
  case unchanged
  from keeps_view [OF this] show ?thesis by (simp add: store_of_def store_step.idle)
next
  case (put j cid body ttr pri delay)
  have inv: "inv {} {} {} e" using reach_ok [OF assms(1,2)] by (simp add: good_def)
  then have p: "pending_ok e" and jo: "jobs_ok {} e" by (simp_all add: inv_def)
  have "e_jobs e (e_next_job_id e) = None"
    using jobs_jobD [OF jo, of "e_next_job_id e"] by (cases "e_jobs e (e_next_job_id e)") auto
  with p have fresh: "e_jobs e (put_id e cid) = None" by (auto simp: put_id_def pending_ok_def split: option.split)
  have "store_of e' = (store_of e)(put_id e cid \<mapsto> (j_tube j, max ttr 1, body, j_created_at j))"
    using keeps_view [OF put(5)] put by (auto simp: store_of_def job_view_def)
  with fresh put(1) show ?thesis by (simp add: store_step.add store_of_def)
next
  case (deleted jid j cid)
  have "store_of e' = (store_of e)(jid := None)" using keeps_view [OF deleted(4)] by (auto simp: store_of_def)
  with deleted show ?thesis by (simp add: store_step.remove store_of_def)
qed

theorem engine_refines_store_witness:
  "\<exists>e out e' out'. sample four_jobs = Some (e, out) \<and> apply_input 20 (ICommand 7 (CDelete 2)) (e, out) = Some (e', out') \<and>
     store_step (store_of e) (ICommand 7 (CDelete 2)) (store_of e')"
proof (rule four_jobs_run)
  fix e out assume r: "sample four_jobs = Some (e, out)" "reach default_engine_config 9 e" and c: "conn_at e 7 = Some (False, None, [0])"
  have l: "legal e (ICommand 7 (CDelete 2))" using c by (auto simp: conn_at_def conn_is_waiting_def split: option.split)
  have g: "good e" "headroom e" using r reach_ok by simp_all
  from apply_input_good [OF g l, of 20 out] obtain e' out' where
    a: "apply_input 20 (ICommand 7 (CDelete 2)) (e, out) = Some (e', out')" by (auto simp: returns_def)
  from engine_refines_store [OF r(2) _ a] r(1) a show ?thesis by auto
qed

section \<open>The indexes against a search\<close>

lemma first_of_dense:
  assumes "finite S" "S' \<subseteq> S" "\<And>x. x \<in> S \<Longrightarrow> \<exists>y \<in> S'. y \<le> x"
  shows "first_of S' = first_of S"
proof (cases "S = {}")
  case False
  with assms obtain m where m: "first_of S = Some m" by (cases "first_of S") auto
  note ms = first_of_SomeD [OF m assms(1)]
  from assms(3) [OF ms(1)] obtain y where y: "y \<in> S'" "y \<le> m" by blast
  with ms(2) assms(2) have "y = m" by (meson antisym subsetD)
  with y ms(2) assms(1,2) have "first_of S' = Some m"
    by (subst first_of_eq_Some_iff) (auto dest: finite_subset)
  with m show ?thesis by simp
qed (use assms in simp)

text \<open>The times at which something is to happen, searched in all jobs, tubes and connections.\<close>

definition all_deadlines :: "engine \<Rightarrow> nanos set" where
  "all_deadlines e =
     {j_deadline_at j | i j. e_jobs e i = Some j \<and> j_state j = Delayed} \<union>
     {t_unpause_at t | tid t. tube e tid = Some t \<and> t_pause t > 0} \<union>
     {k. \<exists>cid c. e_conns e cid = Some c \<and> conn_tickat c = Some k}"

text \<open>C19: \<open>next_deadline\<close>, which reads only the heads of the three time indexes, is the earliest
  of all deadlines in the engine: of the delayed jobs, the tube pauses and the connections.\<close>

theorem next_deadline_exact:
  assumes "reach cfg n e" "n < 2 ^ 62"
  shows "next_deadline e = first_of (all_deadlines e)"
  unfolding next_deadline_def
proof (rule first_of_dense)
  have inv: "inv {} {} {} e" using reach_ok [OF assms] by (simp add: good_def)
  then have ix: "index_ok e" and dl: "delayed_ok {} e" by (simp_all add: inv_def)
  have dh: "(k, i) \<in> e_delay_heads e \<longleftrightarrow> (\<exists>t. tube e i = Some t \<and> delay_key t = Some k)" for k i
    using ix by (intro dly.exact_keys) (simp_all add: index_ok_def)
  have ct: "(k, i) \<in> e_conn_ticks e \<longleftrightarrow> (\<exists>c. e_conns e i = Some c \<and> conn_tickat c = Some k)" for k i
    using ix by (intro tik.exact_keys) (simp_all add: index_ok_def)
  have ps: "e_pauses e = {(d, tid). \<exists>t. tube e tid = Some t \<and> t_pause t > 0 \<and> t_unpause_at t = d}"
    using ix by (simp add: index_ok_def pauses_ok_def)
  note fin = finite_delay_heads [OF ix] finite_pauses [OF ix]
  let ?S = "\<Union>d \<in> {map_option fst (first_of (e_delay_heads e)), map_option fst (first_of (e_pauses e)),
    map_option fst (first_of (e_conn_ticks e))}. set_option d"
  show "?S \<subseteq> all_deadlines e"
  proof
    fix k assume "k \<in> ?S"
    then consider (delay) i where "first_of (e_delay_heads e) = Some (k, i)"
      | (pause) i where "first_of (e_pauses e) = Some (k, i)" | (conn) cid where "first_of (e_conn_ticks e) = Some (k, cid)" by auto
    then show "k \<in> all_deadlines e"
    proof cases
      case delay
      from first_of_SomeD(1) [OF delay fin(1)] dh obtain t jid where t: "tube e i = Some t" "first_of (t_delayed t) = Some (k, jid)"
        by (auto simp: delay_key_def)
      from first_of_SomeD(1) [OF t(2)] have "(k, jid) \<in> t_delayed t" by simp
      with delayed_tubeD [OF dl t(1)] show ?thesis by (auto simp: all_deadlines_def jobs_st_def)
    next
      case pause
      from first_of_SomeD(1) [OF pause fin(2)] ps show ?thesis by (auto simp: all_deadlines_def)
    next
      case conn
      from first_of_SomeD(1) [OF conn finite] ct show ?thesis by (auto simp: all_deadlines_def)
    qed
  qed
  show "\<exists>y \<in> ?S. y \<le> x" if "x \<in> all_deadlines e" for x
  proof -
    have least: "\<exists>y \<in> ?S. y \<le> d" if "(d, i) \<in> e_delay_heads e \<or> (d, i) \<in> e_pauses e" for d i
    proof -
      from that fin obtain y where "y \<in> set_option (map_option fst (first_of (e_delay_heads e))) \<union> set_option (map_option fst (first_of (e_pauses e)))" "y \<le> d"
        by (meson UnI1 UnI2 first_fst_le)
      then show ?thesis by blast
    qed
    have tick: "\<exists>y \<in> ?S. y \<le> d" if "(d, i) \<in> e_conn_ticks e" for d i
    proof -
      from first_fst_le [OF that finite] obtain y where "y \<in> set_option (map_option fst (first_of (e_conn_ticks e)))" "y \<le> d" .
      then show ?thesis by blast
    qed
    from that consider (delay) i j where "e_jobs e i = Some j" "j_state j = Delayed" "x = j_deadline_at j"
      | (pause) tid t where "tube e tid = Some t" "t_pause t > 0" "x = t_unpause_at t"
      | (conn) cid c where "e_conns e cid = Some c" "conn_tickat c = Some x" by (auto simp: all_deadlines_def)
    then show ?thesis
    proof cases
      case delay
      from inv_tube [OF inv delay(1)] obtain u where u: "tube e (j_tube j) = Some u" .
      have m: "(x, i) \<in> t_delayed u" using delayed_tubeD [OF dl u] delay by (auto simp: jobs_st_def)
      from first_fst_le [OF m finite] obtain d' where "d' \<in> set_option (map_option fst (first_of (t_delayed u)))" "d' \<le> x" by blast
      then have d': "delay_key u = Some d'" "d' \<le> x" by (simp_all add: delay_key_def)
      then have "(d', j_tube j) \<in> e_delay_heads e" using dh u by blast
      with least d'(2) show ?thesis by (meson order_trans)
    next
      case pause
      then have "(x, tid) \<in> e_pauses e" by (auto simp: ps)
      with least show ?thesis by blast
    next
      case conn
      then have "(x, cid) \<in> e_conn_ticks e" by (auto simp: ct)
      with tick show ?thesis by blast
    qed
  qed
qed simp

theorem next_deadline_exact_witness:
  "\<exists>e out. sample four_jobs = Some (e, out) \<and> first_of (all_deadlines e) = Some 5000000007"
proof (rule four_jobs_run)
  fix e out assume "sample four_jobs = Some (e, out)" "reach default_engine_config 9 e" "next_deadline e = Some 5000000007"
  with next_deadline_exact [of default_engine_config 9 e] show ?thesis by auto
qed

text \<open>C20: \<open>soonest_delayed_job\<close>, which looks at the tubes whose first delayed job is due first,
  finds a delayed job with the earliest deadline of all delayed jobs, and finds none only if
  there is none.\<close>

theorem soonest_delayed_exact:
  assumes "reach cfg n e" "n < 2 ^ 62"
  shows "case soonest_delayed_job e of
      None \<Rightarrow> \<forall>i j. e_jobs e i = Some j \<longrightarrow> j_state j \<noteq> Delayed
    | Some (d, tid, jid) \<Rightarrow>
        (\<exists>j. e_jobs e jid = Some j \<and> j_state j = Delayed \<and> j_tube j = tid \<and> j_deadline_at j = d) \<and>
        (\<forall>i j. e_jobs e i = Some j \<longrightarrow> j_state j = Delayed \<longrightarrow> d \<le> j_deadline_at j)"
proof -
  have inv: "inv {} {} {} e" using reach_ok [OF assms] by (simp add: good_def)
  show ?thesis
  proof (cases "soonest_delayed_job e")
    case None
    with soonest_delayed_job_None [OF inv None] show ?thesis by auto
  next
    case (Some x)
    obtain d tid jid where x: "x = (d, tid, jid)" by (cases x)
    from soonest_delayed_job_Some [OF inv Some [unfolded x]] show ?thesis unfolding Some x by (simp, metis)
  qed
qed

theorem soonest_delayed_exact_witness:
  "\<exists>e out. sample four_jobs = Some (e, out) \<and> soonest_delayed_job e = Some (5000000007, 0, 4) \<and>
     (\<forall>i j. e_jobs e i = Some j \<longrightarrow> j_state j = Delayed \<longrightarrow> 5000000007 \<le> j_deadline_at j)"
proof (rule four_jobs_run)
  fix e out assume "sample four_jobs = Some (e, out)" "reach default_engine_config 9 e"
    "soonest_delayed_job e = Some (5000000007, 0, 4)"
  with soonest_delayed_exact [of default_engine_config 9 e] show ?thesis by auto
qed

text \<open>The jobs a waiting connection could be given now: ready, in an unpaused tube, with a connection
  waiting that watches the tube.\<close>

definition awaited :: "engine \<Rightarrow> (u32 \<times> job_id \<times> tube_id) set" where
  "awaited e = {(p, i, tid). \<exists>j t cid c. e_jobs e i = Some j \<and> j_state j = Ready \<and> j_pri j = p \<and> j_tube j = tid \<and>
     tube e tid = Some t \<and> t_pause t = 0 \<and>
     e_conns e cid = Some c \<and> c_waiting c \<and> tid \<in> set (ms_items (c_watch c))}"

lemma awaited_waiters:
  "(p, i, tid) \<in> awaited e \<longleftrightarrow> (\<exists>j t. e_jobs e i = Some j \<and> j_state j = Ready \<and> j_pri j = p \<and> j_tube j = tid \<and>
     tube e tid = Some t \<and> t_pause t = 0 \<and> waiters e tid \<noteq> {})"
  by (auto simp: awaited_def waiters_def waiting_conns_def watchers_def)

lemma awaited_tube:
  assumes "inv {} {} {} e" "tube e tid = Some t"
  shows "waiters e tid \<noteq> {} \<longleftrightarrow> \<not> ms_is_empty (t_waiting_conns t)"
    and "(p, i) \<in> t_ready t \<longleftrightarrow> (\<exists>j. e_jobs e i = Some j \<and> j_state j = Ready \<and> j_pri j = p \<and> j_tube j = tid)"
proof -
  have wo: "wait_ok {} e" and ro: "ready_ok {} e" using assms(1) by (simp_all add: inv_def)
  show "waiters e tid \<noteq> {} \<longleftrightarrow> \<not> ms_is_empty (t_waiting_conns t)"
    using wait_tubeD [OF wo assms(2)] by (auto simp: ms_is_empty_def)
  show "(p, i) \<in> t_ready t \<longleftrightarrow> (\<exists>j. e_jobs e i = Some j \<and> j_state j = Ready \<and> j_pri j = p \<and> j_tube j = tid)"
    using ready_tubeD [OF ro assms(2)] by (auto simp: jobs_st_def)
qed

lemma best_job_awaited:
  assumes "inv {} {} {} e" "best_job e = Some (p, jid, tid)"
  shows "(p, jid, tid) \<in> awaited e" "(q, k, x) \<in> awaited e \<Longrightarrow> (p, jid) \<le> (q, k)"
proof -
  from best_job_Some [OF assms] obtain t j where t: "tube e tid = Some t" "wants_dispatch t" "t_pause t = 0"
    and j: "e_jobs e jid = Some j" "j_state j = Ready" "j_tube j = tid" "j_pri j = p"
    and le: "\<And>x u q k. tube e x = Some u \<Longrightarrow> wants_dispatch u \<Longrightarrow> t_pause u = 0 \<Longrightarrow> (q, k) \<in> t_ready u \<Longrightarrow> (p, jid) \<le> (q, k)" by metis
  show "(p, jid, tid) \<in> awaited e"
    using t j awaited_tube(1) [OF assms(1) t(1)] by (auto simp: awaited_waiters wants_dispatch_def)
  assume "(q, k, x) \<in> awaited e"
  then obtain j' u where u: "tube e x = Some u" "t_pause u = 0" "waiters e x \<noteq> {}"
    and "e_jobs e k = Some j'" "j_state j' = Ready" "j_pri j' = q" "j_tube j' = x" by (auto simp: awaited_waiters)
  then have r: "(q, k) \<in> t_ready u" by (auto simp: awaited_tube(2) [OF assms(1) u(1)])
  then have "wants_dispatch u" using u(3) awaited_tube(1) [OF assms(1) u(1)] by (auto simp: wants_dispatch_def)
  then show "(p, jid) \<le> (q, k)" by (rule le [OF u(1) _ u(2) r])
qed

lemma awaited_best_job:
  assumes "inv {} {} {} e" "x \<in> awaited e"
  shows "best_job e \<noteq> None"
proof -
  obtain p i tid where x: "x = (p, i, tid)" by (cases x)
  with assms(2) obtain t where t: "tube e tid = Some t" "t_pause t = 0" "waiters e tid \<noteq> {}" "(p, i) \<in> t_ready t"
    by (auto simp: awaited_waiters awaited_tube(2) [OF assms(1)])
  have "index_ok e" using assms(1) by (simp add: inv_def)
  moreover have "wants_dispatch t" using t awaited_tube(1) [OF assms(1) t(1)] by (auto simp: wants_dispatch_def)
  ultimately show ?thesis using t(1,2) using best_job_None by (force simp: quiet_def)
qed

text \<open>C17: The dispatcher is fair to priorities: the job it hands out next is the one with the
  smallest priority and, among those, the smallest id, of all ready jobs of unpaused tubes that a
  waiting connection watches; and it finds one exactly if there is one.\<close>

theorem dispatch_most_urgent:
  assumes "inv {} {} {} e"
  shows "best_job e = Some (p, jid, tid) \<longleftrightarrow>
    (p, jid, tid) \<in> awaited e \<and> (\<forall>q k x. (q, k, x) \<in> awaited e \<longrightarrow> (p, jid) \<le> (q, k))"
proof
  assume r: "(p, jid, tid) \<in> awaited e \<and> (\<forall>q k x. (q, k, x) \<in> awaited e \<longrightarrow> (p, jid) \<le> (q, k))"
  then obtain q k x where b: "best_job e = Some (q, k, x)" using awaited_best_job [OF assms] by (cases "best_job e") auto
  note best = best_job_awaited [OF assms b]
  from r have "(q, k) \<le> (p, jid)" "(p, jid) \<le> (q, k)" using best by blast+
  then have "(q, k) = (p, jid)" by (rule order_antisym)
  then have "q = p" "k = jid" by simp_all
  moreover have "x = tid" using best(1) r \<open>k = jid\<close> by (auto simp: awaited_waiters)
  ultimately show "best_job e = Some (p, jid, tid)" using b by simp
qed (use best_job_awaited [OF assms] in blast)

theorem dispatch_most_urgent_witness:
  "\<exists>e out. sample four_jobs = Some (e, out) \<and>
     (10, 3, 0) \<in> awaited (enqueue_waiting_conn 7 None e) \<and>
     (\<forall>q k x. (q, k, x) \<in> awaited (enqueue_waiting_conn 7 None e) \<longrightarrow> (10, 3) \<le> (q, k))"
proof (rule four_jobs_run)
  fix e out assume r: "sample four_jobs = Some (e, out)" "reach default_engine_config 9 e"
    and b: "best_job (enqueue_waiting_conn 7 None e) = Some (10, 3, 0)"
    and "conn_at e 7 = Some (False, None, [0])"
  then obtain c where c: "e_conns e 7 = Some c" "\<not> c_waiting c" by (auto simp: conn_at_def)
  have "inv {} {} {} e" using r(2) reach_ok by (simp add: good_def)
  then have "inv {} {} {} (enqueue_waiting_conn 7 None e)" by (rule enqueue_waiting_conn_inv [OF _ c])
  from dispatch_most_urgent [OF this, of 10 3 0] r(1) b show ?thesis by blast
qed

text \<open>C18: A dispatched job goes to a connection that asked for it: one round of the dispatch loop takes
  the most urgent job, gives it to a connection that was waiting on the job's tube, which then waits
  no longer, starts its time to run, leaves every other job as it was, and answers that connection
  with the job's body.\<close>

theorem dispatch_hands_over:
  assumes "inv {} {} {} e" "pot e < 2 ^ 64" "best_job e = Some (p, jid, tid)"
  shows "case process_queue_step now (e, out) of (e', out') \<Rightarrow>
    \<exists>cid j. e_jobs e jid = Some j \<and> cid \<in> waiters e tid \<and> waiting_conns e' = waiting_conns e - {cid} \<and>
      e_jobs e' = (e_jobs e)(jid \<mapsto> j\<lparr>j_state := Reserved, j_reserver := Some cid,
        j_deadline_at := sat_add now (secs (j_ttr j)), j_reserve_ct := j_reserve_ct j + 1,
        j_list_seq := e_next_list_seq e\<rparr>) \<and>
      out' = (if wants_reply e cid then out @ [(cid, RReserved jid (j_body j))] else out)"
proof -
  obtain e' out' where s: "process_queue_step now (e, out) = (e', out')" by (cases "process_queue_step now (e, out)")
  note st = process_queue_step_inv [OF assms s]
  have "wants_reply e' = wants_reply e" using st(2) by (simp add: dispatched_def wants_reply_def fun_eq_iff)
  with st(4) show ?thesis unfolding s prod.case by (fastforce simp: reply_def split: if_splits)
qed

theorem dispatch_hands_over_witness:
  "\<exists>e out cid. sample four_jobs = Some (e, out) \<and> cid \<in> waiters (enqueue_waiting_conn 7 None e) 0 \<and>
     (\<exists>j. e_jobs (fst (process_queue_step 100 (enqueue_waiting_conn 7 None e, []))) 3 = Some j \<and>
        j_state j = Reserved \<and> j_reserver j = Some cid)"
proof (rule four_jobs_run)
  fix e out assume r: "sample four_jobs = Some (e, out)" "reach default_engine_config 9 e"
    and b: "best_job (enqueue_waiting_conn 7 None e) = Some (10, 3, 0)"
    and "conn_at e 7 = Some (False, None, [0])"
  then obtain c where c: "e_conns e 7 = Some c" "\<not> c_waiting c" by (auto simp: conn_at_def)
  let ?e = "enqueue_waiting_conn 7 None e"
  have g: "inv {} {} {} e" "pot e < 2 ^ 63" using r(2) reach_ok by (simp_all add: good_def headroom_def)
  have i: "inv {} {} {} ?e" by (rule enqueue_waiting_conn_inv [OF g(1) c])
  have "waiting_conns ?e = insert 7 (waiting_conns e)"
    using c by (auto simp: waiting_conns_def enqueue_waiting_conn_obs(1) [OF c(1)])
  moreover have "e_next_list_seq ?e = e_next_list_seq e" by simp
  ultimately have "pot ?e \<le> Suc (pot e)" by (simp add: pot_def card_insert_le_m1 card_insert_if)
  then have "pot ?e < 2 ^ 64" using g(2) by simp
  from dispatch_hands_over [OF i this b, of 100 "[]"] r(1) show ?thesis by (fastforce split: prod.splits)
qed

section \<open>Statistics and tubes\<close>

text \<open>C21: The job and connection counts \<open>stats\<close> reports are the true ones: every cached counter
  equals the number of jobs in that state, urgent ready jobs, waiting connections, or
  connections.\<close>

theorem stats_exact:
  assumes "reach cfg n e" "n < 2 ^ 62"
  shows "sv_current_jobs_ready (build_stats_server now e) = of_nat (card {i. \<exists>j. e_jobs e i = Some j \<and> j_state j = Ready}) \<and>
    sv_current_jobs_urgent (build_stats_server now e) =
      of_nat (card {i. \<exists>j. e_jobs e i = Some j \<and> j_state j = Ready \<and> j_pri j < URGENT_THRESHOLD}) \<and>
    sv_current_jobs_reserved (build_stats_server now e) = of_nat (card {i. \<exists>j. e_jobs e i = Some j \<and> j_state j = Reserved}) \<and>
    sv_current_jobs_delayed (build_stats_server now e) = of_nat (card {i. \<exists>j. e_jobs e i = Some j \<and> j_state j = Delayed}) \<and>
    sv_current_jobs_buried (build_stats_server now e) = of_nat (card {i. \<exists>j. e_jobs e i = Some j \<and> j_state j = Buried}) \<and>
    sv_current_waiting (build_stats_server now e) = of_nat (card {cid. \<exists>c. e_conns e cid = Some c \<and> c_waiting c}) \<and>
    sv_current_connections (build_stats_server now e) = of_nat (card (dom (e_conns e)))"
proof -
  have inv: "inv {} {} {} e" using reach_ok [OF assms] by (simp add: good_def)
  have in_eq: "jobs_in {} e st P = {i. \<exists>j. e_jobs e i = Some j \<and> j_state j = st \<and> P j}" for st P
    by (auto simp: jobs_in_def jobs_st_def)
  have "u64_of_u32 (of_nat (card (dom (e_conns e)))) = of_nat (card (dom (e_conns e)))"
    using inv by (intro u64_of_u32_of_nat) (simp add: inv_def refs_ok_def)
  with inv show ?thesis
    by (simp add: build_stats_server_def Let_def inv_def ready_ok_def delayed_ok_def buried_ok_def reserved_ok_def
        wait_ok_def conn_counts_ok_def in_eq urgent_def waiting_conns_def)
qed

theorem stats_exact_witness:
  "\<exists>e out. sample four_jobs = Some (e, out) \<and>
     of_nat (card {i. \<exists>j. e_jobs e i = Some j \<and> j_state j = Ready}) = (1 :: u64)"
proof (rule four_jobs_run)
  fix e out assume "sample four_jobs = Some (e, out)" "reach default_engine_config 9 e" "e_ready_ct e = 1"
  with stats_exact [of default_engine_config 9 e 0] show ?thesis by (auto simp: build_stats_server_def Let_def)
qed

text \<open>C22: A tube exists exactly as long as something refers to it: every tube is the default tube,
  or used or watched by a connection, or holds a job, and every tube is found under its name
  and under no other.\<close>

theorem tubes_referenced:
  assumes "reach cfg n e" "n < 2 ^ 62" "tube e tid = Some t"
  shows "(tid = DEFAULT_TUBE \<or> (\<exists>cid c. e_conns e cid = Some c \<and> (c_use_tube c = tid \<or> tid \<in> set (ms_items (c_watch c)))) \<or>
      (\<exists>i j. e_jobs e i = Some j \<and> j_tube j = tid)) \<and>
    (\<forall>name. e_tube_ids e name = Some tid \<longleftrightarrow> name = t_name t)"
proof -
  have inv: "inv {} {} {} e" using reach_ok [OF assms(1,2)] by (simp add: good_def)
  then have s: "slab_ok e" and r: "refs_ok {} e" by (simp_all add: inv_def)
  have "tid = DEFAULT_TUBE \<or> users e tid \<noteq> {} \<or> watchers e tid \<noteq> {} \<or> tube_jobs e tid \<noteq> {}"
    using refs_tubeD [OF r assms(3)] by simp
  moreover have "e_tube_ids e name = Some tid \<longleftrightarrow> name = t_name t" for name
    using slab_tubeD [OF s assms(3)] slab_idD [OF s, of name tid] assms(3) by auto
  ultimately show ?thesis by (auto simp: users_def watchers_def tube_jobs_def)
qed

theorem tubes_referenced_witness:
  "\<exists>e out t. sample four_jobs = Some (e, out) \<and> tube e 0 = Some t \<and> e_tube_ids e (t_name t) = Some 0"
proof (rule four_jobs_run)
  fix e out assume r: "sample four_jobs = Some (e, out)" "reach default_engine_config 9 e" "map_option t_pause (tube e 0) = Some 0"
  then obtain t where t: "tube e 0 = Some t" by auto
  from tubes_referenced [OF r(2) _ t] r(1) t show ?thesis by auto
qed

end
