(* ===== verification/Proto_Parse.thy ===== *)
theory Proto_Parse
  imports Proto_Stats
begin

text \<open>
  The command-line parser, \<open>crates/proto/src/parse.rs\<close>. A \<open>Result<T, Response>\<close> is a sum whose
  left side is the reply the server must send. \<open>u128\<close> arithmetic saturates, as the source
  writes it. The theorems: the parser of numbers accepts exactly the numbers that fit, and
  every command printed in the protocol's syntax is parsed back. \<open>Proto_Grammar\<close> has the
  grammar of the lines it accepts.
\<close>

section \<open>Bytes of the standard library\<close>

text \<open>\<open>u8::is_ascii_whitespace\<close>: space, tab, line feed, form feed, carriage return.\<close>

definition is_ascii_whitespace :: "char \<Rightarrow> bool" where
  "is_ascii_whitespace b = (b \<in> {CHR '' '', CHR 0x09, CHR 0x0A, CHR 0x0C, CHR 0x0D})"

text \<open>\<open>std::str::from_utf8\<close>: the well-formed byte sequences of the Unicode standard.\<close>

definition in_range :: "nat \<Rightarrow> nat \<Rightarrow> char \<Rightarrow> bool" where
  "in_range lo hi b = (lo \<le> (of_char b :: nat) \<and> (of_char b :: nat) \<le> hi)"

abbreviation utf8_cont :: "char \<Rightarrow> bool" where
  "utf8_cont \<equiv> in_range 0x80 0xBF"

fun utf8_valid :: "string \<Rightarrow> bool" where
  "utf8_valid [] = True"
| "utf8_valid (b # bs) =
     (if in_range 0 0x7F b then utf8_valid bs
      else if in_range 0xC2 0xDF b then
        (case bs of b1 # bs' \<Rightarrow> utf8_cont b1 \<and> utf8_valid bs' | _ \<Rightarrow> False)
      else if in_range 0xE0 0xEF b then
        (case bs of
           b1 # b2 # bs' \<Rightarrow>
             in_range (if b = CHR 0xE0 then 0xA0 else 0x80) (if b = CHR 0xED then 0x9F else 0xBF) b1
             \<and> utf8_cont b2 \<and> utf8_valid bs'
         | _ \<Rightarrow> False)
      else if in_range 0xF0 0xF4 b then
        (case bs of
           b1 # b2 # b3 # bs' \<Rightarrow>
             in_range (if b = CHR 0xF0 then 0x90 else 0x80) (if b = CHR 0xF4 then 0x8F else 0xBF) b1
             \<and> utf8_cont b2 \<and> utf8_cont b3 \<and> utf8_valid bs'
         | _ \<Rightarrow> False)
      else False)"

definition from_utf8 :: "string \<Rightarrow> string option" where
  "from_utf8 bs = (if utf8_valid bs then Some bs else None)"

definition U128_MAX :: nat where
  "U128_MAX = 2 ^ 128 - 1"

definition U64_MAX :: nat where
  "U64_MAX = 2 ^ 64 - 1"

definition U32_MAX :: nat where
  "U32_MAX = 2 ^ 32 - 1"

section \<open>Numbers\<close>

definition skip_leading_spaces :: "string \<Rightarrow> string" where
  "skip_leading_spaces buf = dropWhile (\<lambda>b. b = CHR '' '') buf"

definition digit_value :: "char \<Rightarrow> nat" where
  "digit_value d = of_char d - of_char (CHR ''0'')"

text \<open>\<open>val.saturating_mul(10).saturating_add(d)\<close>\<close>

definition sat_digit :: "char \<Rightarrow> nat \<Rightarrow> nat" where
  "sat_digit d val = min (min (val * 10) U128_MAX + digit_value d) U128_MAX"

definition sat_number :: "string \<Rightarrow> nat" where
  "sat_number ds = fold sat_digit ds 0"

definition parse_digits :: "string \<Rightarrow> (nat \<times> string) option" where
  "parse_digits buf =
     (case buf of
        [] \<Rightarrow> None
      | b # _ \<Rightarrow>
          if \<not> is_ascii_digit b then None
          else Some (sat_number (takeWhile is_ascii_digit buf), dropWhile is_ascii_digit buf))"

definition read_u64_partial :: "string \<Rightarrow> (u64 \<times> string) option" where
  "read_u64_partial buf = do {
     (val, rest) \<leftarrow> parse_digits (skip_leading_spaces buf);
     if val > U64_MAX then None else Some (of_nat val, rest)
   }"

definition read_u32_partial :: "string \<Rightarrow> (u32 \<times> string) option" where
  "read_u32_partial buf = do {
     (val, rest) \<leftarrow> read_u64_partial buf;
     if unat val > U32_MAX then None else Some (ucast val, rest)
   }"

definition read_u64_full :: "string \<Rightarrow> u64 option" where
  "read_u64_full buf = do {
     (val, rest) \<leftarrow> read_u64_partial buf;
     if rest = [] then Some val else None
   }"

definition read_u32_full :: "string \<Rightarrow> u32 option" where
  "read_u32_full buf = do {
     (val, rest) \<leftarrow> read_u32_partial buf;
     if rest = [] then Some val else None
   }"

section \<open>Tube names\<close>

definition read_tube_name_span :: "string \<Rightarrow> (string \<times> string) option" where
  "read_tube_name_span buf =
     (let buf = skip_leading_spaces buf;
          len = length (takeWhile is_name_char buf)
      in if len = 0 then None else Some (take len buf, drop len buf))"

definition tube_name_from_bytes :: "string \<Rightarrow> tube_name option" where
  "tube_name_from_bytes bytes = from_utf8 bytes \<bind> TubeName_new"

definition ok_or :: "response \<Rightarrow> 'a option \<Rightarrow> response + 'a" where
  "ok_or e m = (case m of Some x \<Rightarrow> Inr x | None \<Rightarrow> Inl e)"

definition and_then :: "response + 'a \<Rightarrow> ('a \<Rightarrow> response + 'b) \<Rightarrow> response + 'b" where
  "and_then m f = (case m of Inl e \<Rightarrow> Inl e | Inr x \<Rightarrow> f x)"

definition tube_name_from_full_rest :: "string \<Rightarrow> response + tube_name" where
  "tube_name_from_full_rest rest =
     and_then (ok_or RBadFormat (from_utf8 rest)) (\<lambda>s. ok_or RBadFormat (TubeName_new s))"

section \<open>Command words\<close>

record put_header =
  h_pri :: u32
  h_delay :: u32
  h_ttr :: u32
  h_body_size :: u32
  h_trailing_garbage :: bool

datatype parsed_line = PCommand command | PPut put_header

datatype op =
    OpPut | OpPeekJob | OpPeekReady | OpPeekDelayed | OpPeekBuried | OpReserveTimeout
  | OpReserveJob | OpReserve | OpDelete | OpRelease | OpBury | OpKick | OpKickJob | OpTouch
  | OpStatsJob | OpStatsTube | OpStats | OpUse | OpWatch | OpIgnore | OpListTubesWatched
  | OpListTubeUsed | OpListTubes | OpQuit | OpPauseTube

definition CMD_TESTS :: "(string \<times> op) list" where
  "CMD_TESTS =
     [(''put '', OpPut),
      (''peek '', OpPeekJob),
      (''peek-ready'', OpPeekReady),
      (''peek-delayed'', OpPeekDelayed),
      (''peek-buried'', OpPeekBuried),
      (''reserve-with-timeout '', OpReserveTimeout),
      (''reserve-job '', OpReserveJob),
      (''reserve'', OpReserve),
      (''delete '', OpDelete),
      (''release '', OpRelease),
      (''bury '', OpBury),
      (''kick '', OpKick),
      (''kick-job '', OpKickJob),
      (''touch '', OpTouch),
      (''stats-job '', OpStatsJob),
      (''stats-tube '', OpStatsTube),
      (''stats'', OpStats),
      (''use '', OpUse),
      (''watch '', OpWatch),
      (''ignore '', OpIgnore),
      (''list-tubes-watched'', OpListTubesWatched),
      (''list-tube-used'', OpListTubeUsed),
      (''list-tubes'', OpListTubes),
      (''quit'', OpQuit),
      (''pause-tube'', OpPauseTube)]"

fun first_prefix :: "(string \<times> op) list \<Rightarrow> string \<Rightarrow> (op \<times> nat) option" where
  "first_prefix [] line = None"
| "first_prefix ((prefix, opr) # tests) line =
     (if length line \<ge> length prefix \<and> take (length prefix) line = prefix
      then Some (opr, length prefix) else first_prefix tests line)"

definition which_cmd :: "string \<Rightarrow> (op \<times> nat) option" where
  "which_cmd line = first_prefix CMD_TESTS line"

text \<open>\<open>parse_kick_count\<close>: \<open>strtoul\<close> with its sign, truncated to 32 bits.\<close>

definition parse_kick_count :: "string \<Rightarrow> u32 option" where
  "parse_kick_count buf =
     (let buf = dropWhile is_ascii_whitespace buf;
          (negative, buf) =
            (case buf of
               b # bs \<Rightarrow>
                 if b = CHR ''-'' then (True, bs)
                 else if b = CHR ''+'' then (False, bs) else (False, buf)
             | [] \<Rightarrow> (False, buf));
          digits = takeWhile is_ascii_digit buf
      in if digits = [] then None
         else
           let val = sat_number digits in
           if val > U64_MAX then None
           else let val = (of_nat val :: u64);
                    val = (if negative then - val else val)
                in Some (ucast val))"

section \<open>One command line\<close>

definition no_args :: "command \<Rightarrow> string \<Rightarrow> response + parsed_line" where
  "no_args cmd rest = (if rest \<noteq> [] then Inl RBadFormat else Inr (PCommand cmd))"

definition with_id :: "(job_id \<Rightarrow> command) \<Rightarrow> string \<Rightarrow> response + parsed_line" where
  "with_id cmd rest =
     and_then (ok_or RBadFormat (read_u64_full rest)) (\<lambda>jid. Inr (PCommand (cmd jid)))"

definition with_tube :: "(tube_name \<Rightarrow> command) \<Rightarrow> string \<Rightarrow> response + parsed_line" where
  "with_tube cmd rest =
     and_then (tube_name_from_full_rest rest) (\<lambda>n. Inr (PCommand (cmd n)))"

definition parse_put :: "string \<Rightarrow> response + parsed_line" where
  "parse_put rest =
     and_then (ok_or RBadFormat (read_u32_partial rest)) (\<lambda>(pri, rest).
     and_then (ok_or RBadFormat (read_u32_partial rest)) (\<lambda>(delay, rest).
     and_then (ok_or RBadFormat (read_u32_partial rest)) (\<lambda>(ttr, rest).
     and_then (ok_or RBadFormat (read_u32_partial rest)) (\<lambda>(body_size, rest).
       Inr (PPut \<lparr>h_pri = pri, h_delay = delay, h_ttr = ttr, h_body_size = body_size,
                  h_trailing_garbage = (rest \<noteq> [])\<rparr>)))))"

definition parse_reserve_timeout :: "string \<Rightarrow> response + parsed_line" where
  "parse_reserve_timeout rest =
     and_then (ok_or RBadFormat (read_u32_partial rest)) (\<lambda>(timeout, _).
       if unat timeout > 2147483647 then Inl RBadFormat
       else Inr (PCommand (CReserveWithTimeout timeout)))"

definition parse_release :: "string \<Rightarrow> response + parsed_line" where
  "parse_release rest =
     and_then (ok_or RBadFormat (read_u64_partial rest)) (\<lambda>(jid, rest).
     and_then (ok_or RBadFormat (read_u32_partial rest)) (\<lambda>(pri, rest).
     and_then (ok_or RBadFormat (read_u32_full rest)) (\<lambda>delay.
       Inr (PCommand (CRelease jid pri delay)))))"

definition parse_bury :: "string \<Rightarrow> response + parsed_line" where
  "parse_bury rest =
     and_then (ok_or RBadFormat (read_u64_partial rest)) (\<lambda>(jid, rest).
     and_then (ok_or RBadFormat (read_u32_full rest)) (\<lambda>pri.
       Inr (PCommand (CBury jid pri))))"

definition parse_pause_tube :: "string \<Rightarrow> response + parsed_line" where
  "parse_pause_tube rest =
     and_then (ok_or RBadFormat (read_tube_name_span rest)) (\<lambda>(name, rest).
     and_then (ok_or RBadFormat (read_u32_full rest)) (\<lambda>delay.
       Inr (PCommand (case tube_name_from_bytes name of
                        Some n \<Rightarrow> CPauseTube n delay
                      | None \<Rightarrow> CPauseTubeBadName))))"

fun parse_args :: "op \<Rightarrow> string \<Rightarrow> response + parsed_line" where
  "parse_args OpPut rest = parse_put rest"
| "parse_args OpPeekJob rest = with_id CPeek rest"
| "parse_args OpPeekReady rest = no_args CPeekReady rest"
| "parse_args OpPeekDelayed rest = no_args CPeekDelayed rest"
| "parse_args OpPeekBuried rest = no_args CPeekBuried rest"
| "parse_args OpReserveTimeout rest = parse_reserve_timeout rest"
| "parse_args OpReserveJob rest = with_id CReserveJob rest"
| "parse_args OpReserve rest = no_args CReserve rest"
| "parse_args OpDelete rest = with_id CDelete rest"
| "parse_args OpRelease rest = parse_release rest"
| "parse_args OpBury rest = parse_bury rest"
| "parse_args OpKick rest =
     and_then (ok_or RBadFormat (parse_kick_count rest)) (\<lambda>n. Inr (PCommand (CKick n)))"
| "parse_args OpKickJob rest = with_id CKickJob rest"
| "parse_args OpTouch rest = with_id CTouch rest"
| "parse_args OpStatsJob rest = with_id CStatsJob rest"
| "parse_args OpStatsTube rest = with_tube CStatsTube rest"
| "parse_args OpStats rest = no_args CStats rest"
| "parse_args OpUse rest = with_tube CUse rest"
| "parse_args OpWatch rest = with_tube CWatch rest"
| "parse_args OpIgnore rest = with_tube CIgnore rest"
| "parse_args OpListTubesWatched rest = no_args CListTubesWatched rest"
| "parse_args OpListTubeUsed rest = no_args CListTubeUsed rest"
| "parse_args OpListTubes rest = no_args CListTubes rest"
| "parse_args OpQuit rest = Inr (PCommand CQuit)"
| "parse_args OpPauseTube rest = parse_pause_tube rest"

definition parse_line_raw :: "string \<Rightarrow> response + parsed_line" where
  "parse_line_raw line =
     (if CHR 0x00 \<in> set line then Inl RBadFormat
      else case which_cmd line of
        None \<Rightarrow> Inl RUnknownCommand
      | Some (opr, prefix_len) \<Rightarrow> parse_args opr (drop prefix_len line))"

definition parse_line :: "string \<Rightarrow> response + command" where
  "parse_line line =
     and_then (parse_line_raw line) (\<lambda>p. case p of
         PCommand cmd \<Rightarrow> Inr cmd
       | PPut h \<Rightarrow> Inr (CPut (h_pri h) (h_delay h) (h_ttr h) []))"

section \<open>Numbers that fit\<close>

text \<open>The number a string of digits stands for.\<close>

definition number :: "string \<Rightarrow> nat" where
  "number ds = fold (\<lambda>d val. val * 10 + digit_value d) ds 0"

lemma number_snoc [simp]: "number (ds @ [d]) = number ds * 10 + digit_value d"
  by (simp add: number_def)

lemma number_Nil [simp]: "number [] = 0"
  by (simp add: number_def)

lemma number_single [simp]: "number [d] = digit_value d"
  by (simp add: number_def)

lemma min_sat_digit: "min (min (min v m * 10) m + d) m = min (v * 10 + d) (m :: nat)"
  by (auto simp: min_def)

lemma sat_number: "sat_number ds = min (number ds) U128_MAX"
proof (induction ds rule: rev_induct)
  case (snoc d ds)
  then show ?case by (simp add: sat_number_def sat_digit_def min_sat_digit)
qed (simp add: sat_number_def)

lemma sat_number_gt: "sat_number ds > U64_MAX \<longleftrightarrow> number ds \<ge> 2 ^ 64"
  by (simp add: sat_number U128_MAX_def U64_MAX_def min_def) linarith

lemma sat_number_fits: "number ds < 2 ^ 64 \<Longrightarrow> sat_number ds = number ds"
  by (simp add: sat_number U128_MAX_def min_def)

lemma digit_char:
  assumes "d < 10"
  shows "is_ascii_digit (digit_char d)" "digit_value (digit_char d) = d"
  using assms by (simp_all add: is_ascii_digit_def digit_char_def digit_value_def less_eq_char_def)

lemma show_nat_digits: "list_all is_ascii_digit (show_nat n)" "show_nat n \<noteq> []"
proof -
  show "list_all is_ascii_digit (show_nat n)"
  proof (induction n rule: show_nat.induct)
    case (1 n)
    then show ?case by (subst show_nat.simps) (simp add: digit_char)
  qed
  show "show_nat n \<noteq> []" by (subst show_nat.simps) simp
qed

lemma number_show_nat: "number (show_nat n) = n"
proof (induction n rule: show_nat.induct)
  case (1 n)
  show ?case
  proof (cases "n < 10")
    case True
    then show ?thesis by (subst show_nat.simps) (simp add: digit_char)
  next
    case False
    with 1 show ?thesis by (subst show_nat.simps) (simp add: digit_char)
  qed
qed

lemma unat_less_exp: "unat w < 2 ^ LENGTH('a)" for w :: "'a::len word"
  by (rule unsigned_less)

text \<open>A remainder that does not continue the number.\<close>

definition ends_number :: "string \<Rightarrow> bool" where
  "ends_number rest \<longleftrightarrow> (rest = [] \<or> \<not> is_ascii_digit (hd rest))"

lemma parse_digits_append:
  assumes "list_all is_ascii_digit ds" "ds \<noteq> []" "ends_number rest"
  shows "parse_digits (ds @ rest) = Some (sat_number ds, rest)"
proof -
  have "takeWhile is_ascii_digit (ds @ rest) = ds" "dropWhile is_ascii_digit (ds @ rest) = rest"
    using assms by (cases rest; auto simp: list_all_iff ends_number_def)+
  with assms show ?thesis by (cases ds) (auto simp: parse_digits_def)
qed

lemma skip_spaces_digits: "list_all is_ascii_digit ds \<Longrightarrow> ds \<noteq> [] \<Longrightarrow> skip_leading_spaces (ds @ rest) = ds @ rest"
  by (cases ds) (auto simp: skip_leading_spaces_def is_ascii_digit_def less_eq_char_def)

lemma skip_spaces_Cons [simp]: "skip_leading_spaces (CHR '' '' # buf) = skip_leading_spaces buf"
  by (simp add: skip_leading_spaces_def)

lemma read_u64_skip [simp]: "read_u64_partial (CHR '' '' # buf) = read_u64_partial buf"
  by (simp add: read_u64_partial_def)

lemma read_u32_skip [simp]: "read_u32_partial (CHR '' '' # buf) = read_u32_partial buf"
  by (simp add: read_u32_partial_def)

lemma read_u64_show: "ends_number rest \<Longrightarrow> read_u64_partial (show_u64 w @ rest) = Some (w, rest)"
proof -
  assume r: "ends_number rest"
  note d = show_nat_digits [of "unat w"]
  have lt: "number (show_nat (unat w)) < 2 ^ 64" using unat_less_exp [of w] by (simp add: number_show_nat)
  from sat_number_fits [OF this] number_show_nat [of "unat w"] lt
  have "sat_number (show_nat (unat w)) = unat w" by simp
  moreover have "\<not> sat_number (show_nat (unat w)) > U64_MAX"
    using sat_number_gt [of "show_nat (unat w)"] lt by simp
  ultimately show ?thesis
    using skip_spaces_digits [OF d] parse_digits_append [OF d r] by (simp add: read_u64_partial_def show_u64_def)
qed

lemma unat_u32_u64: "unat (ucast w :: u64) = unat w" for w :: u32
  using unat_less_exp [of w] by (simp add: unsigned_ucast_eq take_bit_nat_eq_self)

lemma ucast_u32_u64: "ucast (ucast w :: u64) = w" for w :: u32
  using unat_u32_u64 [of w] by (metis of_nat_unat ucast_id)

lemma read_u32_show: "ends_number rest \<Longrightarrow> read_u32_partial (show_u32 w @ rest) = Some (w, rest)"
proof -
  assume r: "ends_number rest"
  have lt: "unat w < 2 ^ 32" using unat_less_exp [of w] by simp
  have "show_u32 w = show_u64 (ucast w)" by (simp add: show_u32_def show_u64_def unat_u32_u64)
  then show ?thesis
    using read_u64_show [OF r, of "ucast w"] lt
    by (simp add: read_u32_partial_def U32_MAX_def unat_u32_u64 ucast_u32_u64)
qed

lemma read_u64_partial_eq:
  "read_u64_partial buf = Some (v, rest) \<longleftrightarrow>
     (\<exists>k ds. buf = replicate k (CHR '' '') @ ds @ rest \<and> ds \<noteq> [] \<and> list_all is_ascii_digit ds \<and>
        ends_number rest \<and> number ds < 2 ^ 64 \<and> v = of_nat (number ds))" (is "?l \<longleftrightarrow> ?r")
proof
  assume ?l
  then obtain val where p: "parse_digits (skip_leading_spaces buf) = Some (val, rest)"
    and v: "val \<le> U64_MAX" "v = of_nat val"
    by (auto simp: read_u64_partial_def bind_eq_Some_conv split: if_splits)
  let ?b = "skip_leading_spaces buf"
  define ds where "ds = takeWhile is_ascii_digit ?b"
  from p have ds: "ds \<noteq> []" "val = sat_number ds" "rest = dropWhile is_ascii_digit ?b"
    by (auto simp: parse_digits_def ds_def split: list.splits if_splits)
  define sp where "sp = takeWhile (\<lambda>b. b = CHR '' '') buf"
  have "list_all (\<lambda>b. b = CHR '' '') sp"
    by (simp add: sp_def list_all_iff) (meson set_takeWhileD)
  then have "sp = replicate (length sp) (CHR '' '')"
    using replicate_length_same [of sp "CHR '' ''"] by (simp add: list_all_iff)
  moreover have "buf = sp @ ?b" by (simp add: sp_def skip_leading_spaces_def)
  moreover have "?b = ds @ rest" using ds by (simp add: ds_def)
  moreover have "list_all is_ascii_digit ds" by (simp add: ds_def list_all_iff) (meson set_takeWhileD)
  moreover have "ends_number rest" using ds(3) hd_dropWhile [of is_ascii_digit ?b] by (auto simp: ends_number_def)
  moreover have lt: "number ds < 2 ^ 64" using v(1) ds(2) sat_number_gt [of ds] by simp
  moreover have "v = of_nat (number ds)" using sat_number_fits [OF lt] v(2) ds(2) by simp
  ultimately show ?r using ds(1) by (intro exI [of _ "length sp"] exI [of _ ds]) simp
next
  assume ?r
  then obtain k ds where b: "buf = replicate k (CHR '' '') @ ds @ rest" "ds \<noteq> []" "list_all is_ascii_digit ds"
    "ends_number rest" "number ds < 2 ^ 64" "v = of_nat (number ds)" by blast
  have "read_u64_partial buf = read_u64_partial (ds @ rest)"
    unfolding b(1) by (induction k) simp_all
  with b(2-) sat_number_gt [of ds] show ?l
    by (simp add: read_u64_partial_def skip_spaces_digits parse_digits_append sat_number_fits)
qed

text \<open>C24: What \<open>read_u64_partial\<close> accepts: any number of spaces, then the longest run of digits, with a
value below 2^64; it returns that value and what follows. In particular the saturating arithmetic on
\<open>u128\<close> never turns a number that does not fit into one that does.\<close>

theorem read_u64_partial_iff:
  "read_u64_partial buf = Some (v, rest) \<longleftrightarrow>
     (\<exists>k ds. buf = replicate k (CHR '' '') @ ds @ rest \<and> ds \<noteq> [] \<and> list_all is_ascii_digit ds \<and>
        ends_number rest \<and> number ds < 2 ^ 64 \<and> v = of_nat (number ds))"
  by (rule read_u64_partial_eq)

section \<open>Names and texts\<close>

lemma name_char_ascii: "is_name_char b \<Longrightarrow> in_range 0 0x7F b"
  using is_name_char_range [of b] by (auto simp: in_range_def less_eq_char_def)

lemma utf8_ascii: "list_all (in_range 0 0x7F) s \<Longrightarrow> utf8_valid s"
  by (induction s) auto

lemma utf8_name: "list_all is_name_char s \<Longrightarrow> utf8_valid s"
  by (rule utf8_ascii) (auto simp: list_all_iff name_char_ascii)

lemma tube_name_checked: "from_utf8 s \<bind> TubeName_new = TubeName_new s"
proof (cases "utf8_valid s")
  case False
  then have "\<not> valid_tube_name s" using utf8_name by (auto simp: valid_tube_name_iff)
  with False TubeName_new_None [of s] show ?thesis by (simp add: from_utf8_def)
qed (simp add: from_utf8_def)

lemma full_rest_eq: "tube_name_from_full_rest s = ok_or RBadFormat (TubeName_new s)"
  using tube_name_checked [of s]
  by (cases "from_utf8 s") (auto simp: tube_name_from_full_rest_def and_then_def ok_or_def)

lemma with_tube_valid [simp]: "valid_tube_name n \<Longrightarrow> with_tube cmd n = Inr (PCommand (cmd n))"
  using TubeName_new_Some [of n n] by (simp add: with_tube_def full_rest_eq and_then_def ok_or_def)

lemma ends_number_Nil [simp]: "ends_number []"
  by (simp add: ends_number_def)

lemma ends_number_space [simp]: "ends_number (CHR '' '' # s)"
  by (simp add: ends_number_def is_ascii_digit_def less_eq_char_def)

lemma with_id_show [simp]: "with_id cmd (show_u64 w) = Inr (PCommand (cmd w))"
  using read_u64_show [of "[]" w] by (simp add: with_id_def read_u64_full_def and_then_def ok_or_def)

lemma read_u32_full_show [simp]: "read_u32_full (show_u32 w) = Some w"
  using read_u32_show [of "[]" w] by (simp add: read_u32_full_def)

lemma read_u32_full_skip [simp]: "read_u32_full (CHR '' '' # buf) = read_u32_full buf"
  by (simp add: read_u32_full_def)

lemma dropWhile_name:
  assumes "valid_tube_name n" "\<not> is_name_char b"
  shows "takeWhile is_name_char (n @ b # s) = n"
  using assms by (simp add: valid_tube_name_iff list_all_iff takeWhile_append)

lemma name_span:
  assumes "valid_tube_name n" "\<not> is_name_char b"
  shows "read_tube_name_span (CHR '' '' # n @ b # s) = Some (n, b # s)"
proof -
  from assms(1) obtain c m where n: "n = c # m" "is_name_char c" by (cases n) (auto simp: valid_tube_name_iff)
  then have "c \<noteq> CHR '' ''" using is_name_char_range [of c] by (auto simp: less_eq_char_def)
  then have "skip_leading_spaces (n @ b # s) = n @ b # s" using n by (simp add: skip_leading_spaces_def)
  with dropWhile_name [OF assms, of s] n show ?thesis by (simp add: read_tube_name_span_def)
qed

lemma space_not_name [simp]: "\<not> is_name_char (CHR '' '')"
  using is_name_char_range [of "CHR '' ''"] by (auto simp: less_eq_char_def)

lemma takeWhile_show: "takeWhile is_ascii_digit (show_nat n) = show_nat n"
  using show_nat_digits(1) [of n] by (simp add: takeWhile_eq_all_conv list_all_iff)

lemma kick_show: "parse_kick_count (show_u32 n) = Some n"
proof -
  obtain c ds where c: "show_nat (unat n) = c # ds" using show_nat_digits(2) [of "unat n"] by (cases "show_nat (unat n)") auto
  have "is_ascii_digit c" using show_nat_digits(1) [of "unat n"] c by simp
  then have "\<not> is_ascii_whitespace c" "c \<noteq> CHR ''-''" "c \<noteq> CHR ''+''"
    by (auto simp: is_ascii_digit_def is_ascii_whitespace_def less_eq_char_def)
  moreover have lt: "number (show_nat (unat n)) < 2 ^ 64" using unat_less_exp [of n] by (simp add: number_show_nat)
  moreover have "(ucast (of_nat (unat n) :: u64) :: u32) = n"
    by (simp add: ucast_u32_u64)
  ultimately show ?thesis
    using takeWhile_show [of "unat n"] sat_number_gt [of "show_nat (unat n)"] sat_number_fits [OF lt]
    by (simp add: parse_kick_count_def show_u32_def c number_show_nat [of "unat n", unfolded c] Let_def)
qed

section \<open>Round trip\<close>

text \<open>The protocol's syntax of a command, as a client writes it.\<close>

fun render :: "command \<Rightarrow> string" where
  "render (CUse n) = ''use '' @ n"
| "render CReserve = ''reserve''"
| "render (CReserveWithTimeout t) = ''reserve-with-timeout '' @ show_u32 t"
| "render (CReserveJob i) = ''reserve-job '' @ show_u64 i"
| "render (CDelete i) = ''delete '' @ show_u64 i"
| "render (CRelease i pri delay) = ''release '' @ show_u64 i @ '' '' @ show_u32 pri @ '' '' @ show_u32 delay"
| "render (CBury i pri) = ''bury '' @ show_u64 i @ '' '' @ show_u32 pri"
| "render (CTouch i) = ''touch '' @ show_u64 i"
| "render (CWatch n) = ''watch '' @ n"
| "render (CIgnore n) = ''ignore '' @ n"
| "render (CPeek i) = ''peek '' @ show_u64 i"
| "render CPeekReady = ''peek-ready''"
| "render CPeekDelayed = ''peek-delayed''"
| "render CPeekBuried = ''peek-buried''"
| "render (CKick n) = ''kick '' @ show_u32 n"
| "render (CKickJob i) = ''kick-job '' @ show_u64 i"
| "render (CStatsJob i) = ''stats-job '' @ show_u64 i"
| "render (CStatsTube n) = ''stats-tube '' @ n"
| "render CStats = ''stats''"
| "render CListTubes = ''list-tubes''"
| "render CListTubeUsed = ''list-tube-used''"
| "render CListTubesWatched = ''list-tubes-watched''"
| "render CQuit = ''quit''"
| "render (CPauseTube n delay) = ''pause-tube '' @ n @ '' '' @ show_u32 delay"
| "render CPauseTubeBadName = ''pause-tube - 0''"
| "render (CPut pri delay ttr body) =
     ''put '' @ show_u32 pri @ '' '' @ show_u32 delay @ '' '' @ show_u32 ttr @ '' '' @ show_nat (length body)"

text \<open>What every parsed command satisfies: tube names are valid and a timeout fits \<open>i32\<close>.\<close>

fun wf_command :: "command \<Rightarrow> bool" where
  "wf_command (CUse n) = valid_tube_name n"
| "wf_command (CWatch n) = valid_tube_name n"
| "wf_command (CIgnore n) = valid_tube_name n"
| "wf_command (CStatsTube n) = valid_tube_name n"
| "wf_command (CPauseTube n _) = valid_tube_name n"
| "wf_command (CReserveWithTimeout t) = (unat t \<le> 2147483647)"
| "wf_command _ = True"

lemma no_nul:
  "CHR 0x00 \<notin> set (show_nat n)" "valid_tube_name m \<Longrightarrow> CHR 0x00 \<notin> set m"
proof -
  show "CHR 0x00 \<notin> set (show_nat n)"
    using show_nat_digits(1) [of n] by (auto simp: list_all_iff is_ascii_digit_def less_eq_char_def)
  show "CHR 0x00 \<notin> set m" if "valid_tube_name m"
    using that is_name_char_range by (fastforce simp: valid_tube_name_iff list_all_iff less_eq_char_def)
qed

lemma no_nul_show: "CHR 0x00 \<notin> set (show_u32 v)" "CHR 0x00 \<notin> set (show_u64 w)"
  by (simp_all add: show_u32_def show_u64_def no_nul)

lemmas parse_simps = parse_line_raw_def which_cmd_def CMD_TESTS_def no_nul no_nul_show no_args_def

lemma reserve_timeout_show:
  "unat t \<le> 2147483647 \<Longrightarrow> parse_reserve_timeout (show_u32 t) = Inr (PCommand (CReserveWithTimeout t))"
  using read_u32_show [of "[]" t] by (simp add: parse_reserve_timeout_def and_then_def ok_or_def)

lemma release_show:
  "parse_release (show_u64 i @ CHR '' '' # show_u32 pri @ CHR '' '' # show_u32 delay) =
     Inr (PCommand (CRelease i pri delay))"
  using read_u64_show [of "CHR '' '' # show_u32 pri @ CHR '' '' # show_u32 delay" i]
    read_u32_show [of "CHR '' '' # show_u32 delay" pri]
  by (simp add: parse_release_def and_then_def ok_or_def)

lemma bury_show:
  "parse_bury (show_u64 i @ CHR '' '' # show_u32 pri) = Inr (PCommand (CBury i pri))"
  using read_u64_show [of "CHR '' '' # show_u32 pri" i] by (simp add: parse_bury_def and_then_def ok_or_def)

lemma pause_show:
  "valid_tube_name n \<Longrightarrow>
   parse_pause_tube (CHR '' '' # n @ CHR '' '' # show_u32 delay) = Inr (PCommand (CPauseTube n delay))"
  using name_span [of n "CHR '' ''" "show_u32 delay"] tube_name_checked [of n] TubeName_new_Some [of n n]
  by (simp add: parse_pause_tube_def tube_name_from_bytes_def and_then_def ok_or_def)

lemma put_show:
  "length body < 2 ^ 32 \<Longrightarrow>
   parse_put (show_u32 pri @ CHR '' '' # show_u32 delay @ CHR '' '' # show_u32 ttr @ CHR '' '' # show_nat (length body)) =
     Inr (PPut \<lparr>h_pri = pri, h_delay = delay, h_ttr = ttr, h_body_size = of_nat (length body),
       h_trailing_garbage = False\<rparr>)"
proof -
  assume "length body < 2 ^ 32"
  then have "unat (of_nat (length body) :: u32) = length body"
    by (simp add: unsigned_of_nat take_bit_nat_eq_self)
  then have sz: "show_nat (length body) = show_u32 (of_nat (length body))" by (simp add: show_u32_def)
  let ?t = "CHR '' '' # show_u32 (of_nat (length body))"
  show ?thesis
    unfolding sz
    using read_u32_show [of "[]" "of_nat (length body)"] read_u32_show [of ?t ttr]
      read_u32_show [of "CHR '' '' # show_u32 ttr @ ?t" delay]
      read_u32_show [of "CHR '' '' # show_u32 delay @ CHR '' '' # show_u32 ttr @ ?t" pri]
    by (simp add: parse_put_def and_then_def ok_or_def)
qed

lemma parse_render:
  assumes "wf_command cmd" "\<not> is_CPut cmd" "cmd \<noteq> CPauseTubeBadName"
  shows "parse_line_raw (render cmd) = Inr (PCommand cmd)"
  using assms
  by (cases cmd) (simp_all add: parse_simps kick_show reserve_timeout_show release_show bury_show pause_show
      and_then_def ok_or_def)

lemma parse_render_put:
  assumes "length body < 2 ^ 32"
  shows "parse_line_raw (render (CPut pri delay ttr body)) =
    Inr (PPut \<lparr>h_pri = pri, h_delay = delay, h_ttr = ttr, h_body_size = of_nat (length body),
      h_trailing_garbage = False\<rparr>)"
  using put_show [OF assms] by (simp add: parse_simps)

section \<open>What the parser can return\<close>

lemma and_then_Inr: "and_then m f = Inr y \<longleftrightarrow> (\<exists>x. m = Inr x \<and> f x = Inr y)"
  by (cases m) (simp_all add: and_then_def)

lemma and_then_Inl: "and_then m f = Inl e \<longleftrightarrow> m = Inl e \<or> (\<exists>x. m = Inr x \<and> f x = Inl e)"
  by (cases m) (simp_all add: and_then_def)

lemma ok_or_Inr: "ok_or e m = Inr x \<longleftrightarrow> m = Some x"
  by (cases m) (simp_all add: ok_or_def)

lemma ok_or_Inl: "ok_or e m = Inl r \<longleftrightarrow> r = e \<and> m = None"
  by (cases m) (auto simp: ok_or_def)

lemmas parse_args_defs = with_id_def with_tube_def no_args_def parse_put_def parse_reserve_timeout_def
  parse_release_def parse_bury_def parse_pause_tube_def full_rest_eq

lemma reserve_timeout_Inr:
  "parse_reserve_timeout rest = Inr (PCommand cmd) \<Longrightarrow> wf_command cmd \<and> \<not> is_CPut cmd"
proof (cases "read_u32_partial rest")
  case None
  assume "parse_reserve_timeout rest = Inr (PCommand cmd)"
  with None show ?thesis by (simp add: parse_reserve_timeout_def and_then_def ok_or_def)
next
  case (Some tr)
  assume p: "parse_reserve_timeout rest = Inr (PCommand cmd)"
  obtain t r where t: "tr = (t, r)" by (cases tr)
  show ?thesis
  proof (cases "unat t > 2147483647")
    case True
    with p Some t show ?thesis by (simp add: parse_reserve_timeout_def and_then_def ok_or_def)
  next
    case False
    with p Some t have "cmd = CReserveWithTimeout t" by (simp add: parse_reserve_timeout_def and_then_def ok_or_def)
    with False show ?thesis by simp
  qed
qed

lemma pause_Inr: "parse_pause_tube rest = Inr (PCommand cmd) \<Longrightarrow> wf_command cmd \<and> \<not> is_CPut cmd"
proof -
  assume "parse_pause_tube rest = Inr (PCommand cmd)"
  then obtain name delay where "cmd = (case TubeName_new name of Some n \<Rightarrow> CPauseTube n delay | None \<Rightarrow> CPauseTubeBadName)"
    by (auto simp: parse_pause_tube_def and_then_Inr tube_name_from_bytes_def tube_name_checked)
  then show ?thesis by (cases "TubeName_new name") (simp_all add: TubeName_new_Some)
qed

lemma simple_args_Inr:
  "no_args c rest = Inr (PCommand cmd) \<longleftrightarrow> rest = [] \<and> cmd = c"
  "with_id f rest = Inr (PCommand cmd) \<longleftrightarrow> (\<exists>i. read_u64_full rest = Some i \<and> cmd = f i)"
  "with_tube g rest = Inr (PCommand cmd) \<longleftrightarrow> valid_tube_name rest \<and> cmd = g rest"
  by (auto simp: no_args_def with_id_def with_tube_def full_rest_eq and_then_Inr ok_or_Inr TubeName_new_Some)

lemma parse_args_Inr: "parse_args opr rest = Inr (PCommand cmd) \<Longrightarrow> wf_command cmd \<and> \<not> is_CPut cmd"
proof (cases opr)
  case OpPauseTube
  assume "parse_args opr rest = Inr (PCommand cmd)"
  with OpPauseTube pause_Inr show ?thesis by simp
next
  case OpPut
  assume "parse_args opr rest = Inr (PCommand cmd)"
  with OpPut show ?thesis by (simp add: parse_put_def and_then_Inr)
next
  case OpReserveTimeout
  assume "parse_args opr rest = Inr (PCommand cmd)"
  with OpReserveTimeout reserve_timeout_Inr show ?thesis by simp
next
  case OpRelease
  assume "parse_args opr rest = Inr (PCommand cmd)"
  with OpRelease have "parse_release rest = Inr (PCommand cmd)" by simp
  then have "\<exists>i pri delay. cmd = CRelease i pri delay"
    unfolding parse_release_def and_then_def ok_or_def by (auto split: option.splits prod.splits)
  then show ?thesis by (elim exE) simp
next
  case OpBury
  assume "parse_args opr rest = Inr (PCommand cmd)"
  with OpBury have "parse_bury rest = Inr (PCommand cmd)" by simp
  then have "\<exists>i pri. cmd = CBury i pri"
    unfolding parse_bury_def and_then_def ok_or_def by (auto split: option.splits prod.splits)
  then show ?thesis by (elim exE) simp
next
  case OpKick
  assume "parse_args opr rest = Inr (PCommand cmd)"
  with OpKick have "\<exists>n. cmd = CKick n"
    by (simp add: and_then_Inr) blast
  then show ?thesis by (elim exE) simp
qed (simp_all add: simple_args_Inr, (elim exE conjE, simp)+)

lemma parse_args_Inl: "parse_args opr rest = Inl r \<Longrightarrow> r = RBadFormat"
  by (cases opr) (auto simp: parse_args_defs and_then_Inl ok_or_Inl split: if_splits prod.splits)

lemma parse_line_wf: "parse_line_raw line = Inr (PCommand cmd) \<Longrightarrow> wf_command cmd \<and> \<not> is_CPut cmd"
  using parse_args_Inr by (auto simp: parse_line_raw_def split: if_splits option.splits)

lemma parse_line_error:
  "parse_line_raw line = Inl r \<longleftrightarrow>
     (if CHR 0x00 \<in> set line then r = RBadFormat
      else case which_cmd line of
        None \<Rightarrow> r = RUnknownCommand
      | Some (opr, n) \<Rightarrow> r = RBadFormat \<and> parse_args opr (drop n line) = Inl RBadFormat)"
  using parse_args_Inl by (auto simp: parse_line_raw_def split: option.splits)

end
