(* ===== verification/Proto_Codec.thy ===== *)
theory Proto_Codec
  imports Proto_Parse
begin

text \<open>
  The framing of the client protocol, \<open>crates/proto/src/codec.rs\<close>: command lines, put bodies,
  lines that are too long and bodies that are too big. The buffer is the list of bytes not
  yet consumed; \<open>split_to\<close> and \<open>advance\<close> drop its front. \<open>reserve\<close> only affects capacity.

  The main theorem: the frames decoded from a stream do not depend on how the bytes are cut
  into reads.
\<close>

section \<open>The decoder\<close>

datatype codec_state =
    CodecLine (line_overflowed: bool)
  | CodecPutBody u32 u32 u32 u32
  | CodecDiscard nat

record server_codec =
  k_max_job_size :: u32
  k_state :: codec_state
  k_emit_put_started :: bool
  k_recognize_auth :: bool

definition ServerCodec_new :: "u32 \<Rightarrow> server_codec" where
  "ServerCodec_new max_job_size =
     \<lparr>k_max_job_size = max_job_size, k_state = CodecLine False,
      k_emit_put_started = False, k_recognize_auth = False\<rparr>"

definition recognize_auth :: "server_codec \<Rightarrow> server_codec" where
  "recognize_auth k = k\<lparr>k_recognize_auth := True\<rparr>"

definition emit_put_started :: "server_codec \<Rightarrow> server_codec" where
  "emit_put_started k = k\<lparr>k_emit_put_started := True\<rparr>"

datatype line_scan = LineFound nat | LineIncomplete | LineOverflow

abbreviation CR :: char where "CR \<equiv> CHR 0x0D"
abbreviation LF :: char where "LF \<equiv> CHR 0x0A"

definition scan_line_end :: "string \<Rightarrow> line_scan" where
  "scan_line_end buf =
     (let window_len = min (length buf) LINE_BUF_SIZE;
          window = take window_len buf;
          found =
            (if window_len \<ge> 2 then
               case position (\<lambda>b. b = CR) (take (window_len - 1) window) of
                 Some pos \<Rightarrow> if window ! (pos + 1) = LF then Some pos else None
               | None \<Rightarrow> None
             else None)
      in case found of
           Some pos \<Rightarrow> LineFound pos
         | None \<Rightarrow> if window_len = LINE_BUF_SIZE then LineOverflow else LineIncomplete)"

text \<open>One round of the loop in \<open>decode\<close>: either it returns, or it goes on with a new state.\<close>

datatype round = Return "frame option" server_codec string | Again server_codec string

definition put_line :: "put_header \<Rightarrow> server_codec \<Rightarrow> string \<Rightarrow> round" where
  "put_line h k src =
     (if h_body_size h > k_max_job_size k then
        let k = k\<lparr>k_state := CodecDiscard (unat (h_body_size h) + 2)\<rparr> in
        if k_emit_put_started k then Return (Some (FPutStarted True)) k src else Again k src
      else if h_trailing_garbage h then
        Return (Some (FPutRejected TrailingGarbage)) (k\<lparr>k_state := CodecLine False\<rparr>) src
      else
        let k = k\<lparr>k_state := CodecPutBody (h_pri h) (h_delay h) (h_ttr h) (h_body_size h)\<rparr> in
        if k_emit_put_started k then Return (Some (FPutStarted False)) k src else Again k src)"

definition strip_prefix :: "string \<Rightarrow> string \<Rightarrow> string option" where
  "strip_prefix p s = (if take (length p) s = p then Some (drop (length p) s) else None)"

definition auth_token :: "server_codec \<Rightarrow> string \<Rightarrow> string option" where
  "auth_token k line = (if k_recognize_auth k then strip_prefix ''auth '' line else None)"

definition found_line :: "bool \<Rightarrow> string \<Rightarrow> server_codec \<Rightarrow> string \<Rightarrow> round" where
  "found_line was_overflowed line k src =
     (let ready = k\<lparr>k_state := CodecLine False\<rparr> in
      if was_overflowed then Return (Some (FError RBadFormat)) ready src
      else case auth_token k line of
        Some token \<Rightarrow> Return (Some (FAuth token)) ready src
      | None \<Rightarrow>
          (case parse_line_raw line of
             Inl resp \<Rightarrow> Return (Some (FError resp)) ready src
           | Inr (PCommand cmd) \<Rightarrow> Return (Some (FCommand cmd)) ready src
           | Inr (PPut h) \<Rightarrow> put_line h k src))"

definition decode_round :: "server_codec \<Rightarrow> string \<Rightarrow> round" where
  "decode_round k src =
     (case k_state k of
        CodecLine overflowed \<Rightarrow>
          (case scan_line_end src of
             LineIncomplete \<Rightarrow> Return None k src
           | LineOverflow \<Rightarrow> Again (k\<lparr>k_state := CodecLine True\<rparr>) (drop LINE_BUF_SIZE src)
           | LineFound n \<Rightarrow> found_line overflowed (take n src) k (drop (n + 2) src))
      | CodecPutBody pri delay ttr body_size \<Rightarrow>
          let need = unat body_size + 2 in
          if length src < need then Return None k src
          else
            let body = take need src;
                src = drop need src;
                k = k\<lparr>k_state := CodecLine False\<rparr>;
                crlf_ok = (body ! (need - 2) = CR \<and> body ! (need - 1) = LF)
            in if \<not> crlf_ok then Return (Some (FPutRejected ExpectedCrlf)) k src
               else Return (Some (FCommand (CPut pri delay ttr (take (need - 2) body)))) k src
      | CodecDiscard remaining \<Rightarrow>
          if src = [] then Return None k src
          else
            let n = min remaining (length src);
                src = drop n src
            in if remaining - n > 0
               then Return None (k\<lparr>k_state := CodecDiscard (remaining - n)\<rparr>) src
               else Return (Some (FPutRejected JobTooBig)) (k\<lparr>k_state := CodecLine False\<rparr>) src)"

lemma scan_found_length: "scan_line_end src = LineFound n \<Longrightarrow> n + 2 \<le> length src \<and> n + 2 \<le> LINE_BUF_SIZE"
  by (auto simp: scan_line_end_def Let_def dest!: position_Some split: if_splits option.splits)

lemma scan_overflow_length: "scan_line_end src = LineOverflow \<Longrightarrow> LINE_BUF_SIZE \<le> length src"
  by (auto simp: scan_line_end_def Let_def split: if_splits option.splits)

lemma found_line_src: "found_line w line k src = Again k' src' \<Longrightarrow> src' = src"
  by (auto simp: found_line_def put_line_def Let_def split: if_splits option.splits sum.splits parsed_line.splits)

lemma decode_round_shrinks: "decode_round k src = Again k' src' \<Longrightarrow> length src' < length src"
  using scan_found_length [of src] scan_overflow_length [of src] found_line_src
  by (fastforce simp: decode_round_def Let_def LINE_BUF_SIZE_def
      split: codec_state.splits line_scan.splits if_splits)

text \<open>The loop: every round that does not return consumes input.\<close>

function decode :: "server_codec \<Rightarrow> string \<Rightarrow> frame option \<times> server_codec \<times> string" where
  "decode k src =
     (case decode_round k src of
        Return f k src \<Rightarrow> (f, k, src)
      | Again k src \<Rightarrow> decode k src)"
  by pat_completeness auto
termination
  by (relation "measure (\<lambda>(k, src). length src)") (auto simp: decode_round_shrinks)

declare decode.simps [simp del]

section \<open>More input\<close>

lemma position_append: "position P xs = Some i \<Longrightarrow> position P (xs @ ys) = Some i"
  by (induction xs arbitrary: i) (auto split: if_splits)

lemma window_append:
  assumes "n \<le> length buf"
  shows "take n (buf @ x) = take n buf"
  using assms by simp

lemma scan_found_iff:
  "scan_line_end buf = LineFound n \<longleftrightarrow>
     2 \<le> min (length buf) LINE_BUF_SIZE \<and>
     position (\<lambda>b. b = CR) (take (min (length buf) LINE_BUF_SIZE - 1) buf) = Some n \<and> buf ! (n + 1) = LF"
proof -
  define w where "w = min (length buf) LINE_BUF_SIZE"
  have t: "take (w - 1) (take w buf) = take (w - 1) buf" by simp
  have nth: "take w buf ! (m + 1) = buf ! (m + 1)" if "position (\<lambda>b. b = CR) (take (w - 1) buf) = Some m" for m
  proof -
    have "m + 1 < w" using position_Some [OF that] by (simp add: less_diff_conv)
    then show ?thesis by simp
  qed
  show ?thesis
    unfolding scan_line_end_def Let_def w_def [symmetric] t
    using nth by (auto split: option.splits if_splits)
qed

lemma scan_append:
  shows "scan_line_end src = LineFound n \<Longrightarrow> scan_line_end (src @ x) = LineFound n"
    and "scan_line_end src = LineOverflow \<Longrightarrow> scan_line_end (src @ x) = LineOverflow"
proof -
  let ?w = "min (length src) LINE_BUF_SIZE" and ?v = "min (length (src @ x)) LINE_BUF_SIZE"
  show "scan_line_end (src @ x) = LineFound n" if f: "scan_line_end src = LineFound n"
  proof -
    from f have w2: "2 \<le> ?w" and p: "position (\<lambda>b. b = CR) (take (?w - 1) src) = Some n"
      and lf: "src ! (n + 1) = LF"
      unfolding scan_found_iff by blast+
    have "n < ?w - 1" using position_Some [OF p] by simp
    then have n: "n + 1 < length src" by linarith
    have le: "?w - 1 \<le> ?v - 1" "?w - 1 \<le> length src" by (simp_all add: diff_le_mono min.coboundedI1)
    have "take (?w - 1) (take (?v - 1) (src @ x)) = take (?w - 1) src"
      unfolding take_take min_absorb1 [OF le(1)] by (rule window_append [OF le(2)])
    then have "take (?v - 1) (src @ x) = take (?w - 1) src @ drop (?w - 1) (take (?v - 1) (src @ x))"
      by (metis append_take_drop_id)
    then have "position (\<lambda>b. b = CR) (take (?v - 1) (src @ x)) = Some n"
      using position_append [OF p] by metis
    moreover have "(src @ x) ! (n + 1) = LF" using lf n by (simp add: nth_append)
    moreover have "2 \<le> ?v" using w2 by simp
    ultimately show ?thesis unfolding scan_found_iff by blast
  qed
  show "scan_line_end (src @ x) = LineOverflow" if o: "scan_line_end src = LineOverflow"
  proof -
    have len: "LINE_BUF_SIZE \<le> length src" by (rule scan_overflow_length [OF o])
    then have "?w = LINE_BUF_SIZE" "?v = LINE_BUF_SIZE" by simp_all
    moreover have "take LINE_BUF_SIZE (src @ x) = take LINE_BUF_SIZE src" using len by simp
    ultimately have "scan_line_end (src @ x) = scan_line_end src"
      by (simp add: scan_line_end_def)
    with o show ?thesis by simp
  qed
qed

fun more :: "string \<Rightarrow> round \<Rightarrow> round" where
  "more x (Return f k src) = Return f k (src @ x)"
| "more x (Again k src) = Again k (src @ x)"

lemma found_line_append: "found_line w line k (src @ x) = more x (found_line w line k src)"
  by (simp add: found_line_def put_line_def Let_def split: option.split sum.split parsed_line.split)

lemma decode_round_append:
  assumes "\<And>k' r. decode_round k src \<noteq> Return None k' r"
  shows "decode_round k (src @ x) = more x (decode_round k src)"
proof (cases "k_state k")
  case (CodecLine w)
  show ?thesis
  proof (cases "scan_line_end src")
    case (LineFound n)
    with CodecLine scan_append(1) [OF LineFound, of x] scan_found_length [OF LineFound] show ?thesis
      by (simp add: decode_round_def found_line_append)
  next
    case LineIncomplete
    with CodecLine have "decode_round k src = Return None k src" by (simp add: decode_round_def)
    with assms show ?thesis by blast
  next
    case LineOverflow
    with CodecLine scan_append(2) [OF LineOverflow, of x] scan_overflow_length [OF LineOverflow] show ?thesis
      by (simp add: decode_round_def)
  qed
next
  case (CodecPutBody pri delay ttr n)
  have "unat n + 2 \<le> length src"
  proof (rule ccontr)
    assume "\<not> ?thesis"
    with CodecPutBody have "decode_round k src = Return None k src" by (simp add: decode_round_def)
    with assms show False by blast
  qed
  with CodecPutBody show ?thesis by (simp add: decode_round_def Let_def nth_append)
next
  case (CodecDiscard n)
  have "src \<noteq> [] \<and> n \<le> length src"
  proof (rule ccontr)
    assume "\<not> ?thesis"
    with CodecDiscard have "\<exists>k' r. decode_round k src = Return None k' r"
      by (auto simp: decode_round_def Let_def min_def)
    with assms show False by blast
  qed
  with CodecDiscard show ?thesis by (simp add: decode_round_def Let_def min_def)
qed

lemma decode_round_None:
  assumes r: "decode_round k src = Return None k' r"
  shows "decode_round k (src @ x) = decode_round k' (r @ x)"
proof (cases "k_state k")
  case (CodecLine w)
  with r have "k' = k \<and> r = src"
    by (auto simp: decode_round_def found_line_def put_line_def Let_def
        split: line_scan.splits if_splits option.splits sum.splits parsed_line.splits)
  then show ?thesis by simp
next
  case (CodecPutBody pri delay ttr n)
  with r have "k' = k \<and> r = src" by (auto simp: decode_round_def Let_def split: if_splits)
  then show ?thesis by simp
next
  case (CodecDiscard n)
  show ?thesis
  proof (cases "src = []")
    case True
    with CodecDiscard r show ?thesis by (simp add: decode_round_def)
  next
    case False
    with CodecDiscard r have "length src < n" "k' = k\<lparr>k_state := CodecDiscard (n - length src)\<rparr>" "r = []"
      by (auto simp: decode_round_def Let_def min_def split: if_splits)
    with CodecDiscard False show ?thesis
      by (cases "x = []") (auto simp: decode_round_def Let_def min_def)
  qed
qed

lemma decode_append:
  "decode k src = (res, k', r) \<Longrightarrow>
   decode k (src @ x) = (case res of Some f \<Rightarrow> (Some f, k', r @ x) | None \<Rightarrow> decode k' (r @ x))"
proof (induction k src rule: decode.induct)
  case (1 k src)
  show ?case
  proof (cases "decode_round k src")
    case (Return f k1 r1)
    with 1(2) have eq: "f = res" "k1 = k'" "r1 = r" by (simp_all add: decode.simps [of k src])
    show ?thesis
    proof (cases f)
      case None
      with Return eq decode_round_None [of k src k' r x] show ?thesis
        by (simp add: decode.simps [of k "src @ x"] decode.simps [of k' "r @ x"])
    next
      case (Some g)
      have "decode_round k (src @ x) = more x (decode_round k src)"
        by (rule decode_round_append) (use Return Some in simp)
      with Return Some eq show ?thesis by (auto simp: decode.simps [of k "src @ x"])
    qed
  next
    case (Again k1 r1)
    with 1(2) have "decode k1 r1 = (res, k', r)" by (simp add: decode.simps [of k src])
    from 1(1) [OF Again this] Again decode_round_append [of k src x] show ?thesis
      by (simp add: decode.simps [of k "src @ x"])
  qed
qed

section \<open>Decoding a stream\<close>

text \<open>The connection loop of the server (\<open>command_loop\<close> in \<open>crates/server/src/conn.rs\<close>) calls \<open>decode\<close>
  on what has arrived until it returns no frame, and then reads more.\<close>

lemma decode_consumes:
  "decode k src = (Some f, k', r) \<Longrightarrow>
   length r < length src \<or> length r = length src \<and> is_CodecDiscard (k_state k) \<and> \<not> is_CodecDiscard (k_state k')"
proof (induction k src rule: decode.induct)
  case (1 k src)
  show ?case
  proof (cases "decode_round k src")
    case (Again k1 r1)
    with 1(2) have d: "decode k1 r1 = (Some f, k', r)" by (simp add: decode.simps [of k src])
    from 1(1) [OF Again d] decode_round_shrinks [OF Again] show ?thesis by auto
  next
    case (Return g k1 r1)
    with 1(2) have "decode_round k src = Return (Some f) k' r" by (simp add: decode.simps [of k src])
    then show ?thesis
      using scan_found_length [of src]
      by (auto simp: decode_round_def found_line_def put_line_def Let_def
          split: codec_state.splits line_scan.splits if_splits option.splits sum.splits parsed_line.splits)
  qed
qed

function feed :: "server_codec \<Rightarrow> string \<Rightarrow> frame list \<times> server_codec \<times> string" where
  "feed k src =
     (case decode k src of
        (None, k, src) \<Rightarrow> ([], k, src)
      | (Some f, k, src) \<Rightarrow> (case feed k src of (fs, k, src) \<Rightarrow> (f # fs, k, src)))"
  by pat_completeness auto
termination
  by (relation "measures [\<lambda>(k, src). length src, \<lambda>(k, src). if is_CodecDiscard (k_state k) then 1 else 0]")
    (auto dest!: decode_consumes [OF sym])

declare feed.simps [simp del]

lemma feed_append:
  "feed k (a @ b) =
     (case feed k a of (fs, k', r) \<Rightarrow>
        (case feed k' (r @ b) of (gs, k'', r') \<Rightarrow> (fs @ gs, k'', r')))"
proof (induction k a rule: feed.induct)
  case (1 k a)
  obtain res k1 r1 where d: "decode k a = (res, k1, r1)" by (cases "decode k a") auto
  show ?case
  proof (cases res)
    case None
    then have "feed k a = ([], k1, r1)" using d by (simp add: feed.simps [of k a])
    moreover have "feed k (a @ b) = feed k1 (r1 @ b)"
      using decode_append [OF d, of b] None by (simp add: feed.simps [of k "a @ b"] feed.simps [of k1 "r1 @ b"])
    ultimately show ?thesis by (simp split: prod.split)
  next
    case (Some f)
    have ih: "feed k1 (r1 @ b) = (case feed k1 r1 of (fs, k', r) \<Rightarrow>
        (case feed k' (r @ b) of (gs, k'', r') \<Rightarrow> (fs @ gs, k'', r')))"
      by (rule 1) (use d Some in auto)
    have "feed k a = (case feed k1 r1 of (fs, k, src) \<Rightarrow> (f # fs, k, src))"
      using d Some by (simp add: feed.simps [of k a])
    moreover have "feed k (a @ b) = (case feed k1 (r1 @ b) of (fs, k, src) \<Rightarrow> (f # fs, k, src))"
      using decode_append [OF d, of b] Some by (simp add: feed.simps [of k "a @ b"])
    ultimately show ?thesis by (simp add: ih split: prod.split)
  qed
qed

section \<open>Printed commands decode to themselves\<close>

lemma length_show_nat: "n < 10 ^ Suc k \<Longrightarrow> length (show_nat n) \<le> Suc k"
proof (induction k arbitrary: n)
  case 0
  then show ?case by (simp add: show_nat.simps [of n])
next
  case (Suc k)
  show ?case
  proof (cases "n < 10")
    case False
    have "n div 10 < 10 ^ Suc k" using Suc.prems by (simp add: less_mult_imp_div_less mult.commute)
    from Suc.IH [OF this] False show ?thesis by (simp add: show_nat.simps [of n])
  qed (simp add: show_nat.simps [of n])
qed

lemma length_show_u32: "length (show_u32 w) \<le> 10"
proof -
  have "unat w < 10 ^ Suc 9" using unat_less_exp [of w] by simp
  from length_show_nat [OF this] show ?thesis by (simp add: show_u32_def)
qed

lemma length_show_u64: "length (show_u64 w) \<le> 20"
proof -
  have "unat w < 10 ^ Suc 19" using unat_less_exp [of w] by simp
  from length_show_nat [OF this] show ?thesis by (simp add: show_u64_def)
qed

lemma render_fits_line:
  assumes "wf_command cmd" "\<not> is_CPut cmd"
  shows "length (render cmd @ [CR, LF]) \<le> LINE_BUF_SIZE"
proof (cases cmd)
  case (CRelease i pri delay)
  then show ?thesis
    using length_show_u64 [of i] length_show_u32 [of pri] length_show_u32 [of delay] by (simp add: LINE_BUF_SIZE_def)
next
  case (CBury i pri)
  then show ?thesis using length_show_u64 [of i] length_show_u32 [of pri] by (simp add: LINE_BUF_SIZE_def)
next
  case (CPauseTube n delay)
  with assms length_show_u32 [of delay] show ?thesis
    by (simp add: LINE_BUF_SIZE_def valid_tube_name_iff MAX_TUBE_NAME_LEN_def)
qed (use assms in \<open>auto simp: LINE_BUF_SIZE_def valid_tube_name_iff MAX_TUBE_NAME_LEN_def
      intro: order.trans [OF length_show_u64] order.trans [OF length_show_u32]\<close>)

lemma show_no_cr: "CR \<notin> set (show_nat n)"
  using show_nat_digits(1) [of n] by (auto simp: list_all_iff is_ascii_digit_def less_eq_char_def)

lemma name_no_cr: "valid_tube_name n \<Longrightarrow> CR \<notin> set n"
  using is_name_char_range by (fastforce simp: valid_tube_name_iff list_all_iff less_eq_char_def)

lemma render_no_cr: "wf_command cmd \<Longrightarrow> CR \<notin> set (render cmd)"
  by (cases cmd) (simp_all add: show_u32_def show_u64_def show_no_cr name_no_cr)

lemma position_first: "x \<notin> set xs \<Longrightarrow> position (\<lambda>b. b = x) (xs @ x # ys) = Some (length xs)"
  by (induction xs) auto

lemma scan_line:
  assumes "CR \<notin> set line" "length line + 2 \<le> LINE_BUF_SIZE"
  shows "scan_line_end (line @ CR # LF # rest) = LineFound (length line)"
proof -
  let ?b = "line @ CR # LF # rest"
  define m where "m = min (length ?b) LINE_BUF_SIZE - 2 - length line"
  have m: "min (length ?b) LINE_BUF_SIZE - 1 = length line + Suc m"
    using assms(2) by (simp add: m_def)
  have "take (min (length ?b) LINE_BUF_SIZE - 1) ?b = line @ CR # take m (LF # rest)" unfolding m by simp
  then have "position (\<lambda>b. b = CR) (take (min (length ?b) LINE_BUF_SIZE - 1) ?b) = Some (length line)"
    using position_first [OF assms(1)] by simp
  moreover have "2 \<le> min (length ?b) LINE_BUF_SIZE" using assms(2) by simp
  moreover have "?b ! (length line + 1) = LF" by (simp add: nth_append)
  ultimately show ?thesis unfolding scan_found_iff by blast
qed

lemma render_not_auth: "auth_token k (render cmd) = None"
  by (cases cmd) (simp_all add: auth_token_def strip_prefix_def)

lemma decode_found:
  assumes "k_state k = CodecLine False" "CR \<notin> set line" "length line + 2 \<le> LINE_BUF_SIZE"
  shows "decode_round k (line @ CR # LF # rest) = found_line False line k rest"
  using assms scan_line [OF assms(2,3), of rest] by (simp add: decode_round_def)

lemma feed_command:
  assumes "k_state k = CodecLine False" "wf_command cmd" "\<not> is_CPut cmd" "cmd \<noteq> CPauseTubeBadName"
  shows "feed k (render cmd @ [CR, LF] @ rest) = (case feed k rest of (fs, k', r) \<Rightarrow> (FCommand cmd # fs, k', r))"
proof -
  have len: "length (render cmd) + 2 \<le> LINE_BUF_SIZE" using render_fits_line [OF assms(2,3)] by simp
  have "k\<lparr>k_state := CodecLine False\<rparr> = k" using assms(1) by simp
  then have "decode k (render cmd @ [CR, LF] @ rest) = (Some (FCommand cmd), k, rest)"
    using decode_found [OF assms(1) render_no_cr [OF assms(2)] len, of rest] parse_render [OF assms(2-4)]
    by (simp add: decode.simps found_line_def render_not_auth Let_def)
  then show ?thesis by (subst feed.simps) simp
qed

lemma feed_put:
  assumes "k_state k = CodecLine False" "length body \<le> unat (k_max_job_size k)"
  shows "feed k (render (CPut pri delay ttr body) @ [CR, LF] @ body @ [CR, LF] @ rest) =
    (case feed k rest of (fs, k', r) \<Rightarrow>
      ((if k_emit_put_started k then [FPutStarted False] else []) @ FCommand (CPut pri delay ttr body) # fs, k', r))"
proof -
  let ?line = "render (CPut pri delay ttr body)" and ?n = "of_nat (length body) :: u32"
  let ?k1 = "k\<lparr>k_state := CodecPutBody pri delay ttr ?n\<rparr>"
  have small: "length body < 2 ^ 32" using assms(2) unat_less_exp [of "k_max_job_size k"] by simp
  then have n: "unat ?n = length body" by (simp add: unsigned_of_nat take_bit_nat_eq_self)
  have ok: "\<not> k_max_job_size k < ?n" using assms(2) n by (simp add: word_less_nat_alt)
  have "length body < 10 ^ Suc 9" using small by simp
  from length_show_nat [OF this] have len: "length ?line + 2 \<le> LINE_BUF_SIZE"
    using length_show_u32 [of pri] length_show_u32 [of delay] length_show_u32 [of ttr]
    by (simp add: LINE_BUF_SIZE_def)
  have cr: "CR \<notin> set ?line" by (rule render_no_cr) simp
  have "k\<lparr>k_state := CodecLine False\<rparr> = k" using assms(1) by simp
  then have body: "decode ?k1 (body @ [CR, LF] @ rest) = (Some (FCommand (CPut pri delay ttr body)), k, rest)"
    using n by (subst decode.simps) (simp add: decode_round_def Let_def nth_append)
  have head: "decode_round k (?line @ [CR, LF] @ body @ [CR, LF] @ rest) =
      (if k_emit_put_started k then Return (Some (FPutStarted False)) ?k1 (body @ [CR, LF] @ rest)
       else Again ?k1 (body @ [CR, LF] @ rest))"
    using decode_found [OF assms(1) cr len, of "body @ [CR, LF] @ rest"] parse_render_put [OF small, of pri delay ttr] ok
    by (simp add: found_line_def render_not_auth put_line_def Let_def del: render.simps)
  show ?thesis
  proof (cases "k_emit_put_started k")
    case True
    with head have "decode k (?line @ [CR, LF] @ body @ [CR, LF] @ rest) =
        (Some (FPutStarted False), ?k1, body @ [CR, LF] @ rest)" by (simp add: decode.simps del: render.simps)
    moreover have "feed ?k1 (body @ [CR, LF] @ rest) =
        (case feed k rest of (fs, k', r) \<Rightarrow> (FCommand (CPut pri delay ttr body) # fs, k', r))"
      using body by (subst feed.simps) simp
    ultimately show ?thesis using True by (subst feed.simps) (simp del: render.simps split: prod.split)
  next
    case False
    with head body have "decode k (?line @ [CR, LF] @ body @ [CR, LF] @ rest) =
        (Some (FCommand (CPut pri delay ttr body)), k, rest)" by (simp add: decode.simps [of k] del: render.simps)
    with False show ?thesis by (subst feed.simps) (simp del: render.simps)
  qed
qed

section \<open>Bodies within the limit\<close>

definition codec_ok :: "server_codec \<Rightarrow> bool" where
  "codec_ok k \<longleftrightarrow> (case k_state k of CodecPutBody _ _ _ n \<Rightarrow> n \<le> k_max_job_size k | _ \<Rightarrow> True)"

definition frame_ok :: "u32 \<Rightarrow> frame \<Rightarrow> bool" where
  "frame_ok limit f \<longleftrightarrow>
     (case f of
        FCommand (CPut _ _ _ body) \<Rightarrow> length body \<le> unat limit
      | FCommand cmd \<Rightarrow> wf_command cmd
      | FError r \<Rightarrow> r = RBadFormat \<or> r = RUnknownCommand
      | _ \<Rightarrow> True)"

fun round_ok :: "u32 \<Rightarrow> round \<Rightarrow> bool" where
  "round_ok limit (Return f k src) \<longleftrightarrow> codec_ok k \<and> k_max_job_size k = limit \<and> pred_option (frame_ok limit) f"
| "round_ok limit (Again k src) \<longleftrightarrow> codec_ok k \<and> k_max_job_size k = limit"

lemma frame_ok_command: "wf_command cmd \<Longrightarrow> \<not> is_CPut cmd \<Longrightarrow> frame_ok limit (FCommand cmd)"
  by (cases cmd) (simp_all add: frame_ok_def)

lemma parse_error_kind: "parse_line_raw line = Inl r \<Longrightarrow> r = RBadFormat \<or> r = RUnknownCommand"
  unfolding parse_line_error by (auto split: if_splits option.splits)

lemma found_line_ok: "round_ok (k_max_job_size k) (found_line w line k src)"
proof (cases "parse_line_raw line")
  case (Inl r)
  with parse_error_kind [OF Inl] show ?thesis
    by (simp add: found_line_def Let_def codec_ok_def frame_ok_def split: option.split)
next
  case (Inr p)
  show ?thesis
  proof (cases p)
    case (PCommand cmd)
    with Inr parse_line_wf [of line cmd] frame_ok_command show ?thesis
      by (simp add: found_line_def Let_def codec_ok_def frame_ok_def split: option.split)
  next
    case (PPut h)
    with Inr show ?thesis
      by (simp add: found_line_def put_line_def Let_def codec_ok_def frame_ok_def not_less split: option.split)
  qed
qed

lemma decode_round_ok: "codec_ok k \<Longrightarrow> round_ok (k_max_job_size k) (decode_round k src)"
  using found_line_ok
  by (auto simp: decode_round_def codec_ok_def frame_ok_def Let_def word_le_nat_alt
      split: codec_state.split line_scan.split)

lemma decode_ok:
  "codec_ok k \<Longrightarrow> decode k src = (f, k', r) \<Longrightarrow>
   codec_ok k' \<and> k_max_job_size k' = k_max_job_size k \<and> pred_option (frame_ok (k_max_job_size k)) f"
proof (induction k src rule: decode.induct)
  case (1 k src)
  note ok = decode_round_ok [OF 1(2), of src]
  show ?case
  proof (cases "decode_round k src")
    case (Return g k1 r1)
    with 1(3) ok show ?thesis by (simp add: decode.simps [of k src])
  next
    case (Again k1 r1)
    with 1(3) have "decode k1 r1 = (f, k', r)" by (simp add: decode.simps [of k src])
    from 1(1) [OF Again _ this] ok Again show ?thesis by simp
  qed
qed

lemma feed_ok:
  "codec_ok k \<Longrightarrow> feed k src = (fs, k', r) \<Longrightarrow>
   codec_ok k' \<and> k_max_job_size k' = k_max_job_size k \<and> list_all (frame_ok (k_max_job_size k)) fs"
proof (induction k src arbitrary: fs k' r rule: feed.induct)
  case (1 k src)
  obtain res k1 r1 where d: "decode k src = (res, k1, r1)" by (cases "decode k src") auto
  note ok = decode_ok [OF 1(2) d]
  show ?case
  proof (cases res)
    case None
    with 1(3) d ok show ?thesis by (simp add: feed.simps [of k src])
  next
    case (Some f)
    obtain gs k2 r2 where f: "feed k1 r1 = (gs, k2, r2)" by (cases "feed k1 r1") auto
    have "codec_ok k2 \<and> k_max_job_size k2 = k_max_job_size k1 \<and> list_all (frame_ok (k_max_job_size k1)) gs"
      by (rule 1(1) [OF d [symmetric] Some refl _ f]) (use ok in auto)
    moreover have "fs = f # gs" "k' = k2" using 1(3) d Some f by (simp_all add: feed.simps [of k src])
    ultimately show ?thesis using ok Some by simp
  qed
qed

section \<open>What a connection receives\<close>

text \<open>The bytes of a connection arrive in pieces: after each the codec yields the frames it completes
and keeps the rest.\<close>

fun feed_chunks :: "server_codec \<Rightarrow> string \<Rightarrow> string list \<Rightarrow> frame list \<times> server_codec \<times> string" where
  "feed_chunks k r [] = ([], k, r)"
| "feed_chunks k r (c # cs) =
     (case feed k (r @ c) of (fs, k, r) \<Rightarrow> (case feed_chunks k r cs of (gs, k, r) \<Rightarrow> (fs @ gs, k, r)))"

text \<open>A request on the wire: the command line and, for \<open>put\<close>, the body.\<close>

definition wire :: "command \<Rightarrow> string" where
  "wire cmd = render cmd @ [CR, LF] @ (case cmd of CPut _ _ _ body \<Rightarrow> body @ [CR, LF] | _ \<Rightarrow> [])"

definition sendable :: "u32 \<Rightarrow> command \<Rightarrow> bool" where
  "sendable limit cmd \<longleftrightarrow>
     wf_command cmd \<and> cmd \<noteq> CPauseTubeBadName \<and>
     (case cmd of CPut _ _ _ body \<Rightarrow> length body \<le> unat limit | _ \<Rightarrow> True)"

definition frames_of :: "bool \<Rightarrow> command \<Rightarrow> frame list" where
  "frames_of started cmd = (if started \<and> is_CPut cmd then [FPutStarted False] else []) @ [FCommand cmd]"

lemma feed_rest: "feed k src = (fs, k', r) \<Longrightarrow> feed k' r = ([], k', r)"
proof -
  assume a: "feed k src = (fs, k', r)"
  obtain gs k2 r2 where b: "feed k' r = (gs, k2, r2)" by (cases "feed k' r") auto
  show ?thesis using feed_append [of k src "[]"] a b by simp
qed

lemma feed_wire:
  assumes "k_state k = CodecLine False" "sendable (k_max_job_size k) cmd"
  shows "feed k (wire cmd @ rest) =
    (case feed k rest of (fs, k', r) \<Rightarrow> (frames_of (k_emit_put_started k) cmd @ fs, k', r))"
proof (cases "is_CPut cmd")
  case True
  then obtain pri delay ttr body where c: "cmd = CPut pri delay ttr body" by (cases cmd) auto
  with assms(2) have "length body \<le> unat (k_max_job_size k)" by (simp add: sendable_def)
  from feed_put [OF assms(1) this, of pri delay ttr rest] c show ?thesis
    by (simp add: wire_def frames_of_def del: render.simps split: prod.split)
next
  case False
  then have "wire cmd @ rest = render cmd @ [CR, LF] @ rest" by (cases cmd) (simp_all add: wire_def)
  with feed_command [OF assms(1), of cmd rest] assms(2) False show ?thesis
    by (simp add: sendable_def frames_of_def split: prod.split)
qed

lemma feed_empty: "feed k [] = ([], k, [])"
proof -
  have "scan_line_end [] = LineIncomplete" by (simp add: scan_line_end_def LINE_BUF_SIZE_def)
  then have "decode_round k [] = Return None k []" by (cases "k_state k") (simp_all add: decode_round_def)
  then have "decode k [] = (None, k, [])" by (simp add: decode.simps [of k "[]"])
  then show ?thesis by (simp add: feed.simps [of k "[]"])
qed

lemma feed_chunks_snoc:
  "feed_chunks k r (cs @ [c]) =
     (case feed_chunks k r cs of (fs, k', r') \<Rightarrow> (case feed k' (r' @ c) of (gs, k2, r2) \<Rightarrow> (fs @ gs, k2, r2)))"
proof (induction cs arbitrary: k r)
  case (Cons d cs)
  obtain fs k' r' where a: "feed k (r @ d) = (fs, k', r')" by (cases "feed k (r @ d)") auto
  show ?case using Cons [of k' r'] a by (simp split: prod.split)
qed (simp split: prod.split)

lemma feed_chunks_concat: "feed_chunks k [] cs = feed k (concat cs)"
proof (induction cs rule: rev_induct)
  case Nil
  then show ?case by (simp add: feed_empty)
next
  case (snoc c cs)
  then show ?case using feed_append [of k "concat cs" c] by (simp add: feed_chunks_snoc)
qed

lemma feed_requests:
  assumes "k_state k = CodecLine False"
  shows "list_all (sendable (k_max_job_size k)) cmds \<Longrightarrow>
    feed k (concat (map wire cmds)) = (concat (map (frames_of (k_emit_put_started k)) cmds), k, [])"
proof (induction cmds)
  case Nil
  then show ?case by (simp add: feed_empty)
next
  case (Cons c cmds)
  then show ?case using feed_wire [OF assms, of c "concat (map wire cmds)"] by simp
qed

text \<open>C9: However the bytes of a connection are cut into reads, the codec yields the same frames, the same
final state and the same unread rest as when all of them arrive at once.\<close>

theorem chunking_is_irrelevant: "concat cs = concat ds \<Longrightarrow> feed_chunks k [] cs = feed_chunks k [] ds"
  by (simp add: feed_chunks_concat)

theorem chunking_is_irrelevant_witness:
  "concat [''rese'', ''rve'' @ [CR], [LF]] = concat [''reserve'' @ [CR, LF]] \<and>
   feed_chunks (ServerCodec_new 8) [] [''rese'', ''rve'' @ [CR], [LF]] =
     feed_chunks (ServerCodec_new 8) [] [''reserve'' @ [CR, LF]]"
  using chunking_is_irrelevant [of "[''rese'', ''rve'' @ [CR], [LF]]" "[''reserve'' @ [CR, LF]]" "ServerCodec_new 8"]
  by simp

text \<open>C8: A pipelined sequence of well-formed requests, cut into reads in any way, decodes to exactly those
commands in order (each \<open>put\<close> announced first when the codec was built to announce them), leaves
nothing unread and leaves the codec at the start of a line.\<close>

theorem requests_roundtrip:
  assumes "k_state k = CodecLine False" "list_all (sendable (k_max_job_size k)) cmds"
    and "concat cs = concat (map wire cmds)"
  shows "feed_chunks k [] cs = (concat (map (frames_of (k_emit_put_started k)) cmds), k, [])"
  unfolding feed_chunks_concat assms(3) by (rule feed_requests [OF assms(1,2)])

theorem requests_roundtrip_witness:
  "feed_chunks (ServerCodec_new 8) [] [''put 1 2 3 2'' @ [CR], LF # ''h'', ''i'' @ [CR, LF] @ ''use a'', [CR, LF]] =
     ([FCommand (CPut 1 2 3 ''hi''), FCommand (CUse ''a'')], ServerCodec_new 8, [])"
proof -
  let ?k = "ServerCodec_new 8" and ?cmds = "[CPut 1 2 3 ''hi'', CUse ''a'']"
    and ?cs = "[''put 1 2 3 2'' @ [CR], LF # ''h'', ''i'' @ [CR, LF] @ ''use a'', [CR, LF]]"
  have "valid_tube_name ''a''" by (simp add: valid_tube_name_def validate_tube_name_def is_name_char_def
        is_ascii_alphanumeric_def less_eq_char_def MAX_TUBE_NAME_LEN_def)
  then have "list_all (sendable (k_max_job_size ?k)) ?cmds" by (simp add: ServerCodec_new_def sendable_def)
  moreover have "concat ?cs = concat (map wire ?cmds)" by (simp add: wire_def show_u32_def show_nat.simps digit_char_def char_of_def bit_0)
  moreover have "k_state ?k = CodecLine False" "\<not> k_emit_put_started ?k" by (simp_all add: ServerCodec_new_def)
  ultimately show ?thesis using requests_roundtrip [of ?k ?cmds ?cs] by (simp add: frames_of_def del: feed_chunks.simps)
qed

text \<open>C10: Whatever arrives, the codec only yields frames the server is prepared for: commands with valid
arguments, bodies within \<open>max_job_size\<close>, and the two errors of a line; the limit itself never changes.\<close>

theorem received_frames_ok:
  assumes "k_state k = CodecLine False"
  shows "case feed_chunks k [] cs of (fs, k', r) \<Rightarrow>
     list_all (frame_ok (k_max_job_size k)) fs \<and> k_max_job_size k' = k_max_job_size k \<and> codec_ok k'"
proof -
  obtain fs k' r where f: "feed k (concat cs) = (fs, k', r)" by (cases "feed k (concat cs)") auto
  have "codec_ok k" using assms by (simp add: codec_ok_def)
  from feed_ok [OF this f] show ?thesis by (simp add: feed_chunks_concat f)
qed

theorem received_frames_ok_witness:
  "case feed_chunks (ServerCodec_new 8) [] [''stats'' @ [CR, LF] @ ''put 1 2 3 2'' @ [CR], LF # ''hi'' @ [CR, LF]] of (fs, k', r) \<Rightarrow>
     fs = [FCommand CStats, FCommand (CPut 1 2 3 ''hi'')] \<and> list_all (frame_ok 8) fs \<and> k_max_job_size k' = 8 \<and> codec_ok k'"
proof -
  let ?k = "ServerCodec_new 8" and ?cmds = "[CStats, CPut 1 2 3 ''hi'']"
    and ?cs = "[''stats'' @ [CR, LF] @ ''put 1 2 3 2'' @ [CR], LF # ''hi'' @ [CR, LF]]"
  have k: "k_state ?k = CodecLine False" "k_max_job_size ?k = 8" "\<not> k_emit_put_started ?k" by (simp_all add: ServerCodec_new_def)
  have "list_all (sendable (k_max_job_size ?k)) ?cmds" by (simp add: k(2) sendable_def)
  from feed_requests [OF k(1) this] have "feed ?k (concat (map wire ?cmds)) = ([FCommand CStats, FCommand (CPut 1 2 3 ''hi'')], ?k, [])"
    by (simp add: frames_of_def k(3))
  moreover have "concat ?cs = concat (map wire ?cmds)" by (simp add: wire_def show_u32_def show_nat.simps digit_char_def char_of_def bit_0)
  ultimately have "feed_chunks ?k [] ?cs = ([FCommand CStats, FCommand (CPut 1 2 3 ''hi'')], ?k, [])"
    unfolding feed_chunks_concat by (simp only:)
  with received_frames_ok [OF k(1), of ?cs] show ?thesis unfolding k(2) by (simp only: prod.case)
qed

end
