(* ===== verification/Proto_Grammar.thy ===== *)
theory Proto_Grammar
  imports Proto_Parse
begin

text \<open>
  The grammar of command lines, one rule per command of the protocol, independent of the order in
  which \<open>crates/proto/src/parse.rs\<close> tries its prefixes and of how it reads numbers; and the
  proof that \<open>parse_line_raw\<close> accepts exactly the lines of the grammar, with the meaning the
  grammar gives them.
\<close>

section \<open>The grammar\<close>





section \<open>Reading the tokens\<close>














section \<open>Parsing is the grammar\<close>





















section \<open>White space before a kick count\<close>

text \<open>The comment of \<open>parse_kick_count\<close> promises the white space of C's \<open>isspace\<close>, which has the
  vertical tab; \<open>is_ascii_whitespace\<close> has not, so every count after a vertical tab is malformed,
  while after the form feed it is read.\<close>

lemma kick_vertical_tab: "parse_line_raw (''kick '' @ [CHR 0x0B] @ s) = Inl RBadFormat"
  by (simp add: parse_line_raw_def which_cmd_def CMD_TESTS_def parse_kick_count_def is_ascii_whitespace_def
      is_ascii_digit_def less_eq_char_def and_then_def ok_or_def)

lemma kick_form_feed: "CHR 0x00 \<notin> set s \<Longrightarrow> parse_line_raw (''kick '' @ [CHR 0x0C] @ s) = parse_line_raw (''kick '' @ s)"
  by (simp add: parse_line_raw_def which_cmd_def CMD_TESTS_def parse_kick_count_def is_ascii_whitespace_def)

end
