(* ===== verification/Store_Format.thy ===== *)
theory Store_Format
  imports Engine_Model Proto_Parse
begin

text \<open>
  The record format of the write-ahead log (\<open>crates/store/src/format.rs\<close>): little-endian
  integers, the 57-byte job record, the frame with its length and CRC, and \<open>parse_at\<close>.

  Bytes are characters. The CRC comes from a library outside the sources; its two functions are
  the fields of a record \<open>h\<close> that every definition using them takes as an argument. Nothing is
  assumed of them: the round trip holds for any checksum.
\<close>

section \<open>Little-endian integers\<close>

fun le_bytes :: "nat \<Rightarrow> nat \<Rightarrow> string" where
  "le_bytes 0 n = []"
| "le_bytes (Suc k) n = char_of (n mod 256) # le_bytes k (n div 256)"

fun from_le :: "string \<Rightarrow> nat" where
  "from_le [] = 0"
| "from_le (c # cs) = of_char c + 256 * from_le cs"

definition u32_to_le :: "u32 \<Rightarrow> string" where
  "u32_to_le w = le_bytes 4 (unat w)"

definition u64_to_le :: "u64 \<Rightarrow> string" where
  "u64_to_le w = le_bytes 8 (unat w)"

section \<open>Constants and lengths\<close>

definition MAGIC :: string where
  "MAGIC = ''BSTKWAL'' @ [CHR 0x00]"

definition VERSION :: u32 where
  "VERSION = 1"

definition SEG_HEADER_LEN :: nat where
  "SEG_HEADER_LEN = 16"

definition REC_HEADER_LEN :: nat where
  "REC_HEADER_LEN = 8"

definition JOBREC_LEN :: nat where
  "JOBREC_LEN = 57"

definition MAX_RECORD_ID :: job_id where
  "MAX_RECORD_ID = push_bit 62 1 - 1"

definition KIND_PUT :: char where
  "KIND_PUT = CHR 0x01"

definition KIND_UPDATE :: char where
  "KIND_UPDATE = CHR 0x02"

definition KIND_DELETE :: char where
  "KIND_DELETE = CHR 0x03"

definition DELETE_REC_LEN :: nat where
  "DELETE_REC_LEN = REC_HEADER_LEN + 1 + 8"

definition UPDATE_REC_LEN :: nat where
  "UPDATE_REC_LEN = REC_HEADER_LEN + 1 + JOBREC_LEN"

definition JOBREC_OFFSET :: nat where
  "JOBREC_OFFSET = REC_HEADER_LEN + 1"

definition put_rec_len :: "nat \<Rightarrow> nat \<Rightarrow> nat" where
  "put_rec_len tube_len body_len = REC_HEADER_LEN + 1 + JOBREC_LEN + 1 + tube_len + body_len"

definition segment_header :: string where
  "segment_header = MAGIC @ u32_to_le VERSION @ replicate 4 (CHR 0x00)"

section \<open>Job records\<close>

fun state_byte :: "record_state \<Rightarrow> char" where
  "state_byte RecReady = CHR 0x00"
| "state_byte RecDelayed = CHR 0x01"
| "state_byte RecBuried = CHR 0x02"

definition encode_jobrec :: "job_record \<Rightarrow> string" where
  "encode_jobrec r =
     u64_to_le (r_id r) @ u32_to_le (r_pri r) @ u32_to_le (r_delay r) @ u32_to_le (r_ttr r) @
     u64_to_le (r_created_at r) @ u64_to_le (r_deadline_at r) @ [state_byte (r_state r)] @
     u32_to_le (r_reserve_ct r) @ u32_to_le (r_timeout_ct r) @ u32_to_le (r_release_ct r) @
     u32_to_le (r_bury_ct r) @ u32_to_le (r_kick_ct r)"

text \<open>The cursor \<open>Cur\<close>: each getter returns what it read and the rest, and fails on underrun.\<close>

definition cur_take :: "nat \<Rightarrow> string \<Rightarrow> (string \<times> string) option" where
  "cur_take n s = (if length s < n then None else Some (take n s, drop n s))"

definition cur_u8 :: "string \<Rightarrow> (char \<times> string) option" where
  "cur_u8 s = map_option (\<lambda>(b, rest). (hd b, rest)) (cur_take 1 s)"

definition cur_u32 :: "string \<Rightarrow> (u32 \<times> string) option" where
  "cur_u32 s = map_option (\<lambda>(b, rest). (of_nat (from_le b), rest)) (cur_take 4 s)"

definition cur_u64 :: "string \<Rightarrow> (u64 \<times> string) option" where
  "cur_u64 s = map_option (\<lambda>(b, rest). (of_nat (from_le b), rest)) (cur_take 8 s)"

definition record_state_of :: "char \<Rightarrow> record_state option" where
  "record_state_of b =
     (if b = CHR 0x00 then Some RecReady else if b = CHR 0x01 then Some RecDelayed
      else if b = CHR 0x02 then Some RecBuried else None)"

definition decode_jobrec :: "string \<Rightarrow> (job_record \<times> string) option" where
  "decode_jobrec c = do {
     (jid, c) \<leftarrow> cur_u64 c;
     (pri, c) \<leftarrow> cur_u32 c;
     (delay, c) \<leftarrow> cur_u32 c;
     (ttr, c) \<leftarrow> cur_u32 c;
     (created_at, c) \<leftarrow> cur_u64 c;
     (deadline_at, c) \<leftarrow> cur_u64 c;
     (b, c) \<leftarrow> cur_u8 c;
     state \<leftarrow> record_state_of b;
     (reserve_ct, c) \<leftarrow> cur_u32 c;
     (timeout_ct, c) \<leftarrow> cur_u32 c;
     (release_ct, c) \<leftarrow> cur_u32 c;
     (bury_ct, c) \<leftarrow> cur_u32 c;
     (kick_ct, c) \<leftarrow> cur_u32 c;
     if jid = 0 \<or> jid > MAX_RECORD_ID then None
     else Some (\<lparr>r_id = jid, r_pri = pri, r_delay = delay, r_ttr = ttr, r_created_at = created_at,
                 r_deadline_at = deadline_at, r_state = state, r_reserve_ct = reserve_ct,
                 r_timeout_ct = timeout_ct, r_release_ct = release_ct, r_bury_ct = bury_ct,
                 r_kick_ct = kick_ct\<rparr>, c)
   }"

section \<open>Frames\<close>

record crc_lib =
  crc32c :: "string \<Rightarrow> u32"
  crc32c_append :: "u32 \<Rightarrow> string \<Rightarrow> u32"

definition record_crc :: "crc_lib \<Rightarrow> string \<Rightarrow> string \<Rightarrow> u32" where
  "record_crc h len_bytes payload = crc32c_append h (crc32c h len_bytes) payload"

datatype encode_error = RecordTooLarge | TubeNameTooLong

text \<open>\<open>frame\<close> appends the header and the payload to the buffer, or leaves it as it was.\<close>

definition frame :: "crc_lib \<Rightarrow> string \<Rightarrow> string \<Rightarrow> encode_error + string" where
  "frame h out payload =
     (if length payload < 2 ^ 32
      then let len_bytes = u32_to_le (of_nat (length payload))
           in Inr (out @ len_bytes @ u32_to_le (record_crc h len_bytes payload) @ payload)
      else Inl RecordTooLarge)"

definition encode_put :: "crc_lib \<Rightarrow> string \<Rightarrow> job_record \<Rightarrow> tube_name \<Rightarrow> string \<Rightarrow> encode_error + string" where
  "encode_put h out record tube body =
     (if length tube < 256
      then frame h out ([KIND_PUT] @ encode_jobrec record @ [char_of (length tube)] @ tube @ body)
      else Inl TubeNameTooLong)"

definition encode_update :: "crc_lib \<Rightarrow> string \<Rightarrow> job_record \<Rightarrow> encode_error + string" where
  "encode_update h out record = frame h out ([KIND_UPDATE] @ encode_jobrec record)"

definition encode_delete :: "crc_lib \<Rightarrow> string \<Rightarrow> job_id \<Rightarrow> encode_error + string" where
  "encode_delete h out jid = frame h out ([KIND_DELETE] @ u64_to_le jid)"

text \<open>The slice assignments of \<open>restamp_put\<close> panic on a record that is too short.\<close>

definition restamp_put :: "crc_lib \<Rightarrow> string \<Rightarrow> job_record \<Rightarrow> string option" where
  "restamp_put h rec record =
     (if length rec < JOBREC_OFFSET + JOBREC_LEN then None
      else let rec = take JOBREC_OFFSET rec @ encode_jobrec record @ drop (JOBREC_OFFSET + JOBREC_LEN) rec;
               hdr = take REC_HEADER_LEN rec; payload = drop REC_HEADER_LEN rec
           in Some (take 4 hdr @ u32_to_le (record_crc h (take 4 hdr) payload) @ payload))"

section \<open>Parsing\<close>

datatype log_rec =
    LPut job_record tube_name string
  | LUpdate job_record
  | LDelete job_id

fun rec_id :: "log_rec \<Rightarrow> job_id" where
  "rec_id (LPut record _ _) = r_id record"
| "rec_id (LUpdate record) = r_id record"
| "rec_id (LDelete jid) = jid"

datatype parsed =
    PEnd
  | PRec log_rec nat
  | PBad string
  | PMalformed string

definition decode_payload :: "string \<Rightarrow> string + log_rec" where
  "decode_payload payload =
     (case cur_u8 payload of
        None \<Rightarrow> Inl ''empty payload''
      | Some (kind, c) \<Rightarrow>
          if kind = KIND_PUT then
            (case decode_jobrec c of
               None \<Rightarrow> Inl ''bad job record''
             | Some (record, c) \<Rightarrow>
                 (case cur_u8 c of
                    None \<Rightarrow> Inl ''missing tube length''
                  | Some (tlen, c) \<Rightarrow>
                      (case cur_take (of_char tlen) c of
                         None \<Rightarrow> Inl ''truncated tube name''
                       | Some (tube, c) \<Rightarrow>
                           (case from_utf8 tube \<bind> TubeName_new of
                              None \<Rightarrow> Inl ''invalid tube name''
                            | Some tube \<Rightarrow> Inr (LPut record tube c)))))
          else if kind = KIND_UPDATE then
            (case decode_jobrec c of
               None \<Rightarrow> Inl ''bad job record''
             | Some (record, c) \<Rightarrow>
                 if c \<noteq> [] then Inl ''trailing bytes in update record'' else Inr (LUpdate record))
          else if kind = KIND_DELETE then
            (case cur_u64 c of
               None \<Rightarrow> Inl ''truncated delete record''
             | Some (jid, c) \<Rightarrow>
                 if jid = 0 \<or> jid > MAX_RECORD_ID \<or> c \<noteq> [] then Inl ''bad delete record''
                 else Inr (LDelete jid))
          else Inl ''unknown record kind'')"

definition parse_at :: "crc_lib \<Rightarrow> string \<Rightarrow> nat \<Rightarrow> parsed" where
  "parse_at h buf pos =
     (let rest = drop pos buf in
      if length rest < REC_HEADER_LEN
      then if list_all (\<lambda>b. b = CHR 0x00) rest then PEnd else PBad ''truncated record header''
      else
        let len_bytes = take 4 rest; len = from_le len_bytes in
        if len = 0 then PEnd
        else
          let crc = of_nat (from_le (take 4 (drop 4 rest))); total = REC_HEADER_LEN + len in
          if length rest < total then PBad ''record extends past end of file''
          else
            let payload = drop REC_HEADER_LEN (take total rest) in
            if record_crc h len_bytes payload \<noteq> crc then PBad ''CRC mismatch''
            else (case decode_payload payload of
                    Inr rec \<Rightarrow> PRec rec total
                  | Inl why \<Rightarrow> PMalformed why))"

section \<open>Integers round trip\<close>

lemma length_le_bytes [simp]: "length (le_bytes k n) = k"
  by (induction k arbitrary: n) simp_all

lemma of_char_mod [simp]: "of_char (char_of (n mod 256) :: char) = (n mod 256 :: nat)"
  by simp

lemma from_le_bytes: "n < 256 ^ k \<Longrightarrow> from_le (le_bytes k n) = n"
proof (induction k arbitrary: n)
  case (Suc k)
  then have "n div 256 < 256 ^ k" by (simp add: less_mult_imp_div_less mult.commute)
  with Suc.IH [of "n div 256"] show ?case by simp
qed simp

lemma le_bytes_from: "le_bytes (length s) (from_le s) = s"
  by (induction s) simp_all

lemma from_le_less: "from_le s < 256 ^ length s"
proof (induction s)
  case (Cons c s)
  have "of_char c < (256 :: nat)" by simp
  with Cons show ?case unfolding from_le.simps list.size(4) add_Suc_right add_0_right power_Suc by linarith
qed simp

lemma length_u32_to_le [simp]: "length (u32_to_le w) = 4"
  by (simp add: u32_to_le_def)

lemma length_u64_to_le [simp]: "length (u64_to_le w) = 8"
  by (simp add: u64_to_le_def)

lemma from_u32_le [simp]: "from_le (u32_to_le w) = unat w"
  using unsigned_less [of w, where ?'a = nat] by (simp add: u32_to_le_def from_le_bytes)

lemma from_u64_le [simp]: "from_le (u64_to_le w) = unat w"
  using unsigned_less [of w, where ?'a = nat] by (simp add: u64_to_le_def from_le_bytes)

lemma u32_le_from:
  assumes "length s = 4"
  shows "u32_to_le (of_nat (from_le s)) = s"
proof -
  have "from_le s < 2 ^ 32" using from_le_less [of s] assms by simp
  then have "unat (of_nat (from_le s) :: u32) = from_le s" by (simp add: unsigned_of_nat take_bit_nat_eq_self_iff)
  with le_bytes_from [of s] assms show ?thesis by (simp add: u32_to_le_def)
qed

lemma u64_le_from:
  assumes "length s = 8"
  shows "u64_to_le (of_nat (from_le s)) = s"
proof -
  have "from_le s < 2 ^ 64" using from_le_less [of s] assms by simp
  then have "unat (of_nat (from_le s) :: u64) = from_le s" by (simp add: unsigned_of_nat take_bit_nat_eq_self_iff)
  with le_bytes_from [of s] assms show ?thesis by (simp add: u64_to_le_def)
qed

section \<open>The cursor reads what was written\<close>

lemma cur_take_append [simp]: "length a = n \<Longrightarrow> cur_take n (a @ s) = Some (a, s)"
  by (auto simp: cur_take_def)

lemma cur_take_SomeD: "cur_take n s = Some (a, s') \<Longrightarrow> s = a @ s' \<and> length a = n"
  by (auto simp: cur_take_def split: if_splits)

lemma cur_u8_Cons [simp]: "cur_u8 (c # s) = Some (c, s)"
  by (simp add: cur_u8_def cur_take_def)

lemma cur_u32_append [simp]: "cur_u32 (u32_to_le w @ s) = Some (w, s)"
  by (simp add: cur_u32_def)

lemma cur_u64_append [simp]: "cur_u64 (u64_to_le w @ s) = Some (w, s)"
  by (simp add: cur_u64_def)

lemma cur_u64_exact [simp]: "cur_u64 (u64_to_le w) = Some (w, [])"
  using cur_u64_append [of w "[]"] by simp

lemma cur_u8_SomeD: "cur_u8 s = Some (c, s') \<Longrightarrow> s = c # s'"
  by (cases s) (auto simp: cur_u8_def cur_take_def split: if_splits)

lemma cur_u32_SomeD: "cur_u32 s = Some (w, s') \<Longrightarrow> s = u32_to_le w @ s'"
  by (auto simp: cur_u32_def dest!: cur_take_SomeD simp: u32_le_from)

lemma cur_u64_SomeD: "cur_u64 s = Some (w, s') \<Longrightarrow> s = u64_to_le w @ s'"
  by (auto simp: cur_u64_def dest!: cur_take_SomeD simp: u64_le_from)

lemma record_state_of_byte [simp]: "record_state_of (state_byte st) = Some st"
  by (cases st) (simp_all add: record_state_of_def)

lemma record_state_of_SomeD: "record_state_of b = Some st \<Longrightarrow> b = state_byte st"
  by (auto simp: record_state_of_def split: if_splits)

lemma length_jobrec [simp]: "length (encode_jobrec r) = JOBREC_LEN"
  by (simp add: encode_jobrec_def JOBREC_LEN_def)

definition id_ok :: "job_id \<Rightarrow> bool" where
  "id_ok i \<longleftrightarrow> i \<noteq> 0 \<and> i \<le> MAX_RECORD_ID"

lemma decode_encode_jobrec [simp]: "id_ok (r_id r) \<Longrightarrow> decode_jobrec (encode_jobrec r @ s) = Some (r, s)"
  by (simp add: decode_jobrec_def encode_jobrec_def id_ok_def not_less)

lemma decode_jobrec_SomeD:
  assumes "decode_jobrec s = Some (r, s')"
  shows "s = encode_jobrec r @ s' \<and> id_ok (r_id r)"
  using assms unfolding decode_jobrec_def
  by (auto simp: bind_eq_Some_conv encode_jobrec_def id_ok_def split: if_splits
      dest!: cur_u64_SomeD cur_u32_SomeD cur_u8_SomeD record_state_of_SomeD)

section \<open>Records round trip\<close>

text \<open>The record of a journal entry, its encoding by the function the log uses for it, and the
  entries the format can carry.\<close>

fun entry_rec :: "journal_entry \<Rightarrow> log_rec" where
  "entry_rec (JPut r t b) = LPut r t b"
| "entry_rec (JUpdate r) = LUpdate r"
| "entry_rec (JDelete i) = LDelete i"

fun encode_entry :: "crc_lib \<Rightarrow> string \<Rightarrow> journal_entry \<Rightarrow> encode_error + string" where
  "encode_entry h out (JPut r t b) = encode_put h out r t b"
| "encode_entry h out (JUpdate r) = encode_update h out r"
| "encode_entry h out (JDelete i) = encode_delete h out i"

fun entry_ok :: "journal_entry \<Rightarrow> bool" where
  "entry_ok (JPut r t b) \<longleftrightarrow> id_ok (r_id r) \<and> valid_tube_name t \<and> length b < 2 ^ 31"
| "entry_ok (JUpdate r) \<longleftrightarrow> id_ok (r_id r)"
| "entry_ok (JDelete i) \<longleftrightarrow> id_ok i"

fun payload_of :: "journal_entry \<Rightarrow> string" where
  "payload_of (JPut r t b) = [KIND_PUT] @ encode_jobrec r @ [char_of (length t)] @ t @ b"
| "payload_of (JUpdate r) = [KIND_UPDATE] @ encode_jobrec r"
| "payload_of (JDelete i) = [KIND_DELETE] @ u64_to_le i"

definition frame_of :: "crc_lib \<Rightarrow> string \<Rightarrow> string" where
  "frame_of h p = (let l = u32_to_le (of_nat (length p)) in l @ u32_to_le (record_crc h l p) @ p)"

lemma valid_tube_length: "valid_tube_name t \<Longrightarrow> length t \<le> 200 \<and> t \<noteq> []"
  by (auto simp: valid_tube_name_iff MAX_TUBE_NAME_LEN_def)

lemma payload_length: "entry_ok e \<Longrightarrow> 0 < length (payload_of e) \<and> length (payload_of e) < 2 ^ 32"
  by (cases e) (auto simp: JOBREC_LEN_def dest: valid_tube_length)

lemma encode_entry_eq:
  assumes "entry_ok e"
  shows "encode_entry h out e = Inr (out @ frame_of h (payload_of e))"
  using assms payload_length [OF assms]
  by (cases e) (auto simp: encode_put_def encode_update_def encode_delete_def frame_def frame_of_def Let_def dest: valid_tube_length)

lemma length_frame_of: "length (frame_of h p) = REC_HEADER_LEN + length p"
  by (simp add: frame_of_def Let_def REC_HEADER_LEN_def)

lemma kinds [simp]: "KIND_UPDATE \<noteq> KIND_PUT" "KIND_DELETE \<noteq> KIND_PUT" "KIND_DELETE \<noteq> KIND_UPDATE"
  by (simp_all add: KIND_PUT_def KIND_UPDATE_def KIND_DELETE_def)

lemma TubeName_new_valid: "valid_tube_name t \<Longrightarrow> TubeName_new t = Some t"
  by (simp add: TubeName_new_def valid_tube_name_def)

lemma TubeName_new_SomeD: "TubeName_new t = Some n \<Longrightarrow> n = t \<and> valid_tube_name t"
  by (auto simp: TubeName_new_def valid_tube_name_def)

lemma decode_payload_of:
  assumes "entry_ok e"
  shows "decode_payload (payload_of e) = Inr (entry_rec e)"
proof (cases e)
  case (JPut r t b)
  then have v: "valid_tube_name t" "id_ok (r_id r)" using assms by simp_all
  then have "of_char (char_of (length t) :: char) = length t" using valid_tube_length [OF v(1)] by simp
  with JPut v show ?thesis by (simp add: decode_payload_def tube_name_checked TubeName_new_valid)
next
  case (JUpdate r)
  then have "decode_jobrec (encode_jobrec r) = Some (r, [])" using assms decode_encode_jobrec [of r "[]"] by simp
  with JUpdate show ?thesis by (simp add: decode_payload_def)
next
  case (JDelete i)
  with assms show ?thesis by (simp add: decode_payload_def id_ok_def not_less)
qed

lemma parse_frame:
  assumes "0 < length p" "length p < 2 ^ 32"
  shows "parse_at h (pre @ frame_of h p @ post) (length pre) =
    (case decode_payload p of Inr rec \<Rightarrow> PRec rec (length (frame_of h p)) | Inl why \<Rightarrow> PMalformed why)"
proof -
  let ?l = "u32_to_le (of_nat (length p))" and ?c = "\<lambda>l. u32_to_le (record_crc h l p)"
  have len: "unat (of_nat (length p) :: u32) = length p"
    using assms(2) by (simp add: unsigned_of_nat take_bit_nat_eq_self_iff)
  have rest: "drop (length pre) (pre @ frame_of h p @ post) = ?l @ ?c ?l @ p @ post" by (simp add: frame_of_def Let_def)
  show ?thesis
    unfolding parse_at_def rest length_frame_of REC_HEADER_LEN_def
    using assms by (simp add: Let_def len)
qed

text \<open>C13: What the log writes for a journal entry reads back as that entry, wherever it stands in
  a file and whatever follows: encoding succeeds and only appends, \<open>parse_at\<close> at that offset
  returns the record and its length, and the length is the one the space accounting uses.\<close>

theorem record_roundtrip:
  assumes "entry_ok e"
  shows "\<exists>bytes. encode_entry h out e = Inr (out @ bytes) \<and>
    parse_at h (out @ bytes @ post) (length out) = PRec (entry_rec e) (length bytes) \<and>
    length bytes = (case e of
      JPut r t b \<Rightarrow> put_rec_len (length t) (length b)
    | JUpdate _ \<Rightarrow> UPDATE_REC_LEN
    | JDelete _ \<Rightarrow> DELETE_REC_LEN)"
proof (intro exI conjI)
  show "encode_entry h out e = Inr (out @ frame_of h (payload_of e))" by (rule encode_entry_eq [OF assms])
  show "parse_at h (out @ frame_of h (payload_of e) @ post) (length out) = PRec (entry_rec e) (length (frame_of h (payload_of e)))"
    using parse_frame [of "payload_of e" h out post] payload_length [OF assms] decode_payload_of [OF assms] by simp
  show "length (frame_of h (payload_of e)) = (case e of JPut r t b \<Rightarrow> put_rec_len (length t) (length b)
      | JUpdate _ \<Rightarrow> UPDATE_REC_LEN | JDelete _ \<Rightarrow> DELETE_REC_LEN)"
    by (cases e) (simp_all add: length_frame_of put_rec_len_def UPDATE_REC_LEN_def DELETE_REC_LEN_def)
qed

definition zero_crc :: crc_lib where
  "zero_crc = \<lparr>crc32c = (\<lambda>_. 0), crc32c_append = (\<lambda>c _. c)\<rparr>"

theorem record_roundtrip_witness:
  "\<exists>bytes. encode_entry zero_crc ''xy'' (JDelete 5) = Inr (''xy'' @ bytes) \<and>
     parse_at zero_crc (''xy'' @ bytes @ ''z'') 2 = PRec (LDelete 5) (length bytes) \<and> length bytes = 17"
proof -
  have "entry_ok (JDelete 5)" by (simp add: id_ok_def MAX_RECORD_ID_def)
  from record_roundtrip [OF this, of zero_crc "''xy''" "''z''"] show ?thesis
    by (auto simp: numeral_2_eq_2 DELETE_REC_LEN_def REC_HEADER_LEN_def)
qed

lemma decode_payload_canonical:
  assumes "decode_payload p = Inr rec"
  shows "\<exists>e. rec = entry_rec e \<and> p = payload_of e \<and> id_ok (rec_id rec) \<and> (\<forall>r t b. rec = LPut r t b \<longrightarrow> valid_tube_name t)"
proof -
  from assms obtain k c where k: "cur_u8 p = Some (k, c)" by (auto simp: decode_payload_def split: option.splits)
  note p = cur_u8_SomeD [OF k]
  consider (put) "k = KIND_PUT" | (upd) "k = KIND_UPDATE" | (del) "k = KIND_DELETE"
    using assms k by (auto simp: decode_payload_def split: if_splits)
  then show ?thesis
  proof cases
    case put
    with assms k obtain r c1 l c2 t c3 n where *: "decode_jobrec c = Some (r, c1)" "cur_u8 c1 = Some (l, c2)"
      "cur_take (of_char l) c2 = Some (t, c3)" "TubeName_new t = Some n" "rec = LPut r n c3"
      by (auto simp: decode_payload_def tube_name_checked split: option.splits prod.splits)
    note j = decode_jobrec_SomeD [OF *(1)] and l = cur_u8_SomeD [OF *(2)] and tk = cur_take_SomeD [OF *(3)] and nm = TubeName_new_SomeD [OF *(4)]
    have "char_of (length t) = l" using tk by (metis char_of_char)
    then have "p = payload_of (JPut r t c3)" using p put j l tk by simp
    with *(5) j nm show ?thesis by (intro exI [of _ "JPut r t c3"]) auto
  next
    case upd
    with assms k obtain r where *: "decode_jobrec c = Some (r, [])" "rec = LUpdate r"
      by (auto simp: decode_payload_def split: option.splits prod.splits if_splits)
    with decode_jobrec_SomeD [OF *(1)] p upd show ?thesis by (intro exI [of _ "JUpdate r"]) auto
  next
    case del
    with assms k obtain i where *: "cur_u64 c = Some (i, [])" "rec = LDelete i" "id_ok i"
      by (auto simp: decode_payload_def id_ok_def not_less split: option.splits prod.splits if_splits)
    with cur_u64_SomeD [OF *(1)] p del show ?thesis by (intro exI [of _ "JDelete i"]) auto
  qed
qed

text \<open>C14: The format is canonical: a record \<open>parse_at\<close> accepts is byte for byte what the log writes
  for some journal entry with that record, and its id and tube name are in range.\<close>

theorem parse_canonical:
  assumes "parse_at h buf pos = PRec rec n"
  shows "\<exists>e. rec = entry_rec e \<and> encode_entry h [] e = Inr (take n (drop pos buf)) \<and> pos + n \<le> length buf \<and>
    id_ok (rec_id rec) \<and> (\<forall>r t b. rec = LPut r t b \<longrightarrow> valid_tube_name t)"
proof -
  let ?rest = "drop pos buf"
  define p where "p = drop REC_HEADER_LEN (take n ?rest)"
  from assms have h8: "REC_HEADER_LEN \<le> length ?rest" and n: "n = REC_HEADER_LEN + from_le (take 4 ?rest)" "n \<le> length ?rest"
    and crc: "record_crc h (take 4 ?rest) p = of_nat (from_le (take 4 (drop 4 ?rest)))" and d: "decode_payload p = Inr rec"
    by (auto simp: parse_at_def Let_def p_def not_less split: if_splits sum.splits)
  have lp: "length p = from_le (take 4 ?rest)" using n by (simp add: p_def)
  have l4: "length (take 4 ?rest) = 4" "length (take 4 (drop 4 ?rest)) = 4" using h8 by (simp_all add: REC_HEADER_LEN_def)
  have lb: "u32_to_le (of_nat (length p)) = take 4 ?rest" unfolding lp by (rule u32_le_from [OF l4(1)])
  have cb: "u32_to_le (record_crc h (take 4 ?rest) p) = take 4 (drop 4 ?rest)" unfolding crc by (rule u32_le_from [OF l4(2)])
  have "take n ?rest = take 8 ?rest @ p"
    using n(1) by (simp add: p_def REC_HEADER_LEN_def) (metis append_take_drop_id le_add1 min.absorb1 take_take)
  also have "take 8 ?rest = take 4 ?rest @ take 4 (drop 4 ?rest)" using take_add [of 4 4 ?rest] by simp
  finally have t: "take n ?rest = frame_of h p" by (simp add: frame_of_def Let_def lb cb)
  from decode_payload_canonical [OF d] obtain e where e: "rec = entry_rec e" "p = payload_of e" "id_ok (rec_id rec)"
    "\<forall>r t b. rec = LPut r t b \<longrightarrow> valid_tube_name t" by blast
  have "length (payload_of e) < 2 ^ 32" using lp from_le_less [of "take 4 ?rest"] l4(1) e(2) by simp
  then have "encode_entry h [] e = Inr (frame_of h p)"
    using e by (cases e) (auto simp: encode_put_def encode_update_def encode_delete_def frame_def frame_of_def Let_def
        dest: valid_tube_length)
  moreover have "pos + n \<le> length buf" using n h8 by (simp add: REC_HEADER_LEN_def)
  ultimately show ?thesis unfolding t using e by blast
qed

theorem parse_canonical_witness:
  "parse_at zero_crc (frame_of zero_crc (payload_of (JDelete 5))) 0 = PRec (LDelete 5) 17 \<and>
   (\<exists>e. LDelete 5 = entry_rec e \<and> encode_entry zero_crc [] e = Inr (take 17 (frame_of zero_crc (payload_of (JDelete 5)))))"
proof -
  have ok: "entry_ok (JDelete 5)" by (simp add: id_ok_def MAX_RECORD_ID_def)
  have p: "parse_at zero_crc (frame_of zero_crc (payload_of (JDelete 5))) 0 = PRec (LDelete 5) 17"
    using parse_frame [of "payload_of (JDelete 5)" zero_crc "[]" "[]"] decode_payload_of [OF ok]
    by (simp add: length_frame_of REC_HEADER_LEN_def)
  from parse_canonical [OF p] p show ?thesis by auto
qed

text \<open>C15: Compaction's shortcut is right: re-stamping the bytes of a put record with a newer job
  record gives exactly the encoding of the put with that job record.\<close>

theorem restamp_is_encode:
  assumes "entry_ok (JPut r t b)" "id_ok (r_id r')"
  shows "\<exists>bytes bytes'. encode_put h [] r t b = Inr bytes \<and>
    restamp_put h bytes r' = Some bytes' \<and> encode_put h [] r' t b = Inr bytes'"
proof -
  define bytes where "bytes = frame_of h (payload_of (JPut r t b))"
  have ok': "entry_ok (JPut r' t b)" using assms(1,2) by simp
  have e: "encode_put h [] r t b = Inr bytes" "encode_put h [] r' t b = Inr (frame_of h (payload_of (JPut r' t b)))"
    using encode_entry_eq [OF assms(1), of h "[]"] encode_entry_eq [OF ok', of h "[]"] by (simp_all add: bytes_def)
  let ?p = "payload_of (JPut r t b)" and ?p' = "payload_of (JPut r' t b)"
  let ?l = "u32_to_le (of_nat (length ?p))"
  have l: "length ?p' = length ?p" by simp
  define q where "q = char_of (length t) # t @ b"
  have b: "bytes = ?l @ u32_to_le (record_crc h ?l ?p) @ [KIND_PUT] @ encode_jobrec r @ q"
    by (simp add: bytes_def frame_of_def Let_def q_def)
  have p': "?p' = [KIND_PUT] @ encode_jobrec r' @ q" by (simp add: q_def)
  have "restamp_put h bytes r' = Some (?l @ u32_to_le (record_crc h ?l ?p') @ ?p')"
    unfolding p' b by (simp add: restamp_put_def Let_def JOBREC_OFFSET_def REC_HEADER_LEN_def JOBREC_LEN_def)
  moreover have "frame_of h ?p' = ?l @ u32_to_le (record_crc h ?l ?p') @ ?p'" unfolding frame_of_def Let_def l ..
  ultimately show ?thesis using e by simp
qed

definition sample_record :: "job_id \<Rightarrow> job_record" where
  "sample_record i = \<lparr>r_id = i, r_pri = 1, r_delay = 0, r_ttr = 60, r_created_at = 5, r_deadline_at = 0,
     r_state = RecReady, r_reserve_ct = 0, r_timeout_ct = 0, r_release_ct = 0, r_bury_ct = 0, r_kick_ct = 0\<rparr>"

lemma sample_put_ok: "entry_ok (JPut (sample_record 5) default_tube ''hi'')" "entry_ok (JPut ((sample_record 5)\<lparr>r_pri := 9\<rparr>) default_tube ''hi'')"
  by (simp_all add: id_ok_def MAX_RECORD_ID_def sample_record_def valid_default_tube)

theorem restamp_is_encode_witness:
  "\<exists>bytes bytes'. encode_put zero_crc [] (sample_record 5) default_tube ''hi'' = Inr bytes \<and>
     restamp_put zero_crc bytes ((sample_record 5)\<lparr>r_pri := 9\<rparr>) = Some bytes' \<and>
     encode_put zero_crc [] ((sample_record 5)\<lparr>r_pri := 9\<rparr>) default_tube ''hi'' = Inr bytes'"
proof -
  have "id_ok (r_id ((sample_record 5)\<lparr>r_pri := 9\<rparr>))" using sample_put_ok(2) by simp
  from restamp_is_encode [OF sample_put_ok(1) this] show ?thesis .
qed

end
