(* ===== verification/Store_Replay.thy ===== *)
theory Store_Replay
  imports Store_Format
begin

text \<open>
  The scan of the log directory (\<open>crates/store/src/replay.rs\<close>): segment names, the record
  loop over each segment, the rule for a torn tail, and the state the records build.

  The directory is the list of its file names with their contents: reading it is the operating
  system's part. A panic is the error \<open>Panicked\<close>.
\<close>

section \<open>Segment names\<close>

text \<open>\<open>str::parse::<u64>\<close> on a non-empty string of digits.\<close>

definition parse_u64 :: "string \<Rightarrow> u64 option" where
  "parse_u64 digits = (if number digits < 2 ^ 64 then Some (of_nat (number digits)) else None)"

definition segment_index :: "string \<Rightarrow> u64 option" where
  "segment_index name =
     (if take 7 name \<noteq> ''binlog.'' then None
      else
        let digits = drop 7 name in
        if digits = [] \<or> \<not> list_all is_ascii_digit digits \<or> hd digits = CHR ''0'' then None
        else (case parse_u64 digits of
                Some n \<Rightarrow> if n \<ge> 1 then Some n else None
              | None \<Rightarrow> None))"

definition segment_path :: "u64 \<Rightarrow> string" where
  "segment_path index = ''binlog.'' @ show_u64 index"

section \<open>The tube list\<close>





section \<open>The replay state\<close>





section \<open>The scan\<close>












section \<open>Segment names round trip\<close>

lemma show_u64_number: "number (show_u64 i) = unat i" "list_all is_ascii_digit (show_u64 i)" "show_u64 i \<noteq> []"
  by (simp_all add: show_u64_def number_show_nat show_nat_digits)

lemma hd_show_nat: "0 < n \<Longrightarrow> hd (show_nat n) \<noteq> CHR ''0''"
proof (induction n rule: show_nat.induct)
  case (1 n)
  show ?case
  proof (cases "n < 10")
    case True
    have "digit_value (digit_char n) = n" using True by (rule digit_char(2))
    with 1(2) True show ?thesis by (subst show_nat.simps) (auto simp: digit_value_def)
  next
    case False
    then have "0 < n div 10" by simp
    from 1(1) [OF False this] show_nat_digits(2) [of "n div 10"] show ?thesis
      by (subst show_nat.simps) (simp add: False)
  qed
qed

lemma segment_index_path:
  assumes "1 \<le> i"
  shows "segment_index (segment_path i) = Some i"
proof -
  have "0 < unat i" using assms by (simp add: word_le_nat_alt)
  then have "hd (show_u64 i) \<noteq> CHR ''0''" by (simp add: show_u64_def hd_show_nat)
  moreover have "parse_u64 (show_u64 i) = Some i"
    using unsigned_less [of i, where ?'a = nat] by (simp add: parse_u64_def show_u64_number)
  ultimately show ?thesis using assms show_u64_number(2,3) [of i] by (simp add: segment_index_def segment_path_def)
qed

section \<open>What the records build\<close>











section \<open>Log files\<close>

definition bytes_of :: "crc_lib \<Rightarrow> journal_entry list \<Rightarrow> string" where
  "bytes_of h es = concat (map (\<lambda>e. frame_of h (payload_of e)) es)"


lemma bytes_of_simps [simp]: "bytes_of h [] = []" "bytes_of h (e # es) = frame_of h (payload_of e) @ bytes_of h es"
  by (simp_all add: bytes_of_def)










section \<open>The directory\<close>



























section \<open>Canonical names\<close>

lemma digit_char_value: "is_ascii_digit d \<Longrightarrow> digit_char (digit_value d) = d \<and> digit_value d < 10"
  by (cases d) (auto simp: is_ascii_digit_def digit_char_def digit_value_def less_eq_char_def char_of_def bit_0)

lemma show_nat_number:
  "list_all is_ascii_digit ds \<Longrightarrow> ds \<noteq> [] \<Longrightarrow> hd ds \<noteq> CHR ''0'' \<Longrightarrow> show_nat (number ds) = ds"
proof (induction ds rule: rev_induct)
  case (snoc d ds)
  from snoc.prems have d: "digit_char (digit_value d) = d" "digit_value d < 10" using digit_char_value by auto
  show ?case
  proof (cases "ds = []")
    case True
    with d show ?thesis by (simp add: show_nat.simps)
  next
    case False
    with snoc have ih: "show_nat (number ds) = ds" by simp
    have "number ds \<noteq> 0"
    proof
      assume "number ds = 0"
      with ih have "ds = [CHR ''0'']" by (simp add: show_nat.simps digit_char_def char_of_def bit_0)
      with snoc.prems show False by simp
    qed
    with d ih show ?thesis by (subst show_nat.simps) (simp add: div_add1_eq)
  qed
qed simp

text \<open>C16: Segment numbers and file names correspond one to one: a directory entry is taken for segment
  \<open>i\<close> exactly if it has the name under which segment \<open>i\<close> is written.\<close>

theorem segment_name_canonical: "segment_index name = Some i \<longleftrightarrow> 1 \<le> i \<and> name = segment_path i"
proof
  assume s: "segment_index name = Some i"
  define ds where "ds = drop 7 name"
  from s have n: "take 7 name = ''binlog.''" and ds: "ds \<noteq> []" "list_all is_ascii_digit ds" "hd ds \<noteq> CHR ''0''"
    and i: "number ds < 2 ^ 64" "i = of_nat (number ds)" "1 \<le> i"
    by (auto simp: segment_index_def ds_def Let_def parse_u64_def split: if_splits)
  have "name = ''binlog.'' @ ds" unfolding n [symmetric] ds_def by simp
  moreover have "unat i = number ds" using i(1,2) by (simp add: unsigned_of_nat take_bit_nat_eq_self)
  ultimately show "1 \<le> i \<and> name = segment_path i"
    using show_nat_number [OF ds(2,1,3)] i(3) by (simp add: segment_path_def show_u64_def)
qed (use segment_index_path in blast)

end
