(* ===== verification/Spec2Isabelle.thy ===== *)
theory Spec2Isabelle
  imports Engine_Props Proto_Codec Proto_Grammar Store_Replay
begin

text \<open>
  \<^bold>\<open>A verification of the work queue server beanstalkd-rust\<close>

  The server accepts connections that put jobs into named tubes and reserve, release, bury, kick
  and delete them. Three parts of it are modelled here, each by a translation of its source into
  functions of this logic:

  \<^item> \<^emph>\<open>The protocol\<close> (\<open>src/crates/proto/src\<close>) turns the bytes of a connection into frames and
    responses into bytes. \<open>Proto\<close> has the commands, responses and tube names of \<open>lib.rs\<close>;
    \<open>Proto_Stats\<close> the YAML bodies of \<open>stats.rs\<close> and the wire form of \<open>response.rs\<close>;
    \<open>Proto_Parse\<close> the command line parser of \<open>parse.rs\<close>, function by function;
    \<open>Proto_Codec\<close> the incremental decoder of \<open>codec.rs\<close> with its line, body and discard states.
  \<^item> \<^emph>\<open>The engine\<close> (\<open>src/crates/engine/src\<close>) is the state machine: it owns jobs, tubes and
    connections, takes one input at a time and appends replies to an outbox and entries to a
    journal. \<open>Ms\<close> is the ordered multiset of \<open>ms.rs\<close>; \<open>Engine_Model\<close> the records of \<open>model.rs\<close>
    and \<open>lib.rs\<close>; \<open>Engine_Core\<close> the queues, ordered indexes, tube slab and the dispatch loop
    \<open>process_queue\<close> of \<open>engine.rs\<close>; \<open>Engine_Cmds\<close> its command handlers; \<open>Engine\<close> connections,
    \<open>handle\<close>, \<open>tick\<close>, \<open>next_deadline\<close>, \<open>apply_input\<close> and \<open>recover\<close>.
  \<^item> \<^emph>\<open>The store\<close> (\<open>src/crates/store/src\<close>) keeps the journal on disk. \<open>Store_Format\<close> is the
    record format of \<open>format.rs\<close>, \<open>Store_Replay\<close> the scan of the log directory of \<open>replay.rs\<close>.

  The three meet in their data: the codec yields the \<open>command\<close>s that \<open>handle\<close> takes, the engine's
  \<open>journal_entry\<close> values are what the record format encodes, and what the scan recovers is what
  \<open>recover\<close> starts from. \<open>Prelude\<close> has the generic lemmas and the loop combinator.

  \<^bold>\<open>How the code is represented.\<close> Structs are records with the field names of the source behind a
  prefix (\<open>j_\<close> job, \<open>t_\<close> tube, \<open>c_\<close> connection, \<open>e_\<close> engine, \<open>r_\<close> job record, \<open>k_\<close> codec,
  \<open>rs_\<close> replay state, \<open>sc_\<close> scan), enums are datatypes, \<open>u32\<close> and \<open>u64\<close> are words of that width:
  \<open>+\<close> wraps and \<open>saturating_add\<close> is \<open>sat_add\<close>. Bytes and texts are lists of characters. Hash maps
  are maps, ordered sets are sets read through \<open>first_of\<close>. A function that can panic on an index or
  loop forever returns an option, whose \<open>None\<close> is that outcome; \<open>returns m P\<close> says that \<open>m\<close>
  returns, with a result satisfying \<open>P\<close>. The loops of the engine are instances of \<open>loop\<close>, a
  \<open>partial_function\<close>, and \<open>returns_loop\<close> is its total correctness rule. All definitions are
  executable, so the witnesses evaluate them inside the logic.

  \<^bold>\<open>What is shown of the engine.\<close> \<open>Engine_Inv\<close> states the invariant \<open>inv\<close>: the slab and its free
  list, reference counts of tubes, waiting queues, ready, delayed and buried queues, reservations,
  cached counters, list keys and the three time indexes agree with the jobs and connections.
  \<open>Engine_Frame\<close> and \<open>Engine_Index\<close> have what each primitive leaves alone and the index updates;
  \<open>Engine_Moves\<close>, \<open>Engine_Wait\<close>, \<open>Engine_Slab\<close>, \<open>Engine_Refs\<close>, \<open>Engine_Conns\<close>,
  \<open>Engine_Sessions\<close> and \<open>Engine_Jobs\<close> the preservation of the parts of the invariant by each
  operation; \<open>Engine_Dispatch\<close> the contract of \<open>process_queue\<close>; \<open>Engine_Handlers\<close>,
  \<open>Engine_Steps\<close> and \<open>Engine_Time\<close> that every handler and the tick return and preserve it;
  \<open>Engine_Run\<close> the reachable states \<open>reach cfg n e\<close> and that all of them are \<open>good\<close>;
  \<open>Engine_Keep\<close> what an input can do to a job. \<open>Engine_Props\<close> has the theorems: every legal input
  is answered, reachable states are consistent, after an input nothing is left due, the engine
  refines a plain store of jobs, no wakeup is lost, every job is in the one place its state names, a
  reserved job is protected from other connections, the dispatcher picks the most urgent job that
  is waited for and hands it to a waiter, \<open>next_deadline\<close>, \<open>soonest_delayed_job\<close> and the statistics
  are exact, and tubes live only while something refers to them.

  \<^bold>\<open>Which inputs and how many.\<close> \<open>legal e i\<close> is the contract the callers keep: a connection id is
  connected once, and a connection that waits on a reserve sends no further command. A reachable
  state is one reached from \<open>engine_new\<close> by \<open>n\<close> legal inputs, and the theorems ask for
  \<open>n < 2 ^ 62\<close>: each input uses at most one job id and, per waiting connection, one list key, so
  neither 64-bit counter can have wrapped; at a million inputs per second the bound is
  reached after more than a hundred thousand years. At most \<open>2 ^ 32 - 1\<close> connections are open at
  once, which \<open>legal\<close> states for the counter of that width.

  \<^bold>\<open>What is shown of the protocol.\<close> \<open>Proto_Codec\<close>: a stream of requests, however it is cut into
  reads, decodes to exactly those requests; how it is cut never matters; and whatever bytes
  arrive, only frames with valid arguments and bodies within the limit come out. \<open>Proto_Grammar\<close>:
  the grammar of command lines with one rule per command, and that \<open>parse_line_raw\<close> accepts exactly
  its lines with exactly its meaning. \<open>Proto_Parse\<close>: the numbers the parser reads.

  \<^bold>\<open>What is shown of the store.\<close> \<open>Store_Format\<close>: every journal entry reads back as itself, and every
  accepted record is the encoding of an entry; re-stamping a record is encoding the newer one.
  \<open>Store_Replay\<close>: scanning the files the log wrote yields the live jobs the log means, also after
  a cut of the last file at any byte, for which exactly the incomplete last record is lost; file names
  and segment numbers correspond.

  \<^bold>\<open>Parameters.\<close> The checksum library is the argument \<open>h\<close> of the record format, with nothing assumed
  of it. The operating system's figures in \<open>stats\<close> (\<open>SysInfo\<close>) are one constant snapshot in the
  engine's state, since no other behaviour depends on them. Times are arguments, as in the source.

  \<^bold>\<open>Not modelled.\<close> The snapshot export, import and validation of the engine; the write-ahead log's
  file handling (\<open>wal.rs\<close>: open files, preallocation, fsync, compaction), which is operating system
  I/O around the record format; the cluster (\<open>src/crates/raft\<close> and the cluster mode of the server),
  asynchronous tasks over a consensus library that is not part of the sources; sockets, TLS,
  configuration, metrics and the HTTP endpoint of the server; tests, benchmarks and fuzz targets.
\<close>

end
